(* ===== verification/Prelude.thy ===== *)
theory Prelude
  imports Complex_Main "HOL-Library.Multiset" "HOL-Library.Char_ord" "HOL-Library.List_Lexorder"
begin

text \<open>
  What every component of the development shares: Go's 64-bit \<open>int\<close>, the parts of Go's
  \<open>strings\<close> and \<open>strconv\<close> packages the program calls, Go maps as association lists,
  and Go's \<open>sort.SliceStable\<close>, specified once as a locale over a strict weak order
  (a comparator) and used by every component that sorts.

  Strings are byte lists. \<open>go_lower\<close> and \<open>trim_space\<close> treat the ASCII range; bytes
  above 127 are left as they are.
\<close>

section \<open>Go integers\<close>

text \<open>Go's \<open>int\<close> is 64 bits wide on every platform the program ships for; arithmetic wraps.\<close>

definition wrap64 :: "int \<Rightarrow> int" where
  "wrap64 x = (x + 2 ^ 63) mod 2 ^ 64 - 2 ^ 63"

lemma wrap64_id: "- (2 ^ 63) \<le> x \<Longrightarrow> x < 2 ^ 63 \<Longrightarrow> wrap64 x = x"
  by (simp add: wrap64_def)

lemma wrap64_bounds: "- (2 ^ 63) \<le> wrap64 x \<and> wrap64 x < 2 ^ 63"
proof -
  have "0 \<le> (x + 2 ^ 63) mod 2 ^ 64" "(x + 2 ^ 63) mod 2 ^ 64 < (2 ^ 64 :: int)"
    by (rule pos_mod_sign, simp) (rule pos_mod_bound, simp)
  then show ?thesis by (simp add: wrap64_def)
qed

lemma wrap64_mult_add: "wrap64 (wrap64 a * b + c) = wrap64 (a * b + c)"
proof -
  define m :: int where "m = 2 ^ 64"
  define h :: int where "h = 2 ^ 63"
  have w: "wrap64 x = (x + h) mod m - h" for x
    by (simp add: wrap64_def m_def h_def)
  have "wrap64 a mod m = a mod m"
    unfolding w by (metis add_diff_cancel_right' mod_diff_left_eq)
  then have "(wrap64 a * b) mod m = (a * b) mod m"
    by (metis mod_mult_left_eq)
  then have "(wrap64 a * b + (c + h)) mod m = (a * b + (c + h)) mod m"
    by (metis mod_add_left_eq)
  then show ?thesis
    unfolding w [of "wrap64 a * b + c"] w [of "a * b + c"] by (simp add: add.assoc)
qed

section \<open>Decimal strings\<close>

definition is_digit :: "char \<Rightarrow> bool" where
  "is_digit c \<longleftrightarrow> CHR ''0'' \<le> c \<and> c \<le> CHR ''9''"

definition digit_val :: "char \<Rightarrow> int" where
  "digit_val c = int (of_char c) - 48"

definition digit_char :: "nat \<Rightarrow> char" where
  "digit_char d = char_of (48 + d)"

text \<open>The value of a digit string in unbounded arithmetic.\<close>

definition dec_val :: "string \<Rightarrow> int" where
  "dec_val s = foldl (\<lambda>n c. n * 10 + digit_val c) 0 s"

fun nat_dec :: "nat \<Rightarrow> string" where
  "nat_dec n = (if n < 10 then [digit_char n] else nat_dec (n div 10) @ [digit_char (n mod 10)])"

declare nat_dec.simps [simp del]

text \<open>\<open>strconv.Itoa\<close>.\<close>

definition itoa :: "int \<Rightarrow> string" where
  "itoa n = (if n < 0 then CHR ''-'' # nat_dec (nat (- n)) else nat_dec (nat n))"

lemma is_digit_digit_char: "d < 10 \<Longrightarrow> is_digit (digit_char d)"
  by (simp add: is_digit_def digit_char_def less_eq_char_def)

lemma digit_val_digit_char: "d < 10 \<Longrightarrow> digit_val (digit_char d) = int d"
  by (simp add: digit_val_def digit_char_def of_char_of)

lemma digit_val_bounds: "is_digit c \<Longrightarrow> 0 \<le> digit_val c \<and> digit_val c \<le> 9"
proof -
  assume "is_digit c"
  then have "of_char CHR ''0'' \<le> (of_char c :: nat)" "of_char c \<le> (of_char CHR ''9'' :: nat)"
    by (simp_all add: is_digit_def less_eq_char_def)
  then have "48 \<le> (of_char c :: nat)" "(of_char c :: nat) \<le> 57" by simp_all
  then show ?thesis unfolding digit_val_def by linarith
qed

lemma dec_val_snoc: "dec_val (s @ [c]) = dec_val s * 10 + digit_val c"
  by (simp add: dec_val_def)

lemma dec_val_Nil [simp]: "dec_val [] = 0"
  by (simp add: dec_val_def)

lemma dec_val_nonneg: "list_all is_digit s \<Longrightarrow> 0 \<le> dec_val s"
  by (induction s rule: rev_induct) (auto simp: dec_val_snoc dest!: digit_val_bounds)

lemma nat_dec_digits: "list_all is_digit (nat_dec n) \<and> nat_dec n \<noteq> []"
proof (induction n rule: nat_dec.induct)
  case (1 n)
  then show ?case
    by (cases "n < 10") (simp_all add: nat_dec.simps [of n] is_digit_digit_char)
qed

lemma dec_val_nat_dec: "dec_val (nat_dec n) = int n"
proof (induction n rule: nat_dec.induct)
  case (1 n)
  show ?case
  proof (cases "n < 10")
    case True
    then show ?thesis
      using dec_val_snoc [of "[]"] by (simp add: nat_dec.simps [of n] digit_val_digit_char)
  next
    case False
    with 1 have "dec_val (nat_dec (n div 10)) = int (n div 10)" by simp
    with False have "dec_val (nat_dec n) = int (n div 10) * 10 + int (n mod 10)"
      by (simp add: nat_dec.simps [of n] dec_val_snoc digit_val_digit_char)
    moreover have "n div 10 * 10 + n mod 10 = n" by simp
    ultimately show ?thesis by linarith
  qed
qed

lemma nat_dec_inject [simp]: "nat_dec m = nat_dec n \<longleftrightarrow> m = n"
  by (metis dec_val_nat_dec of_nat_eq_iff)

text \<open>\<open>isDigits\<close> of the store and lifecycle packages, \<open>isDigitStr\<close> of switching.\<close>

definition is_digits :: "string \<Rightarrow> bool" where
  "is_digits s \<longleftrightarrow> s \<noteq> [] \<and> list_all is_digit s"

text \<open>
  \<open>parseSlot\<close> / \<open>atoiSlot\<close>: digits accumulated into an \<open>int\<close> with no range check,
  so a long digit string wraps.
\<close>

definition parse_slot :: "string \<Rightarrow> int option" where
  "parse_slot s =
     (if is_digits s then Some (foldl (\<lambda>n c. wrap64 (n * 10 + digit_val c)) 0 s) else None)"

text \<open>\<open>strconv.Atoi\<close>: an optional sign, digits, and a range check.\<close>

definition atoi :: "string \<Rightarrow> int option" where
  "atoi s =
     (let neg = (s \<noteq> [] \<and> hd s = CHR ''-'');
          ds = (if s \<noteq> [] \<and> (hd s = CHR ''-'' \<or> hd s = CHR ''+'') then tl s else s);
          v = (if neg then - dec_val ds else dec_val ds)
      in if is_digits ds \<and> - (2 ^ 63) \<le> v \<and> v < 2 ^ 63 then Some v else None)"

lemma wrap_fold_dec: "foldl (\<lambda>n c. wrap64 (n * 10 + digit_val c)) 0 s = wrap64 (dec_val s)"
proof (induction s rule: rev_induct)
  case Nil
  show ?case by (simp add: wrap64_def)
next
  case (snoc c s)
  then show ?case by (simp add: dec_val_snoc wrap64_mult_add)
qed

lemma parse_slot_wrap: "is_digits s \<Longrightarrow> parse_slot s = Some (wrap64 (dec_val s))"
  by (simp add: parse_slot_def wrap_fold_dec)

lemma parse_slot_Some_iff: "(\<exists>n. parse_slot s = Some n) \<longleftrightarrow> is_digits s"
  by (simp add: parse_slot_def)

lemma is_digits_itoa: "0 \<le> n \<Longrightarrow> is_digits (itoa n)"
  by (simp add: is_digits_def itoa_def nat_dec_digits)

lemma dec_val_itoa: "0 \<le> n \<Longrightarrow> dec_val (itoa n) = n"
  by (simp add: itoa_def dec_val_nat_dec)

lemma parse_slot_itoa: "0 \<le> n \<Longrightarrow> n < 2 ^ 63 \<Longrightarrow> parse_slot (itoa n) = Some n"
  by (simp add: parse_slot_wrap is_digits_itoa dec_val_itoa wrap64_id)

lemma itoa_inject_nonneg: "0 \<le> m \<Longrightarrow> 0 \<le> n \<Longrightarrow> itoa m = itoa n \<longleftrightarrow> m = n"
  by (metis dec_val_itoa)

lemma atoi_digits: "is_digits s \<Longrightarrow> dec_val s < 2 ^ 63 \<Longrightarrow> atoi s = Some (dec_val s)"
proof -
  assume d: "is_digits s" and b: "dec_val s < 2 ^ 63"
  then obtain c cs where s: "s = c # cs" by (cases s) (auto simp: is_digits_def)
  with d have "is_digit c" by (simp add: is_digits_def)
  then have "c \<noteq> CHR ''-''" "c \<noteq> CHR ''+''"
    by (auto simp: is_digit_def less_eq_char_def)
  moreover have "0 \<le> dec_val s" using d by (simp add: is_digits_def dec_val_nonneg)
  ultimately show ?thesis using s d b by (simp add: atoi_def Let_def)
qed

lemma atoi_itoa: "0 \<le> n \<Longrightarrow> n < 2 ^ 63 \<Longrightarrow> atoi (itoa n) = Some n"
  by (simp add: atoi_digits is_digits_itoa dec_val_itoa)

section \<open>Strings\<close>

definition lower_char :: "char \<Rightarrow> char" where
  "lower_char c = (if CHR ''A'' \<le> c \<and> c \<le> CHR ''Z'' then char_of (of_char c + 32 :: nat) else c)"

definition go_lower :: "string \<Rightarrow> string" where
  "go_lower s = map lower_char s"

definition is_space :: "char \<Rightarrow> bool" where
  "is_space c \<longleftrightarrow> (let n = (of_char c :: nat) in n = 32 \<or> (9 \<le> n \<and> n \<le> 13))"

definition trim_space :: "string \<Rightarrow> string" where
  "trim_space s = rev (dropWhile is_space (rev (dropWhile is_space s)))"

lemma trim_Nil [simp]: "trim_space [] = []"
  by (simp add: trim_space_def)

definition has_prefix :: "string \<Rightarrow> string \<Rightarrow> bool" where
  "has_prefix s p \<longleftrightarrow> take (length p) s = p"

section \<open>Go maps\<close>

text \<open>
  A Go map is an association list with distinct keys. Assignment replaces the value in place
  or appends; deletion removes the key. Iteration order is not part of the meaning: code that
  iterates either sorts the keys first or does not depend on the order.
\<close>

type_synonym 'v gomap = "(string \<times> 'v) list"

fun gm_put :: "string \<Rightarrow> 'v \<Rightarrow> 'v gomap \<Rightarrow> 'v gomap" where
  "gm_put k v [] = [(k, v)]"
| "gm_put k v ((k', v') # m) = (if k = k' then (k, v) # m else (k', v') # gm_put k v m)"

definition gm_del :: "string \<Rightarrow> 'v gomap \<Rightarrow> 'v gomap" where
  "gm_del k m = filter (\<lambda>(k', v). k' \<noteq> k) m"

definition gm_keys :: "'v gomap \<Rightarrow> string list" where
  "gm_keys m = map fst m"

lemma map_of_gm_put [simp]: "map_of (gm_put k v m) = (map_of m)(k \<mapsto> v)"
  by (induction m) (auto simp: fun_eq_iff)

lemma map_of_gm_del [simp]: "map_of (gm_del k m) = (map_of m)(k := None)"
  by (induction m) (auto simp: gm_del_def fun_eq_iff)

lemma set_gm_keys: "set (gm_keys m) = dom (map_of m)"
  by (simp add: gm_keys_def dom_map_of_conv_image_fst)

lemma set_gm_keys_put [simp]: "set (gm_keys (gm_put k v m)) = insert k (set (gm_keys m))"
  by (simp add: set_gm_keys)

lemma set_gm_keys_del [simp]: "set (gm_keys (gm_del k m)) = set (gm_keys m) - {k}"
  by (auto simp: set_gm_keys)

lemma distinct_gm_put: "distinct (gm_keys m) \<Longrightarrow> distinct (gm_keys (gm_put k v m))"
proof (induction m)
  case (Cons p m)
  obtain k' v' where p: "p = (k', v')" by (cases p)
  have "set (map fst (gm_put k v m)) = insert k (set (map fst m))"
    using set_gm_keys_put [of k v m] by (simp add: gm_keys_def)
  with Cons p show ?case by (auto simp: gm_keys_def)
qed (simp add: gm_keys_def)

lemma distinct_gm_del: "distinct (gm_keys m) \<Longrightarrow> distinct (gm_keys (gm_del k m))"
  by (simp add: gm_keys_def gm_del_def distinct_map_filter)

section \<open>Stable sorting by a comparator\<close>

text \<open>
  \<open>sort.SliceStable(xs, lt)\<close>. For a strict weak order the stable arrangement is unique,
  so any stable algorithm gives it; insertion keeps the definition structural.
\<close>

fun insert_stable :: "('a \<Rightarrow> 'a \<Rightarrow> bool) \<Rightarrow> 'a \<Rightarrow> 'a list \<Rightarrow> 'a list" where
  "insert_stable lt x [] = [x]"
| "insert_stable lt x (y # ys) =
     (if lt y x then y # insert_stable lt x ys else x # y # ys)"

fun sort_stable :: "('a \<Rightarrow> 'a \<Rightarrow> bool) \<Rightarrow> 'a list \<Rightarrow> 'a list" where
  "sort_stable lt [] = []"
| "sort_stable lt (x # xs) = insert_stable lt x (sort_stable lt xs)"

lemma mset_insert_stable [simp]: "mset (insert_stable lt x ys) = add_mset x (mset ys)"
  by (induction ys) auto

lemma mset_sort_stable [simp]: "mset (sort_stable lt xs) = mset xs"
  by (induction xs) auto

lemma set_sort_stable [simp]: "set (sort_stable lt xs) = set xs"
  by (metis mset_sort_stable set_mset_mset)

lemma set_insert_stable [simp]: "set (insert_stable lt x ys) = insert x (set ys)"
  by (induction ys) auto

lemma distinct_sort_stable [simp]: "distinct (sort_stable lt xs) \<longleftrightarrow> distinct xs"
  by (metis mset_sort_stable mset_eq_imp_distinct_iff)

text \<open>The contract \<open>sort\<close> puts on a comparator.\<close>

locale strict_weak =
  fixes lt :: "'a \<Rightarrow> 'a \<Rightarrow> bool"
  assumes irrefl: "\<not> lt x x"
    and trans: "lt x y \<Longrightarrow> lt y z \<Longrightarrow> lt x z"
    and neg_trans: "lt x z \<Longrightarrow> lt x y \<or> lt y z"
begin

lemma asym: "lt x y \<Longrightarrow> \<not> lt y x"
  using irrefl trans by blast

lemma sorted_insert:
  "sorted_wrt (\<lambda>a b. \<not> lt b a) ys \<Longrightarrow> sorted_wrt (\<lambda>a b. \<not> lt b a) (insert_stable lt x ys)"
proof (induction ys)
  case (Cons y ys)
  show ?case
  proof (cases "lt y x")
    case True
    then have "\<not> lt x y" by (rule asym)
    with True Cons show ?thesis by auto
  next
    case False
    have "\<not> lt z x" if "z \<in> set ys" for z
    proof
      assume "lt z x"
      then have "lt z y \<or> lt y x" by (rule neg_trans)
      with False that Cons.prems show False by auto
    qed
    with False Cons.prems show ?thesis by auto
  qed
qed simp

lemma sorted_sort: "sorted_wrt (\<lambda>a b. \<not> lt b a) (sort_stable lt xs)"
  by (induction xs) (auto intro: sorted_insert)

text \<open>Stability: the elements equivalent to \<open>a\<close> keep their order.\<close>

lemma stable_insert:
  "filter (\<lambda>b. \<not> lt a b \<and> \<not> lt b a) (insert_stable lt x ys)
     = filter (\<lambda>b. \<not> lt a b \<and> \<not> lt b a) (x # ys)"
proof (induction ys)
  case (Cons y ys)
  show ?case
  proof (cases "lt y x")
    case True
    have "\<not> ((\<not> lt a x \<and> \<not> lt x a) \<and> (\<not> lt a y \<and> \<not> lt y a))"
      using True neg_trans [of y x a] by blast
    with True Cons show ?thesis by auto
  qed simp
qed simp

lemma stable:
  "filter (\<lambda>b. \<not> lt a b \<and> \<not> lt b a) (sort_stable lt xs)
     = filter (\<lambda>b. \<not> lt a b \<and> \<not> lt b a) xs"
  by (induction xs) (simp_all add: stable_insert)

lemma sort_head_least: "sort_stable lt xs = y # ys \<Longrightarrow> z \<in> set xs \<Longrightarrow> \<not> lt z y"
proof -
  assume s: "sort_stable lt xs = y # ys" and z: "z \<in> set xs"
  from z have "z \<in> set (y # ys)" using s by (metis set_sort_stable)
  moreover have "sorted_wrt (\<lambda>a b. \<not> lt b a) (y # ys)" using sorted_sort [of xs] s by simp
  ultimately show ?thesis using irrefl by auto
qed

end

text \<open>A comparator that separates distinct elements: sorting then forgets the input order.\<close>

locale strict_total = strict_weak +
  assumes total: "x \<noteq> y \<Longrightarrow> lt x y \<or> lt y x"
begin

lemma insert_commute_less:
  assumes "lt x y"
  shows "insert_stable lt x (insert_stable lt y zs) = insert_stable lt y (insert_stable lt x zs)"
proof (induction zs)
  case Nil
  show ?case using assms asym [OF assms] by simp
next
  case (Cons z zs)
  have "lt z x \<Longrightarrow> lt z y" using assms by (rule trans [rotated])
  then show ?case
    using assms asym [OF assms] Cons by (cases "lt z x"; cases "lt z y") simp_all
qed

lemma insert_commute:
  "insert_stable lt x (insert_stable lt y zs) = insert_stable lt y (insert_stable lt x zs)"
proof (cases "x = y")
  case False
  then have "lt x y \<or> lt y x" by (rule total)
  then show ?thesis using insert_commute_less by metis
qed simp

lemma sort_perm: "mset xs = mset ys \<Longrightarrow> sort_stable lt xs = sort_stable lt ys"
proof (induction xs arbitrary: ys)
  case (Cons x xs)
  then have "x \<in> set ys" by (metis list.set_intros(1) set_mset_mset)
  then obtain as bs where ys: "ys = as @ x # bs" by (meson split_list)
  have shift: "sort_stable lt (as @ x # bs) = insert_stable lt x (sort_stable lt (as @ bs))"
    by (induction as) (simp_all add: insert_commute)
  have "mset xs = mset (as @ bs)" using Cons.prems ys by simp
  then have "sort_stable lt xs = sort_stable lt (as @ bs)" by (rule Cons.IH)
  with ys shift show ?case by simp
qed simp

end

section \<open>Evaluation\<close>

text \<open>
  Two hints for \<open>code_simp\<close>: a \<open>let\<close> evaluates its value before its body, and an updated map stays
  folded until it is looked up.
\<close>

lemma let_as_case [code_unfold]: "Let e f = (case (e, ()) of (x, _) \<Rightarrow> f x)"
  by (simp add: Let_def)

definition updated :: "('a \<Rightarrow> 'b) \<Rightarrow> 'a \<Rightarrow> 'b \<Rightarrow> 'a \<Rightarrow> 'b" where
  "updated f a b x = (if x = a then b else f x)"

lemma fun_upd_updated [code_unfold]: "fun_upd = updated"
  by (simp add: fun_eq_iff updated_def)

end
