(* ===== verification/SlotKey.thy ===== *)
theory SlotKey
  imports Prelude
begin

text \<open>
  internal/slotkey: the canonical order over slot-key strings, used wherever the program
  iterates an account map. Numeric keys (what \<open>strconv.Atoi\<close> accepts) come first by value,
  equal values byte-lexicographically, then the non-numeric keys byte-lexicographically.
\<close>

definition slot_less :: "string \<Rightarrow> string \<Rightarrow> bool" where
  "slot_less a b =
     (case (atoi a, atoi b) of
        (Some na, Some nb) \<Rightarrow> if na \<noteq> nb then na < nb else a < b
      | (Some na, None) \<Rightarrow> True
      | (None, Some nb) \<Rightarrow> False
      | (None, None) \<Rightarrow> a < b)"

definition slot_sorted :: "string list \<Rightarrow> string list" where
  "slot_sorted keys = sort_stable slot_less keys"

interpretation slot: strict_total slot_less
proof
  fix x y z :: string
  show "\<not> slot_less x x"
    by (simp add: slot_less_def split: option.splits)
  show "slot_less x y \<Longrightarrow> slot_less y z \<Longrightarrow> slot_less x z"
    by (auto simp: slot_less_def split: option.splits if_splits)
  show "slot_less x z \<Longrightarrow> slot_less x y \<or> slot_less y z"
    by (auto simp: slot_less_def split: option.splits if_splits)
  show "x \<noteq> y \<Longrightarrow> slot_less x y \<or> slot_less y x"
    by (auto simp: slot_less_def split: option.splits)
qed

lemma set_slot_sorted [simp]: "set (slot_sorted keys) = set keys"
  by (simp add: slot_sorted_def)

lemma distinct_slot_sorted [simp]: "distinct (slot_sorted keys) \<longleftrightarrow> distinct keys"
  by (simp add: slot_sorted_def)

end
