(* ===== verification/Json.thy ===== *)
theory Json
  imports Prelude
begin

text \<open>
  JSON documents as \<open>encoding/json\<close> hands them to the program: \<open>any\<close> is \<open>json\<close>, a
  decoded \<open>map[string]any\<close> is a \<open>gomap\<close> of \<open>json\<close>. An object keeps its members in
  document order; decoding into a Go map lets a later duplicate win. Numbers (\<open>float64\<close>,
  \<open>json.Number\<close>) are exact rationals: no rounding, no NaN and no infinity, which a JSON
  document cannot carry. A file's text is either the document it parses to or text that does
  not parse (the empty text among them).
\<close>

datatype json =
    JNull
  | JBool bool
  | JNum rat
  | JStr string
  | JArr "json list"
  | JObj "(string \<times> json) list"

datatype jtext = TJson json | TRaw string

definition empty_text :: jtext where
  "empty_text = TRaw []"

text \<open>Type assertions: \<open>v.(map[string]any)\<close>, \<open>v.(string)\<close>, and so on.\<close>

definition obj_map :: "(string \<times> json) list \<Rightarrow> json gomap" where
  "obj_map kvs = foldl (\<lambda>m (k, v). gm_put k v m) [] kvs"

fun as_map :: "json \<Rightarrow> json gomap option" where
  "as_map (JObj kvs) = Some (obj_map kvs)"
| "as_map _ = None"

fun as_str :: "json \<Rightarrow> string option" where
  "as_str (JStr s) = Some s"
| "as_str _ = None"

fun as_num :: "json \<Rightarrow> rat option" where
  "as_num (JNum r) = Some r"
| "as_num _ = None"

fun as_bool :: "json \<Rightarrow> bool option" where
  "as_bool (JBool b) = Some b"
| "as_bool _ = None"

fun as_arr :: "json \<Rightarrow> json list option" where
  "as_arr (JArr xs) = Some xs"
| "as_arr _ = None"

text \<open>\<open>m[k]\<close> on a \<open>map[string]any\<close>: a missing key reads as \<open>nil\<close>, like JSON null.\<close>

definition mget :: "json gomap \<Rightarrow> string \<Rightarrow> json" where
  "mget m k = (case map_of m k of None \<Rightarrow> JNull | Some v \<Rightarrow> v)"

text \<open>\<open>strField\<close> / \<open>recStr\<close> / \<open>record.str\<close>: the string under a key, or the empty string.\<close>

definition str_field :: "json gomap \<Rightarrow> string \<Rightarrow> string" where
  "str_field m k = (case as_str (mget m k) of None \<Rightarrow> [] | Some s \<Rightarrow> s)"

definition bool_field :: "json gomap \<Rightarrow> string \<Rightarrow> bool" where
  "bool_field m k = (case as_bool (mget m k) of None \<Rightarrow> False | Some b \<Rightarrow> b)"

definition num_field :: "json gomap \<Rightarrow> string \<Rightarrow> rat option" where
  "num_field m k = as_num (mget m k)"

lemma mget_put [simp]: "mget (gm_put k v m) k' = (if k' = k then v else mget m k')"
  by (simp add: mget_def)

lemma mget_del [simp]: "mget (gm_del k m) k' = (if k' = k then JNull else mget m k')"
  by (simp add: mget_def)

lemma str_field_put [simp]:
  "str_field (gm_put k v m) k' =
     (if k' = k then (case as_str v of None \<Rightarrow> [] | Some s \<Rightarrow> s) else str_field m k')"
  by (simp add: str_field_def)

lemma str_field_del [simp]:
  "str_field (gm_del k m) k' = (if k' = k then [] else str_field m k')"
  by (simp add: str_field_def)

lemma bool_field_put [simp]:
  "bool_field (gm_put k v m) k' =
     (if k' = k then (case as_bool v of None \<Rightarrow> False | Some b \<Rightarrow> b) else bool_field m k')"
  by (simp add: bool_field_def)

lemma bool_field_del [simp]:
  "bool_field (gm_del k m) k' = (if k' = k then False else bool_field m k')"
  by (simp add: bool_field_def)

lemma distinct_obj_map_fold:
  "distinct (gm_keys m) \<Longrightarrow> distinct (gm_keys (foldl (\<lambda>m (k, v). gm_put k v m) m kvs))"
  by (induction kvs arbitrary: m) (auto intro: distinct_gm_put)

lemma distinct_obj_map: "distinct (gm_keys (obj_map kvs))"
  unfolding obj_map_def by (rule distinct_obj_map_fold) (simp add: gm_keys_def)

lemma gm_put_fresh: "k \<notin> set (gm_keys m) \<Longrightarrow> gm_put k v m = m @ [(k, v)]"
  by (induction m) (auto simp: gm_keys_def)

lemma obj_map_fold_distinct:
  "distinct (gm_keys (m @ kvs)) \<Longrightarrow> foldl (\<lambda>m (k, v). gm_put k v m) m kvs = m @ kvs"
proof (induction kvs arbitrary: m)
  case (Cons p kvs)
  obtain k v where p: "p = (k, v)" by (cases p)
  with Cons.prems have "gm_put k v m = m @ [(k, v)]"
    by (intro gm_put_fresh) (simp add: gm_keys_def)
  then show ?case using Cons.IH [of "m @ [(k, v)]"] Cons.prems p by (simp add: gm_keys_def)
qed simp

text \<open>An object with distinct keys survives encoding and decoding unchanged.\<close>

lemma obj_map_id: "distinct (gm_keys m) \<Longrightarrow> obj_map m = m"
  unfolding obj_map_def using obj_map_fold_distinct [of "[]" m] by simp

end
