(* ===== verification/Cerr.thy ===== *)
theory Cerr
  imports Prelude
begin

text \<open>
  internal/cerr: the typed domain errors. An operation that can fail returns \<open>go_err option\<close>
  (a bare \<open>error\<close>) or \<open>go_err + 'a\<close> (a value and an error). A domain error carries its kind
  and the fixed text of its message (the format string up to the first interpolation); an error of
  the operating system is \<open>OsErr\<close>, one of an unusable Keychain \<open>KcErr\<close>; \<open>GoPanic\<close> is no error value but a
  nil dereference, after which nothing but the deferred releases runs.
\<close>

datatype kind =
    KindConfig | KindSwitch | KindSession | KindValidation | KindAccountNotFound
  | KindCredential | KindCredentialRead | KindCredentialWrite | KindLock
  | KindClaudeCodeLockTimeout | KindTransfer | KindMigration | KindMigrationIncomplete

datatype go_err = Err kind string | OsErr | KcErr | GoPanic

fun kind_name :: "kind \<Rightarrow> string" where
  "kind_name KindConfig = ''ConfigError''"
| "kind_name KindSwitch = ''SwitchError''"
| "kind_name KindSession = ''SessionError''"
| "kind_name KindValidation = ''ValidationError''"
| "kind_name KindAccountNotFound = ''AccountNotFoundError''"
| "kind_name KindCredential = ''CredentialError''"
| "kind_name KindCredentialRead = ''CredentialReadError''"
| "kind_name KindCredentialWrite = ''CredentialWriteError''"
| "kind_name KindLock = ''LockError''"
| "kind_name KindClaudeCodeLockTimeout = ''ClaudeCodeLockTimeout''"
| "kind_name KindTransfer = ''TransferError''"
| "kind_name KindMigration = ''MigrationError''"
| "kind_name KindMigrationIncomplete = ''MigrationIncomplete''"

text \<open>\<open>TypeName\<close>: the JSON \<open>error.type\<close> of a domain error, empty for any other error.\<close>

fun type_name :: "go_err \<Rightarrow> string" where
  "type_name (Err k _) = kind_name k"
| "type_name OsErr = []"
| "type_name KcErr = []"
| "type_name GoPanic = []"

text \<open>\<open>keychain.IsUnusable\<close>: a Keychain that cannot be used now (an error of \<open>security\<close>, a
  timeout, a missing binary), as opposed to any other failure.\<close>

definition is_unusable :: "go_err \<Rightarrow> bool" where
  "is_unusable e \<longleftrightarrow> e = KcErr"

lemma kind_name_inject: "kind_name a = kind_name b \<longleftrightarrow> a = b"
  by (cases a; cases b) simp_all

end
