(* ===== verification/Roster.thy ===== *)
theory Roster
  imports SlotKey Json Cerr
begin

text \<open>
  internal/store/sequence.go and identity.go: the account roster (sequence.json), its classified
  read, identifier resolution, the composite-identity lookup and the org-field backfill. An account
  record is kept as the JSON value it was read as. A nil Go map or slice and an empty one are the
  same value here.
\<close>

section \<open>The roster and its file\<close>

record seq_data =
  active_num :: "int option"
  last_updated :: string
  seq_nums :: "int list"
  accounts :: "json gomap"

text \<open>What reading sequence.json can meet: no file, unreadable bytes, bytes that are no JSON object
  of the roster's shape, the literal null, a roster.\<close>

datatype seq_file = SeqMissing | SeqIoFail | SeqInvalid | SeqNull | SeqRoster seq_data

datatype sequence_state = SeqParsed | SeqAbsent | SeqUnreadable string

definition read_sequence_state :: "seq_file \<Rightarrow> seq_data option \<times> sequence_state \<times> go_err option" where
  "read_sequence_state f =
     (case f of
        SeqMissing \<Rightarrow> (None, SeqAbsent, None)
      | SeqIoFail \<Rightarrow> (None, SeqUnreadable ''is unreadable'', Some OsErr)
      | SeqInvalid \<Rightarrow> (None, SeqUnreadable ''is not valid JSON'', None)
      | SeqNull \<Rightarrow> (None, SeqUnreadable ''is valid JSON but holds null instead of an account roster'', None)
      | SeqRoster d \<Rightarrow> (Some d, SeqParsed, None))"

definition read_sequence :: "seq_file \<Rightarrow> go_err + seq_data option" where
  "read_sequence f =
     (case read_sequence_state f of (_, _, Some e) \<Rightarrow> Inl e | (d, _, None) \<Rightarrow> Inr d)"

text \<open>The reads that discard the error: \<open>data, _ := s.ReadSequence()\<close>.\<close>

definition seq_or_nil :: "seq_file \<Rightarrow> seq_data option" where
  "seq_or_nil f = fst (read_sequence_state f)"

definition corrupt_sequence_error :: "string \<Rightarrow> go_err" where
  "corrupt_sequence_error diagnosis = Err KindConfig diagnosis"

definition classified_roster :: "seq_file \<Rightarrow> go_err + seq_data option" where
  "classified_roster f =
     (case read_sequence_state f of
        (_, SeqAbsent, _) \<Rightarrow> Inr None
      | (_, SeqUnreadable diagnosis, _) \<Rightarrow> Inl (corrupt_sequence_error diagnosis)
      | (d, SeqParsed, _) \<Rightarrow> Inr d)"

definition empty_sequence :: "string \<Rightarrow> seq_data" where
  "empty_sequence ts = \<lparr>active_num = None, last_updated = ts, seq_nums = [], accounts = []\<rparr>"

definition sequence_for_update :: "string \<Rightarrow> seq_file \<Rightarrow> go_err + seq_data" where
  "sequence_for_update ts f =
     (case classified_roster f of
        Inl e \<Rightarrow> Inl e
      | Inr None \<Rightarrow> Inr (empty_sequence ts)
      | Inr (Some d) \<Rightarrow> Inr d)"

section \<open>Account records\<close>

text \<open>\<open>decodeRecord\<close> (store, lifecycle, switching): the fields of an object; anything else is empty.\<close>

definition decode_record :: "json \<Rightarrow> json gomap" where
  "decode_record raw = (case as_map raw of None \<Rightarrow> [] | Some m \<Rightarrow> m)"

text \<open>\<open>record.encode\<close> keeps the key order; the store's \<open>encodeRecord\<close> sorts the keys.\<close>

definition encode_record :: "json gomap \<Rightarrow> json" where
  "encode_record rec = JObj (sort_stable (\<lambda>a b. fst a < fst b) rec)"

definition record_for :: "seq_data option \<Rightarrow> string \<Rightarrow> json gomap option" where
  "record_for data num =
     (case data of None \<Rightarrow> None | Some d \<Rightarrow> map_option decode_record (map_of (accounts d) num))"

definition rec_at :: "seq_data \<Rightarrow> string \<Rightarrow> json gomap" where
  "rec_at d num = (case map_of (accounts d) num of None \<Rightarrow> [] | Some raw \<Rightarrow> decode_record raw)"

definition rec_email :: "seq_data \<Rightarrow> string \<Rightarrow> string" where
  "rec_email d num = str_field (rec_at d num) ''email''"

definition rec_org :: "seq_data \<Rightarrow> string \<Rightarrow> string" where
  "rec_org d num = str_field (rec_at d num) ''organizationUuid''"

definition rec_alias :: "seq_data \<Rightarrow> string \<Rightarrow> string" where
  "rec_alias d num = str_field (rec_at d num) ''alias''"

definition sorted_slot_keys :: "seq_data \<Rightarrow> string list" where
  "sorted_slot_keys d = slot_sorted (gm_keys (accounts d))"

section \<open>Slot numbering\<close>

definition max_slot :: "string list \<Rightarrow> int" where
  "max_slot keys =
     foldl (\<lambda>m num. case parse_slot num of None \<Rightarrow> m | Some n \<Rightarrow> if n > m then n else m) 0 keys"

definition next_account_number_from :: "seq_data option \<Rightarrow> int" where
  "next_account_number_from data =
     (case data of
        None \<Rightarrow> 1
      | Some d \<Rightarrow> if accounts d = [] then 1 else wrap64 (max_slot (gm_keys (accounts d)) + 1))"

section \<open>Lookups\<close>

definition first_slot :: "(string \<Rightarrow> bool) \<Rightarrow> seq_data \<Rightarrow> string" where
  "first_slot p d = (case filter p (sorted_slot_keys d) of [] \<Rightarrow> [] | num # _ \<Rightarrow> num)"

definition find_account_slot :: "seq_data option \<Rightarrow> string \<Rightarrow> string \<Rightarrow> string" where
  "find_account_slot data email org =
     (case data of
        None \<Rightarrow> []
      | Some d \<Rightarrow> first_slot (\<lambda>num. rec_email d num = email \<and> rec_org d num = org) d)"

definition find_account_by_alias :: "seq_data option \<Rightarrow> string \<Rightarrow> string" where
  "find_account_by_alias data alias =
     (case data of
        None \<Rightarrow> []
      | Some d \<Rightarrow> if alias = [] then []
                  else first_slot (\<lambda>num. go_lower (rec_alias d num) = go_lower alias) d)"

definition alias_in_use :: "seq_data option \<Rightarrow> string \<Rightarrow> string \<Rightarrow> string" where
  "alias_in_use data alias exclude =
     (let num = find_account_by_alias data alias in
      if num \<noteq> [] \<and> num = exclude then [] else num)"

definition email_slots :: "seq_data \<Rightarrow> string \<Rightarrow> string list" where
  "email_slots d email = filter (\<lambda>num. rec_email d num = email) (sorted_slot_keys d)"

definition resolve_identifier :: "seq_data option \<Rightarrow> string \<Rightarrow> go_err + string" where
  "resolve_identifier data ident =
     (if is_digits ident then Inr ident
      else (case data of
              None \<Rightarrow> Inr []
            | Some d \<Rightarrow>
                (let a = find_account_by_alias data ident in
                 if a \<noteq> [] then Inr a
                 else (case email_slots d ident of
                         [] \<Rightarrow> Inr []
                       | [num] \<Rightarrow> Inr num
                       | _ \<Rightarrow> Inl (Err KindConfig ''Email is ambiguous'')))))"

definition disabled_from_data :: "seq_data option \<Rightarrow> string \<Rightarrow> bool" where
  "disabled_from_data data num =
     (case record_for data num of None \<Rightarrow> False | Some rec \<Rightarrow> bool_field rec ''disabled'')"

definition account_kind_for :: "seq_data option \<Rightarrow> string \<Rightarrow> string" where
  "account_kind_for data num =
     (case record_for data num of
        None \<Rightarrow> ''oauth''
      | Some rec \<Rightarrow> if str_field rec ''kind'' = ''api_key'' then ''api_key'' else ''oauth'')"

section \<open>The org-field backfill\<close>

text \<open>The probe: \<open>None\<close> for bytes that are no object, the object's keys otherwise (null has none).\<close>

definition probe_keys :: "json \<Rightarrow> string list option" where
  "probe_keys raw = (case raw of JObj kvs \<Rightarrow> Some (map fst kvs) | JNull \<Rightarrow> Some [] | _ \<Rightarrow> None)"

definition has_org_key :: "json \<Rightarrow> bool" where
  "has_org_key raw = (case probe_keys raw of None \<Rightarrow> False | Some ks \<Rightarrow> ''organizationUuid'' \<in> set ks)"

definition needs_org_backfill :: "seq_data \<Rightarrow> bool" where
  "needs_org_backfill d \<longleftrightarrow>
     list_ex (\<lambda>(_, raw). probe_keys raw \<noteq> None \<and> \<not> has_org_key raw) (accounts d)"

text \<open>The live login \<open>(email, org uuid, org name)\<close>, blank on any failure.\<close>

type_synonym live_identity = "string \<times> string \<times> string"

definition config_org :: "jtext \<Rightarrow> string \<times> string" where
  "config_org t =
     (case t of
        TRaw _ \<Rightarrow> ([], [])
      | TJson v \<Rightarrow>
          (case as_map v of
             None \<Rightarrow> ([], [])
           | Some cfg \<Rightarrow>
               (case as_map (mget cfg ''oauthAccount'') of
                  None \<Rightarrow> ([], [])
                | Some oauth \<Rightarrow> (str_field oauth ''organizationUuid'', str_field oauth ''organizationName''))))"

definition backfill_record :: "live_identity \<Rightarrow> (string \<Rightarrow> string \<Rightarrow> jtext) \<Rightarrow> string \<Rightarrow> json \<Rightarrow> json" where
  "backfill_record live cfg_of num raw =
     (let rec = decode_record raw; email = str_field rec ''email''; (le, lu, ln) = live;
          (u, n) = (if email = le \<and> le \<noteq> [] then (lu, ln) else config_org (cfg_of num email))
      in encode_record (gm_put ''organizationName'' (JStr n) (gm_put ''organizationUuid'' (JStr u) rec)))"

text \<open>\<open>migrateOrgFields\<close> without its file I/O: the new roster, and whether anything changed.\<close>

definition backfill_accounts :: "live_identity \<Rightarrow> (string \<Rightarrow> string \<Rightarrow> jtext) \<Rightarrow> json gomap \<Rightarrow> json gomap" where
  "backfill_accounts live cfg_of accts =
     map (\<lambda>(num, raw). (num, if has_org_key raw then raw else backfill_record live cfg_of num raw)) accts"

definition backfill :: "string \<Rightarrow> live_identity \<Rightarrow> (string \<Rightarrow> string \<Rightarrow> jtext) \<Rightarrow> seq_data \<Rightarrow> seq_data" where
  "backfill ts live cfg_of d =
     (if list_ex (\<lambda>(_, raw). \<not> has_org_key raw) (accounts d)
      then d\<lparr>accounts := backfill_accounts live cfg_of (accounts d), last_updated := ts\<rparr>
      else d)"

section \<open>Lemmas\<close>

lemma max_slot_Max:
  "max_slot keys = Max (insert 0 {n. \<exists>k\<in>set keys. parse_slot k = Some n})"
proof -
  have "foldl (\<lambda>m num. case parse_slot num of None \<Rightarrow> m | Some n \<Rightarrow> if n > m then n else m) a keys
      = Max (insert a {n. \<exists>k\<in>set keys. parse_slot k = Some n})" for a :: int
  proof (induction keys arbitrary: a)
    case (Cons k keys)
    let ?S = "{n. \<exists>k\<in>set keys. parse_slot k = Some n}"
    have "finite ((\<lambda>k. the (parse_slot k)) ` set keys)" by simp
    moreover have "?S \<subseteq> (\<lambda>k. the (parse_slot k)) ` set keys" by force
    ultimately have fin: "finite ?S" by (rule finite_subset [rotated])
    show ?case
    proof (cases "parse_slot k")
      case None
      then have "{n. \<exists>x\<in>set (k # keys). parse_slot x = Some n} = ?S" by auto
      with Cons None show ?thesis by simp
    next
      case (Some n)
      then have S: "{n. \<exists>x\<in>set (k # keys). parse_slot x = Some n} = insert n ?S" by auto
      have "Max (insert (max a n) ?S) = Max (insert a (insert n ?S))"
        using fin by (cases "?S = {}") (simp_all add: max.assoc)
      moreover have "(if n > a then n else a) = max a n" by simp
      ultimately show ?thesis using Cons Some S by (simp add: max_def split: if_splits)
    qed
  qed simp
  then show ?thesis by (simp add: max_slot_def)
qed

lemma finite_slot_nums: "finite {n. \<exists>k\<in>set keys. parse_slot k = Some n}"
proof -
  have "{n. \<exists>k\<in>set keys. parse_slot k = Some n} \<subseteq> (\<lambda>k. the (parse_slot k)) ` set keys" by force
  then show ?thesis by (rule finite_subset) simp
qed

lemma max_slot_ge: "k \<in> set keys \<Longrightarrow> parse_slot k = Some n \<Longrightarrow> n \<le> max_slot keys"
  unfolding max_slot_Max using finite_slot_nums by (intro Max_ge) auto

lemma max_slot_nonneg: "0 \<le> max_slot keys"
  unfolding max_slot_Max using finite_slot_nums by (intro Max_ge) auto

lemma max_slot_mem: "max_slot keys = 0 \<or> (\<exists>k\<in>set keys. parse_slot k = Some (max_slot keys))"
proof -
  have "max_slot keys \<in> insert 0 {n. \<exists>k\<in>set keys. parse_slot k = Some n}"
    unfolding max_slot_Max using finite_slot_nums by (intro Max_in) auto
  then show ?thesis by blast
qed

lemma max_slot_set: "set keys = set keys' \<Longrightarrow> max_slot keys = max_slot keys'"
  by (simp add: max_slot_Max)

lemma sorted_slot_keys_set [simp]: "set (sorted_slot_keys d) = dom (map_of (accounts d))"
  by (simp add: sorted_slot_keys_def set_gm_keys)

text \<open>The map, not the list that represents it, determines the sorted keys.\<close>

lemma sorted_slot_keys_cong:
  assumes "map_of (accounts d) = map_of (accounts d')"
    and "distinct (gm_keys (accounts d))" "distinct (gm_keys (accounts d'))"
  shows "sorted_slot_keys d = sorted_slot_keys d'"
proof -
  have "set (gm_keys (accounts d)) = set (gm_keys (accounts d'))"
    using assms(1) by (simp add: set_gm_keys)
  then have "mset (gm_keys (accounts d)) = mset (gm_keys (accounts d'))"
    using assms(2,3) by (simp add: set_eq_iff_mset_eq_distinct)
  then show ?thesis
    unfolding sorted_slot_keys_def slot_sorted_def by (rule slot.sort_perm)
qed

lemma first_slot_hd:
  assumes "first_slot p d = num" "[] \<notin> dom (map_of (accounts d))"
  shows "num = [] \<longleftrightarrow> (\<forall>k \<in> dom (map_of (accounts d)). \<not> p k)"
    and "num \<noteq> [] \<Longrightarrow> num \<in> dom (map_of (accounts d)) \<and> p num \<and>
           (\<forall>k \<in> dom (map_of (accounts d)). p k \<longrightarrow> k = num \<or> slot_less num k)"
proof -
  let ?ks = "sorted_slot_keys d"
  have set: "set ?ks = dom (map_of (accounts d))" by simp
  show "num = [] \<longleftrightarrow> (\<forall>k \<in> dom (map_of (accounts d)). \<not> p k)"
  proof (cases "filter p ?ks")
    case Nil
    then have "num = []" using assms(1) by (simp add: first_slot_def)
    moreover have "\<forall>k\<in>set ?ks. \<not> p k" using Nil by (simp add: filter_empty_conv)
    ultimately show ?thesis by (simp only: set) simp
  next
    case (Cons k ks)
    then have "num = k" using assms(1) by (simp add: first_slot_def)
    moreover have "k \<in> set (filter p ?ks)" using Cons by simp
    then have k: "k \<in> dom (map_of (accounts d))" "p k" by auto
    moreover have "k \<noteq> []" using k assms(2) by metis
    ultimately show ?thesis by metis
  qed
  show "num \<noteq> [] \<Longrightarrow> num \<in> dom (map_of (accounts d)) \<and> p num \<and>
           (\<forall>k \<in> dom (map_of (accounts d)). p k \<longrightarrow> k = num \<or> slot_less num k)"
  proof -
    assume "num \<noteq> []"
    then obtain ks where f: "filter p ?ks = num # ks"
      using assms(1) by (auto simp: first_slot_def split: list.splits)
    have "sorted_wrt (\<lambda>a b. \<not> slot_less b a) ?ks"
      unfolding sorted_slot_keys_def slot_sorted_def by (rule slot.sorted_sort)
    then have "sorted_wrt (\<lambda>a b. \<not> slot_less b a) (num # ks)"
      using f sorted_wrt_filter by metis
    then have "\<forall>k\<in>set ks. k = num \<or> slot_less num k" using slot.total by auto
    moreover have fs: "set (num # ks) = {k \<in> dom (map_of (accounts d)). p k}"
      using f set by (metis set_filter)
    moreover have "num \<in> set (num # ks)" by simp
    ultimately show ?thesis by (metis (mono_tags, lifting) mem_Collect_eq set_ConsD)
  qed
qed

lemma map_of_sort_stable:
  assumes "distinct (gm_keys m)"
  shows "map_of (sort_stable lt m) = map_of m" and "distinct (gm_keys (sort_stable lt m))"
proof -
  have "mset (map fst (sort_stable lt m)) = mset (map fst m)" by simp
  from mset_eq_imp_distinct_iff [OF this]
  show d: "distinct (gm_keys (sort_stable lt m))" using assms by (simp add: gm_keys_def)
  show "map_of (sort_stable lt m) = map_of m"
    using map_of_inject_set [of "sort_stable lt m" m] assms d by (simp add: gm_keys_def)
qed

lemma distinct_decode_record: "distinct (gm_keys (decode_record raw))"
  using distinct_obj_map by (cases raw) (simp_all add: decode_record_def gm_keys_def)

lemma decode_encode_record:
  assumes "distinct (gm_keys rec)"
  shows "map_of (decode_record (encode_record rec)) = map_of rec"
  using map_of_sort_stable [OF assms]
  by (simp add: decode_record_def encode_record_def obj_map_id)

lemma mget_cong: "map_of m = map_of m' \<Longrightarrow> mget m k = mget m' k"
  by (simp add: mget_def)

lemma mget_decode_encode: "distinct (gm_keys rec) \<Longrightarrow> mget (decode_record (encode_record rec)) k = mget rec k"
  by (rule mget_cong) (rule decode_encode_record)

lemma has_org_key_encode:
  "distinct (gm_keys rec) \<Longrightarrow> has_org_key (encode_record rec) \<longleftrightarrow> ''organizationUuid'' \<in> dom (map_of rec)"
  using set_gm_keys [of "sort_stable (\<lambda>a b. fst a < fst b) rec"]
  by (simp add: has_org_key_def probe_keys_def encode_record_def map_of_sort_stable gm_keys_def)

section \<open>Properties\<close>

definition sample_roster :: seq_data where
  "sample_roster =
     \<lparr>active_num = Some 1, last_updated = ''t0'', seq_nums = [1, 3],
      accounts = [(''3'', JObj [(''email'', JStr ''bob@x.io''), (''organizationUuid'', JStr ''o1'')]),
                  (''1'', JObj [(''email'', JStr ''al@x.io''), (''organizationUuid'', JStr []),
                                (''alias'', JStr ''dev'')])]\<rparr>"

lemma fresh_from_max: "max_slot keys + 1 < 2 ^ 63 \<Longrightarrow> itoa (max_slot keys + 1) \<notin> set keys"
proof
  assume b: "max_slot keys + 1 < 2 ^ 63" and k: "itoa (max_slot keys + 1) \<in> set keys"
  have "parse_slot (itoa (max_slot keys + 1)) = Some (max_slot keys + 1)"
    using b max_slot_nonneg by (intro parse_slot_itoa) (simp_all add: add_increasing2)
  with k have "max_slot keys + 1 \<le> max_slot keys" by (rule max_slot_ge)
  then show False by simp
qed

text \<open>
  Property C16: a new account takes a free slot. The number chosen from a roster is positive, above
  every numbered slot of it, and its key is not in the account map, so recording the new account
  replaces nobody (as long as the highest slot is not the largest 64-bit integer).
\<close>

theorem next_slot_free:
  assumes "max_slot (gm_keys (accounts d)) + 1 < 2 ^ 63"
  shows "0 < next_account_number_from (Some d)
       \<and> map_of (accounts d) (itoa (next_account_number_from (Some d))) = None
       \<and> list_all (\<lambda>k. case parse_slot k of None \<Rightarrow> True | Some n \<Rightarrow> n < next_account_number_from (Some d))
                  (gm_keys (accounts d))"
proof (cases "accounts d = []")
  case True
  then show ?thesis by (simp add: next_account_number_from_def gm_keys_def)
next
  case False
  let ?ks = "gm_keys (accounts d)"
  have m: "0 \<le> max_slot ?ks" by (rule max_slot_nonneg)
  then have n: "next_account_number_from (Some d) = max_slot ?ks + 1"
    using False assms by (simp add: next_account_number_from_def wrap64_id)
  have "itoa (max_slot ?ks + 1) \<notin> dom (map_of (accounts d))"
    using fresh_from_max [OF assms] by (simp add: set_gm_keys)
  moreover have "list_all (\<lambda>k. case parse_slot k of None \<Rightarrow> True | Some n \<Rightarrow> n < max_slot ?ks + 1) ?ks"
    using max_slot_ge by (force simp: list_all_iff split: option.splits)
  ultimately show ?thesis unfolding n using m by (simp add: domIff)
qed

lemma next_slot_free_witness:
  "next_account_number_from (Some sample_roster) = 4 \<and>
   map_of (accounts sample_roster) (itoa 4) = None"
proof -
  have "max_slot (gm_keys (accounts sample_roster)) + 1 < 2 ^ 63" by code_simp
  moreover have "next_account_number_from (Some sample_roster) = 4" by code_simp
  ultimately show ?thesis using next_slot_free [of sample_roster] by simp
qed

text \<open>
  A roster that is present is never taken for an empty one. The read that a writer
  starts from yields an empty roster exactly when there is no file, yields the file's own roster when
  it parses, and refuses with a ConfigError in every other case (unreadable, not JSON, the literal
  null), so that no writer can replace recoverable records by a fresh file.
\<close>

theorem update_read_classified:
  "sequence_for_update ts f =
     (case f of
        SeqMissing \<Rightarrow> Inr (empty_sequence ts)
      | SeqRoster d \<Rightarrow> Inr d
      | SeqIoFail \<Rightarrow> Inl (Err KindConfig ''is unreadable'')
      | SeqInvalid \<Rightarrow> Inl (Err KindConfig ''is not valid JSON'')
      | SeqNull \<Rightarrow> Inl (Err KindConfig ''is valid JSON but holds null instead of an account roster''))"
  by (cases f) (simp_all add: sequence_for_update_def classified_roster_def read_sequence_state_def
                    corrupt_sequence_error_def)

text \<open>
  Slot lookup by composite identity is exact. The empty answer means that no slot holds
  the (email, organization) pair; any other answer is a slot that holds it, and the first such slot
  in the canonical slot order.
\<close>

theorem find_account_slot_exact:
  assumes "[] \<notin> set (gm_keys (accounts d))"
    and "find_account_slot (Some d) email org = num"
  shows "(num = [] \<longleftrightarrow> (\<forall>k \<in> set (gm_keys (accounts d)). rec_email d k \<noteq> email \<or> rec_org d k \<noteq> org))
       \<and> (num \<noteq> [] \<longrightarrow> num \<in> set (gm_keys (accounts d)) \<and> rec_email d num = email \<and> rec_org d num = org \<and>
             (\<forall>k \<in> set (gm_keys (accounts d)). rec_email d k = email \<and> rec_org d k = org
                 \<longrightarrow> k = num \<or> slot_less num k))"
proof -
  let ?p = "\<lambda>k. rec_email d k = email \<and> rec_org d k = org"
  have e: "[] \<notin> dom (map_of (accounts d))" using assms(1) by (simp add: set_gm_keys)
  have f: "first_slot ?p d = num" using assms(2) by (simp add: find_account_slot_def)
  from first_slot_hd [OF f e] show ?thesis by (simp only: set_gm_keys) blast
qed

lemma find_account_slot_exact_witness:
  "[] \<notin> set (gm_keys (accounts sample_roster)) \<and>
   find_account_slot (Some sample_roster) ''bob@x.io'' ''o1'' = ''3'' \<and>
   rec_email sample_roster ''3'' = ''bob@x.io''"
proof -
  have k: "[] \<notin> set (gm_keys (accounts sample_roster))"
    by (simp add: sample_roster_def gm_keys_def)
  have f: "find_account_slot (Some sample_roster) ''bob@x.io'' ''o1'' = ''3''" by code_simp
  show ?thesis using find_account_slot_exact [OF k f] k f by simp
qed

lemma rec_at_cong: "map_of (accounts d) = map_of (accounts d') \<Longrightarrow> rec_at d num = rec_at d' num"
  by (simp add: rec_at_def)

text \<open>
  What the program finds does not depend on Go's map iteration order. Two rosters with
  the same records under the same keys, listed in any order, answer every identity lookup, every
  identifier resolution (errors included) and the next slot number alike.
\<close>

theorem lookups_order_independent:
  assumes "map_of (accounts d) = map_of (accounts d')"
    and "distinct (gm_keys (accounts d))" "distinct (gm_keys (accounts d'))"
  shows "find_account_slot (Some d) email org = find_account_slot (Some d') email org
       \<and> resolve_identifier (Some d) ident = resolve_identifier (Some d') ident
       \<and> next_account_number_from (Some d) = next_account_number_from (Some d')"
proof -
  note keys = sorted_slot_keys_cong [OF assms]
  have set: "set (gm_keys (accounts d)) = set (gm_keys (accounts d'))"
    using assms(1) by (simp add: set_gm_keys)
  note recs = rec_at_cong [OF assms(1)]
  have fs: "first_slot p d = first_slot p d'" for p by (simp add: first_slot_def keys)
  have al: "find_account_by_alias (Some d) ident = find_account_by_alias (Some d') ident"
    by (simp add: find_account_by_alias_def rec_alias_def recs fs)
  have es: "email_slots d ident = email_slots d' ident"
    by (simp add: email_slots_def rec_email_def recs keys)
  have "resolve_identifier (Some d) ident = resolve_identifier (Some d') ident"
    by (simp only: resolve_identifier_def option.case al es)
  moreover have "find_account_slot (Some d) email org = find_account_slot (Some d') email org"
    by (simp add: find_account_slot_def rec_email_def rec_org_def recs fs)
  moreover have "accounts d = [] \<longleftrightarrow> accounts d' = []"
    using set unfolding gm_keys_def by (cases "accounts d"; cases "accounts d'") auto
  ultimately show ?thesis
    using max_slot_set [OF set] by (simp add: next_account_number_from_def)
qed

lemma lookups_order_independent_witness:
  "resolve_identifier (Some sample_roster) ''DEV''
     = resolve_identifier (Some (sample_roster\<lparr>accounts := rev (accounts sample_roster)\<rparr>)) ''DEV''
   \<and> resolve_identifier (Some sample_roster) ''DEV'' = Inr ''1''"
proof -
  let ?d' = "sample_roster\<lparr>accounts := rev (accounts sample_roster)\<rparr>"
  have "map_of (accounts sample_roster) = map_of (accounts ?d')"
    by (auto simp: sample_roster_def fun_eq_iff)
  moreover have "distinct (gm_keys (accounts sample_roster))" "distinct (gm_keys (accounts ?d'))"
    by (simp_all add: sample_roster_def gm_keys_def)
  moreover have "resolve_identifier (Some sample_roster) ''DEV'' = Inr ''1''" by code_simp
  ultimately show ?thesis using lookups_order_independent [of sample_roster ?d'] by simp
qed

text \<open>
  Identifier resolution follows number, alias, email, and never guesses. A number is
  taken as given; any other answer is a slot that carries the alias, or the only slot with that email
  when no slot has it as an alias; two slots with the email and no alias are a ConfigError.
\<close>

theorem resolve_identifier_precedence:
  assumes "[] \<notin> set (gm_keys (accounts d))"
  shows "case resolve_identifier (Some d) ident of
     Inl e \<Rightarrow> type_name e = ''ConfigError'' \<and> \<not> is_digits ident \<and>
              find_account_by_alias (Some d) ident = [] \<and> 2 \<le> length (email_slots d ident)
   | Inr num \<Rightarrow>
       if is_digits ident then num = ident
       else if num = [] then find_account_by_alias (Some d) ident = [] \<and> email_slots d ident = []
       else num \<in> set (gm_keys (accounts d)) \<and>
            (go_lower (rec_alias d num) = go_lower ident \<or>
             find_account_by_alias (Some d) ident = [] \<and> email_slots d ident = [num])"
proof -
  let ?a = "find_account_by_alias (Some d) ident"
  have e: "[] \<notin> dom (map_of (accounts d))" using assms by (simp add: set_gm_keys)
  have al: "?a \<noteq> [] \<Longrightarrow> ?a \<in> set (gm_keys (accounts d)) \<and> go_lower (rec_alias d ?a) = go_lower ident"
    using first_slot_hd(2) [OF refl e, of "\<lambda>num. go_lower (rec_alias d num) = go_lower ident"]
    by (auto simp: find_account_by_alias_def set_gm_keys split: if_splits)
  have slots: "set (email_slots d ident) \<subseteq> set (gm_keys (accounts d))"
    by (auto simp: email_slots_def set_gm_keys)
  show ?thesis
  proof (cases "is_digits ident \<or> ?a \<noteq> []")
    case True
    then show ?thesis using al by (auto simp: resolve_identifier_def Let_def)
  next
    case False
    then show ?thesis using slots assms
      by (auto simp: resolve_identifier_def Let_def split: list.splits)
  qed
qed

lemma resolve_identifier_precedence_witness:
  "resolve_identifier (Some sample_roster) ''bob@x.io'' = Inr ''3'' \<and>
   email_slots sample_roster ''bob@x.io'' = [''3'']"
proof -
  have k: "[] \<notin> set (gm_keys (accounts sample_roster))" by (simp add: sample_roster_def gm_keys_def)
  have r: "resolve_identifier (Some sample_roster) ''bob@x.io'' = Inr ''3''" by code_simp
  have a: "go_lower (rec_alias sample_roster ''3'') \<noteq> go_lower ''bob@x.io''" by code_simp
  show ?thesis using resolve_identifier_precedence [OF k, of "''bob@x.io''"] r a
    by (auto simp: is_digits_def is_digit_def less_eq_char_def)
qed

lemma backfill_record_facts:
  "has_org_key (backfill_record live cfg_of num raw) \<and>
   probe_keys (backfill_record live cfg_of num raw) \<noteq> None \<and>
   (k \<noteq> ''organizationUuid'' \<and> k \<noteq> ''organizationName'' \<longrightarrow>
      mget (decode_record (backfill_record live cfg_of num raw)) k = mget (decode_record raw) k)"
proof -
  obtain le lu ln where live: "live = (le, lu, ln)" by (cases live)
  let ?rec = "decode_record raw"
  obtain u n where un: "(if str_field ?rec ''email'' = le \<and> le \<noteq> [] then (lu, ln)
                         else config_org (cfg_of num (str_field ?rec ''email''))) = (u, n)"
    by fastforce
  let ?new = "gm_put ''organizationName'' (JStr n) (gm_put ''organizationUuid'' (JStr u) ?rec)"
  have b: "backfill_record live cfg_of num raw = encode_record ?new"
    using un by (simp add: backfill_record_def live Let_def)
  have d: "distinct (gm_keys ?new)" by (intro distinct_gm_put distinct_decode_record)
  show ?thesis
    unfolding b using d
    by (auto simp: has_org_key_encode mget_decode_encode) (simp add: probe_keys_def encode_record_def)
qed

lemma has_org_key_backfill [simp]: "has_org_key (backfill_record live cfg_of num raw)"
  using backfill_record_facts by blast

lemma mget_backfill [simp]:
  "k \<noteq> ''organizationUuid'' \<Longrightarrow> k \<noteq> ''organizationName'' \<Longrightarrow>
   mget (decode_record (backfill_record live cfg_of num raw)) k = mget (decode_record raw) k"
  using backfill_record_facts by blast

lemma no_org_backfill_left: "\<not> needs_org_backfill (backfill ts live cfg_of d)"
proof (cases "list_ex (\<lambda>(_, raw). \<not> has_org_key raw) (accounts d)")
  case True
  then have "\<forall>(n, raw) \<in> set (accounts (backfill ts live cfg_of d)). has_org_key raw"
    by (auto simp: backfill_def backfill_accounts_def)
  then show ?thesis by (auto simp: needs_org_backfill_def list_ex_iff)
next
  case False
  then show ?thesis by (auto simp: backfill_def needs_org_backfill_def list_ex_iff)
qed

text \<open>
  One backfill is enough and loses nothing. After it no record lacks the organization
  key, so a second backfill changes nothing; the slots, the rotation and the active slot are the
  same, a record that had the key is untouched, and in every other record each field but the two
  organization fields keeps its value.
\<close>

theorem backfill_complete:
  "\<not> needs_org_backfill (backfill ts live cfg_of d)
   \<and> backfill ts' live' cfg_of' (backfill ts live cfg_of d) = backfill ts live cfg_of d
   \<and> gm_keys (accounts (backfill ts live cfg_of d)) = gm_keys (accounts d)
   \<and> seq_nums (backfill ts live cfg_of d) = seq_nums d
   \<and> active_num (backfill ts live cfg_of d) = active_num d
   \<and> list_all2 (\<lambda>(n, raw) (n', raw'). n = n' \<and> (has_org_key raw \<longrightarrow> raw' = raw) \<and>
         (\<forall>k. k \<noteq> ''organizationUuid'' \<and> k \<noteq> ''organizationName''
              \<longrightarrow> mget (decode_record raw') k = mget (decode_record raw) k))
       (accounts d) (accounts (backfill ts live cfg_of d))"
proof -
  let ?f = "\<lambda>(num, raw). (num, if has_org_key raw then raw else backfill_record live cfg_of num raw)"
  have all: "list_all (\<lambda>(_, raw). has_org_key raw) (map ?f (accounts d))"
    by (auto simp: list_all_iff)
  have same: "backfill t l c d' = d'" if "list_all (\<lambda>(_, raw). has_org_key raw) (accounts d')" for t l c d'
    using that by (auto simp: backfill_def list_ex_iff list_all_iff)
  have acc: "accounts (backfill ts live cfg_of d) = map ?f (accounts d)"
  proof (cases "list_ex (\<lambda>(_, raw). \<not> has_org_key raw) (accounts d)")
    case True
    then show ?thesis by (simp add: backfill_def backfill_accounts_def)
  next
    case False
    then have "map ?f (accounts d) = accounts d"
      by (intro map_idI) (auto simp: list_ex_iff)
    with False show ?thesis by (simp add: backfill_def)
  qed
  have "backfill ts' live' cfg_of' (backfill ts live cfg_of d) = backfill ts live cfg_of d"
    using same all acc by simp
  moreover have "\<not> needs_org_backfill (backfill ts live cfg_of d)"
    using all acc by (auto simp: needs_org_backfill_def list_ex_iff list_all_iff)
  moreover have "gm_keys (map ?f (accounts d)) = gm_keys (accounts d)" by (simp add: gm_keys_def comp_def case_prod_unfold)
  moreover have "seq_nums (backfill ts live cfg_of d) = seq_nums d"
    "active_num (backfill ts live cfg_of d) = active_num d" by (simp_all add: backfill_def)
  moreover have "list_all2 (\<lambda>(n, raw) (n', raw'). n = n' \<and> (has_org_key raw \<longrightarrow> raw' = raw) \<and>
         (\<forall>k. k \<noteq> ''organizationUuid'' \<and> k \<noteq> ''organizationName''
              \<longrightarrow> mget (decode_record raw') k = mget (decode_record raw) k))
       (accounts d) (map ?f (accounts d))"
    by (auto simp: list_all2_conv_all_nth split: prod.splits)
  ultimately show ?thesis using acc by simp
qed

definition sample_old_roster :: seq_data where
  "sample_old_roster =
     sample_roster\<lparr>accounts := [(''3'', JObj [(''email'', JStr ''bob@x.io'')]), (''1'', JObj [(''email'', JStr ''al@x.io'')])]\<rparr>"

lemma backfill_complete_witness:
  "needs_org_backfill sample_old_roster
   \<and> \<not> needs_org_backfill (backfill ''t1'' (''al@x.io'', ''o9'', ''Nine'') (\<lambda>_ _. empty_text) sample_old_roster)"
  using backfill_complete [of "''t1''" "(''al@x.io'', ''o9'', ''Nine'')" "\<lambda>_ _. empty_text" sample_old_roster]
  by (simp add: sample_old_roster_def sample_roster_def needs_org_backfill_def probe_keys_def has_org_key_def)

end
