(* ===== verification/World.thy ===== *)
theory World
  imports Roster
begin

text \<open>
  The state the store operations run on: the files under the backup root, Claude Code's own files,
  the macOS Keychain, the clock, and the credential store's in-process fields. Every call that can
  fail takes one verdict from \<open>faults\<close> (an empty list means that nothing fails from here on): it
  succeeds, or reports the Keychain unusable, or reports another failure. A failing call may have
  taken effect all the same (\<open>True\<close>): a timed-out Keychain command, a chmod that fails after
  the rename. Tests for existence are not failed. Logging and console output are not modelled.
  \<open>w_nfc\<close> stands for the Unicode normalization of golang.org/x/text and \<open>w_digest\<close> for the hash in the
  name of a session profile's Keychain entry; both are parameters that the operations never change.
\<close>

datatype fault = NoFault | Unusable bool | OtherFail bool

datatype enc_file = EncData string | EncCorrupt

text \<open>
  A session profile directory: its credential file, its configuration, whether it carries the stale marker,
  and the rest of its contents (history, projects, settings).
\<close>

record profile =
  prof_creds :: "string option"
  prof_config :: "jtext option"
  prof_stale :: bool
  prof_data :: string

record world =
  faults :: "fault list"
  w_now :: rat
  w_stamp :: string
  macos :: bool
  w_user :: string
  w_nfc :: "string \<Rightarrow> string"
  w_digest :: "string \<Rightarrow> string"
  keychain :: "string \<times> string \<Rightarrow> string option"
  kc_cache :: "bool option"
  kc_disabled_until :: "rat option"
  last_backend :: string
  cred_files :: "string \<Rightarrow> enc_file option"
  config_files :: "string \<Rightarrow> jtext option"
  live_creds :: "string option"
  live_config :: "jtext option"
  seq_file :: seq_file
  staging_files :: "string \<Rightarrow> jtext option"
  stash_entries :: "string list"
  stash_manifest :: "(string \<times> string \<times> string) list"
  profiles :: "string \<Rightarrow> profile option"
  live_pids :: "string \<Rightarrow> int list"
  mapping_file :: "jtext option"
  usage_file :: "jtext option"
  settings_file :: "jtext option"
  auto_file :: "jtext option"

definition quiet :: "world \<Rightarrow> world" where
  "quiet w = w\<lparr>faults := []\<rparr>"

definition take_fault :: "world \<Rightarrow> fault \<times> world" where
  "take_fault w = (case faults w of [] \<Rightarrow> (NoFault, w) | f # fs \<Rightarrow> (f, w\<lparr>faults := fs\<rparr>))"

text \<open>A fallible call with effect \<open>eff\<close>, on the file system and on the Keychain.\<close>

definition os_call :: "(world \<Rightarrow> world) \<Rightarrow> world \<Rightarrow> go_err option \<times> world" where
  "os_call eff w =
     (case take_fault w of
        (NoFault, w) \<Rightarrow> (None, eff w)
      | (Unusable late, w) \<Rightarrow> (Some OsErr, if late then eff w else w)
      | (OtherFail late, w) \<Rightarrow> (Some OsErr, if late then eff w else w))"

definition kc_call :: "(world \<Rightarrow> world) \<Rightarrow> world \<Rightarrow> go_err option \<times> world" where
  "kc_call eff w =
     (case take_fault w of
        (NoFault, w) \<Rightarrow> (None, eff w)
      | (Unusable late, w) \<Rightarrow> (Some KcErr, if late then eff w else w)
      | (OtherFail late, w) \<Rightarrow> (Some OsErr, if late then eff w else w))"

text \<open>\<open>atomicfile.Write\<close>: the rename comes last, so a write that fails leaves the old file.\<close>

definition os_atomic :: "(world \<Rightarrow> world) \<Rightarrow> world \<Rightarrow> go_err option \<times> world" where
  "os_atomic eff w =
     (case take_fault w of
        (NoFault, w) \<Rightarrow> (None, eff w) | (Unusable _, w) \<Rightarrow> (Some OsErr, w) | (OtherFail _, w) \<Rightarrow> (Some OsErr, w))"

text \<open>\<open>if err := f(); err != nil { return err }; g()\<close>\<close>

definition and_then ::
  "(world \<Rightarrow> go_err option \<times> world) \<Rightarrow> (world \<Rightarrow> go_err option \<times> world) \<Rightarrow> world \<Rightarrow> go_err option \<times> world" where
  "and_then f g w = (case f w of (Some e, w) \<Rightarrow> (Some e, w) | (None, w) \<Rightarrow> g w)"

text \<open>\<open>_ = f()\<close> and the calls whose error is only logged.\<close>

definition ignoring :: "(world \<Rightarrow> go_err option \<times> world) \<Rightarrow> world \<Rightarrow> world" where
  "ignoring f w = snd (f w)"

section \<open>Files\<close>

definition put_cred_file :: "string \<Rightarrow> enc_file \<Rightarrow> world \<Rightarrow> go_err option \<times> world" where
  "put_cred_file path c = os_call (\<lambda>w. w\<lparr>cred_files := (cred_files w)(path := Some c)\<rparr>)"

definition remove_cred_file :: "string \<Rightarrow> world \<Rightarrow> go_err option \<times> world" where
  "remove_cred_file path = os_call (\<lambda>w. w\<lparr>cred_files := (cred_files w)(path := None)\<rparr>)"

definition cred_file_exists :: "string \<Rightarrow> world \<Rightarrow> bool" where
  "cred_file_exists path w \<longleftrightarrow> cred_files w path \<noteq> None"

text \<open>A plain \<open>os.WriteFile\<close>: one that fails after the file was truncated leaves it empty.\<close>

definition put_config_file :: "string \<Rightarrow> jtext \<Rightarrow> world \<Rightarrow> go_err option \<times> world" where
  "put_config_file path t w =
     (let put = (\<lambda>t w. w\<lparr>config_files := (config_files w)(path := Some t)\<rparr>)
      in (case take_fault w of
            (NoFault, w) \<Rightarrow> (None, put t w)
          | (Unusable late, w) \<Rightarrow> (Some OsErr, if late then put empty_text w else w)
          | (OtherFail late, w) \<Rightarrow> (Some OsErr, if late then put empty_text w else w)))"

definition remove_config_file :: "string \<Rightarrow> world \<Rightarrow> go_err option \<times> world" where
  "remove_config_file path = os_call (\<lambda>w. w\<lparr>config_files := (config_files w)(path := None)\<rparr>)"

definition write_sequence :: "seq_data \<Rightarrow> world \<Rightarrow> go_err option \<times> world" where
  "write_sequence d = os_atomic (\<lambda>w. w\<lparr>seq_file := SeqRoster d\<rparr>)"

section \<open>The calls leave everything else alone\<close>

named_theorems world_frame

lemma take_fault_cases:
  obtains (idle) "faults w = []" "take_fault w = (NoFault, w)"
  | (verdict) f fs where "faults w = f # fs" "take_fault w = (f, w\<lparr>faults := fs\<rparr>)"
  by (cases "faults w") (simp_all add: take_fault_def)

text \<open>
  A projection that neither \<open>faults\<close> nor the effect changes is the same after the call. Every
  frame lemma of the store operations is an instance.
\<close>

lemma os_call_frame:
  assumes "\<And>w fs. P (w\<lparr>faults := fs\<rparr>) = P w" "\<And>w. P (eff w) = P w"
  shows "P (snd (os_call eff w)) = P w"
  by (cases w rule: take_fault_cases) (auto simp: os_call_def assms split: fault.split)

lemma kc_call_frame:
  assumes "\<And>w fs. P (w\<lparr>faults := fs\<rparr>) = P w" "\<And>w. P (eff w) = P w"
  shows "P (snd (kc_call eff w)) = P w"
  by (cases w rule: take_fault_cases) (auto simp: kc_call_def assms split: fault.split)

lemma and_then_frame:
  assumes "\<And>w. P (snd (f w)) = P w" "\<And>w. P (snd (g w)) = P w"
  shows "P (snd (and_then f g w)) = P w"
  using assms(1) [of w] assms(2) by (cases "f w") (auto simp: and_then_def split: option.split)

lemma and_then_None:
  "and_then f g w = (None, w') \<longleftrightarrow> (\<exists>w1. f w = (None, w1) \<and> g w1 = (None, w'))"
  by (cases "f w") (auto simp: and_then_def split: option.split)

lemma take_fault_eq: "take_fault w = (f, w1) \<Longrightarrow> \<exists>fs. w1 = w\<lparr>faults := fs\<rparr>"
  by (cases w rule: take_fault_cases) (auto intro: exI [of _ "[]"])

lemma os_call_None: "os_call eff w = (None, w') \<Longrightarrow> \<exists>fs. w' = eff (w\<lparr>faults := fs\<rparr>)"
  by (cases "take_fault w") (auto simp: os_call_def dest!: take_fault_eq split: fault.splits)

lemma kc_call_None: "kc_call eff w = (None, w') \<Longrightarrow> \<exists>fs. w' = eff (w\<lparr>faults := fs\<rparr>)"
  by (cases "take_fault w") (auto simp: kc_call_def dest!: take_fault_eq split: fault.splits)

lemma os_atomic_None: "os_atomic eff w = (None, w') \<Longrightarrow> \<exists>fs. w' = eff (w\<lparr>faults := fs\<rparr>)"
  by (cases "take_fault w") (auto simp: os_atomic_def dest!: take_fault_eq split: fault.splits)

lemma os_atomic_quiet: "faults w = [] \<Longrightarrow> os_atomic eff w = (None, eff w)"
  by (simp add: os_atomic_def take_fault_def)

lemma os_call_quiet: "faults w = [] \<Longrightarrow> os_call eff w = (None, eff w)"
  by (simp add: os_call_def take_fault_def)

lemma kc_call_quiet: "faults w = [] \<Longrightarrow> kc_call eff w = (None, eff w)"
  by (simp add: kc_call_def take_fault_def)

lemma quiet_faults [simp]: "faults (quiet w) = []"
  by (simp add: quiet_def)

lemma quiet_fields [simp]:
  "macos (quiet w) = macos w" "keychain (quiet w) = keychain w" "cred_files (quiet w) = cred_files w"
  "config_files (quiet w) = config_files w" "live_creds (quiet w) = live_creds w"
  "live_config (quiet w) = live_config w" "seq_file (quiet w) = seq_file w"
  "kc_cache (quiet w) = kc_cache w" "kc_disabled_until (quiet w) = kc_disabled_until w"
  "w_user (quiet w) = w_user w" "w_now (quiet w) = w_now w"
  by (simp_all add: quiet_def)

section \<open>What a call touches\<close>

text \<open>
  The world's durable parts, one resource each. \<open>touches R w w'\<close>: from \<open>w\<close> to \<open>w'\<close> only the resources
  of \<open>R\<close> may have changed, the machine's fixed facts have not, the verdicts left are the last ones of \<open>w\<close>, and
  the clock has not gone back. The usability cache is volatile and never constrained. Every store operation has one lemma that bounds
  what it touches under any faults.
\<close>

datatype resource =
    RKeychain "string \<times> string" | RCredFile string | RConfigFile string | RLiveCreds | RLiveConfig
  | RSeq | RStaging string | RStash | RProfile string | RMappings | RUsage | RSettings | RAuto

fun same :: "resource \<Rightarrow> world \<Rightarrow> world \<Rightarrow> bool" where
  "same (RKeychain k) w w' = (keychain w' k = keychain w k)"
| "same (RCredFile p) w w' = (cred_files w' p = cred_files w p)"
| "same (RConfigFile p) w w' = (config_files w' p = config_files w p)"
| "same RLiveCreds w w' = (live_creds w' = live_creds w)"
| "same RLiveConfig w w' = (live_config w' = live_config w)"
| "same RSeq w w' = (seq_file w' = seq_file w)"
| "same (RStaging p) w w' = (staging_files w' p = staging_files w p)"
| "same RStash w w' = (stash_entries w' = stash_entries w \<and> stash_manifest w' = stash_manifest w)"
| "same (RProfile p) w w' = (profiles w' p = profiles w p)"
| "same RMappings w w' = (mapping_file w' = mapping_file w)"
| "same RUsage w w' = (usage_file w' = usage_file w)"
| "same RSettings w w' = (settings_file w' = settings_file w)"
| "same RAuto w w' = (auto_file w' = auto_file w)"

definition fixed_facts ::
  "world \<Rightarrow> bool \<times> string \<times> string \<times> (string \<Rightarrow> int list) \<times> (string \<Rightarrow> string) \<times> (string \<Rightarrow> string)" where
  "fixed_facts w = (macos w, w_user w, w_stamp w, live_pids w, w_nfc w, w_digest w)"

definition touches :: "resource set \<Rightarrow> world \<Rightarrow> world \<Rightarrow> bool" where
  "touches R w w' \<longleftrightarrow> fixed_facts w' = fixed_facts w \<and> (\<exists>n. faults w' = drop n (faults w)) \<and> w_now w \<le> w_now w'
     \<and> (\<forall>r. r \<notin> R \<longrightarrow> same r w w')"

named_theorems frames

lemma same_refl [simp]: "same r w w"
  by (cases r) simp_all

lemma same_trans: "same r w1 w2 \<Longrightarrow> same r w2 w3 \<Longrightarrow> same r w1 w3"
  by (cases r) simp_all

lemma touches_refl [simp, frames]: "touches R w w"
  by (auto simp: touches_def intro: exI [of _ 0])

lemma touches_trans: "touches R w1 w2 \<Longrightarrow> touches R w2 w3 \<Longrightarrow> touches R w1 w3"
  by (auto simp: touches_def intro: same_trans)

lemma touches_mono: "touches R w w' \<Longrightarrow> R \<subseteq> R' \<Longrightarrow> touches R' w w'"
  by (auto simp: touches_def)

lemma touches_same: "touches R w w' \<Longrightarrow> r \<notin> R \<Longrightarrow> same r w w'"
  by (simp add: touches_def)

lemma touches_facts:
  "touches R w w' \<Longrightarrow> macos w' = macos w"
  "touches R w w' \<Longrightarrow> w_user w' = w_user w"
  "touches R w w' \<Longrightarrow> w_stamp w' = w_stamp w"
  "touches R w w' \<Longrightarrow> live_pids w' = live_pids w"
  "touches R w w' \<Longrightarrow> w_nfc w' = w_nfc w"
  "touches R w w' \<Longrightarrow> w_digest w' = w_digest w"
  by (simp_all add: touches_def fixed_facts_def)

lemma same_volatile [simp]:
  "same r w (w1\<lparr>faults := x1\<rparr>) = same r w w1" "same r w (w1\<lparr>kc_cache := x2\<rparr>) = same r w w1"
  "same r w (w1\<lparr>kc_disabled_until := x3\<rparr>) = same r w w1" "same r w (w1\<lparr>last_backend := x4\<rparr>) = same r w w1"
  "same r w (w1\<lparr>w_now := x5\<rparr>) = same r w w1"
  by (cases r; simp)+

lemma touches_clock: "touches R w w' \<Longrightarrow> w_now w \<le> w_now w'"
  by (simp add: touches_def)

lemma touches_idle: "touches R w w' \<Longrightarrow> faults w = [] \<Longrightarrow> faults w' = []"
  by (auto simp: touches_def)

lemma touches_verdicts: "touches R w w' \<Longrightarrow> set (faults w') \<subseteq> set (faults w)"
  by (auto simp: touches_def dest: in_set_dropD)

lemma touches_faults:
  assumes "touches R w w1" "faults w1 = f # fs"
  shows "touches R w (w1\<lparr>faults := fs\<rparr>)"
proof -
  from assms obtain n where "drop n (faults w) = f # fs" by (auto simp: touches_def)
  then have "fs = drop (Suc n) (faults w)" by (metis drop_Suc list.sel(3) tl_drop)
  with assms(1) show ?thesis by (auto simp: touches_def fixed_facts_def)
qed

lemma touches_volatile:
  "touches R w w1 \<Longrightarrow> touches R w (w1\<lparr>kc_cache := x2\<rparr>)"
  "touches R w w1 \<Longrightarrow> touches R w (w1\<lparr>kc_disabled_until := x3\<rparr>)"
  "touches R w w1 \<Longrightarrow> touches R w (w1\<lparr>last_backend := x4\<rparr>)"
  "touches R w w1 \<Longrightarrow> w_now w1 \<le> x5 \<Longrightarrow> touches R w (w1\<lparr>w_now := x5\<rparr>)"
  by (simp_all add: touches_def fixed_facts_def)

declare touches_volatile [frames]

text \<open>How the frame goes through the control structure of an operation.\<close>

lemma touches_pair [frames]: "touches R w w1 \<Longrightarrow> touches R w (snd (x, w1))"
  by simp

lemma touches_if [frames]:
  "touches R w (snd a) \<Longrightarrow> touches R w (snd b) \<Longrightarrow> touches R w (snd (if c then a else b))"
  "touches R w w1 \<Longrightarrow> touches R w w2 \<Longrightarrow> touches R w (if c then w1 else w2)"
  by simp_all

lemma touches_prod [frames]:
  "touches R w (snd p) \<Longrightarrow> (\<And>x w1. touches R w w1 \<Longrightarrow> touches R w (snd (h x w1))) \<Longrightarrow> touches R w (snd (case_prod h p))"
  "touches R w (snd p) \<Longrightarrow> (\<And>x w1. touches R w w1 \<Longrightarrow> touches R w (h' x w1)) \<Longrightarrow> touches R w (case_prod h' p)"
  "(\<And>a b. touches R w (snd (k a b w2))) \<Longrightarrow> touches R w (snd (case_prod k q w2))"
  "(\<And>a b. touches R w (k' a b w2)) \<Longrightarrow> touches R w (case_prod k' q w2)"
  by (simp_all add: case_prod_unfold)

lemma touches_option [frames]:
  "touches R w (snd a) \<Longrightarrow> (\<And>x. touches R w (snd (b x))) \<Longrightarrow> touches R w (snd (case_option a b v))"
  "touches R w a' \<Longrightarrow> (\<And>x. touches R w (b' x)) \<Longrightarrow> touches R w (case_option a' b' v)"
  "touches R w (snd (a2 w2)) \<Longrightarrow> (\<And>x. touches R w (snd (b2 x w2))) \<Longrightarrow> touches R w (snd (case_option a2 b2 v w2))"
  "touches R w (a3 w2) \<Longrightarrow> (\<And>x. touches R w (b3 x w2)) \<Longrightarrow> touches R w (case_option a3 b3 v w2)"
  by (cases v; simp)+

lemma touches_sum [frames]:
  "(\<And>x. touches R w (snd (a x))) \<Longrightarrow> (\<And>x. touches R w (snd (b x))) \<Longrightarrow> touches R w (snd (case_sum a b v))"
  "(\<And>x. touches R w (a' x)) \<Longrightarrow> (\<And>x. touches R w (b' x)) \<Longrightarrow> touches R w (case_sum a' b' v)"
  "(\<And>x. touches R w (snd (a2 x w2))) \<Longrightarrow> (\<And>x. touches R w (snd (b2 x w2))) \<Longrightarrow> touches R w (snd (case_sum a2 b2 v w2))"
  by (cases v; simp)+

lemma touches_let [frames]:
  "touches R w (snd p) \<Longrightarrow> (\<And>x w1. touches R w w1 \<Longrightarrow> touches R w (snd (h x w1))) \<Longrightarrow> touches R w (snd (Let p (case_prod h)))"
  "touches R w (snd p) \<Longrightarrow> (\<And>x w1. touches R w w1 \<Longrightarrow> touches R w (h' x w1)) \<Longrightarrow> touches R w (Let p (case_prod h'))"
  by (simp_all add: case_prod_unfold)

lemma touches_let_world [frames]:
  "touches R w e \<Longrightarrow> (\<And>w1. touches R w w1 \<Longrightarrow> touches R w (snd (h w1))) \<Longrightarrow> touches R w (snd (Let e h))"
  "touches R w e \<Longrightarrow> (\<And>w1. touches R w w1 \<Longrightarrow> touches R w (h' w1)) \<Longrightarrow> touches R w (Let e h')"
  by simp_all

lemma touches_let_value [frames]:
  "(\<And>x. touches R w (snd (h x))) \<Longrightarrow> touches R w (snd (Let v h))"
  "(\<And>x. touches R w (h' x)) \<Longrightarrow> touches R w (Let v h')"
  by simp_all

lemma touches_ignoring [frames]: "touches R w (snd (f w1)) \<Longrightarrow> touches R w (ignoring f w1)"
  by (simp add: ignoring_def)

lemma touches_os_call [frames]:
  "touches R w w1 \<Longrightarrow> (\<And>w2. touches R w w2 \<Longrightarrow> touches R w (eff w2)) \<Longrightarrow> touches R w (snd (os_call eff w1))"
  by (cases w1 rule: take_fault_cases) (auto simp: os_call_def touches_faults split: fault.split)

lemma touches_kc_call [frames]:
  "touches R w w1 \<Longrightarrow> (\<And>w2. touches R w w2 \<Longrightarrow> touches R w (eff w2)) \<Longrightarrow> touches R w (snd (kc_call eff w1))"
  by (cases w1 rule: take_fault_cases) (auto simp: kc_call_def touches_faults split: fault.split)

lemma touches_os_atomic [frames]:
  "touches R w w1 \<Longrightarrow> (\<And>w2. touches R w w2 \<Longrightarrow> touches R w (eff w2)) \<Longrightarrow> touches R w (snd (os_atomic eff w1))"
  by (cases w1 rule: take_fault_cases) (auto simp: os_atomic_def touches_faults split: fault.split)

lemma os_atomic_Some: "os_atomic eff w = (Some e, w') \<Longrightarrow> touches {} w w'"
  by (cases w rule: take_fault_cases) (auto simp: os_atomic_def touches_faults split: fault.splits)

lemma touches_and_then [frames]:
  "touches R w (snd (f w1)) \<Longrightarrow> (\<And>w2. touches R w w2 \<Longrightarrow> touches R w (snd (g w2))) \<Longrightarrow> touches R w (snd (and_then f g w1))"
  by (cases "f w1") (auto simp: and_then_def split: option.split)

lemma touches_by: "touches R w w1 \<Longrightarrow> touches R' w1 (snd (f w1)) \<Longrightarrow> R' \<subseteq> R \<Longrightarrow> touches R w (snd (f w1))"
  by (meson touches_mono touches_trans)

lemma same_update:
  "r \<noteq> RKeychain k \<Longrightarrow> same r w (w1\<lparr>keychain := (keychain w1)(k := kv)\<rparr>) = same r w w1"
  "r \<noteq> RCredFile p \<Longrightarrow> same r w (w1\<lparr>cred_files := (cred_files w1)(p := fv)\<rparr>) = same r w w1"
  "r \<noteq> RConfigFile p \<Longrightarrow> same r w (w1\<lparr>config_files := (config_files w1)(p := cv)\<rparr>) = same r w w1"
  "r \<noteq> RProfile p \<Longrightarrow> same r w (w1\<lparr>profiles := (profiles w1)(p := pv)\<rparr>) = same r w w1"
  "r \<noteq> RLiveCreds \<Longrightarrow> same r w (w1\<lparr>live_creds := lv\<rparr>) = same r w w1"
  "r \<noteq> RLiveConfig \<Longrightarrow> same r w (w1\<lparr>live_config := gv\<rparr>) = same r w w1"
  "r \<noteq> RSeq \<Longrightarrow> same r w (w1\<lparr>seq_file := sv\<rparr>) = same r w w1"
  "r \<noteq> RStaging p \<Longrightarrow> same r w (w1\<lparr>staging_files := (staging_files w1)(p := tv)\<rparr>) = same r w w1"
  "r \<noteq> RStash \<Longrightarrow> same r w (w1\<lparr>stash_entries := ev\<rparr>) = same r w w1"
  "r \<noteq> RStash \<Longrightarrow> same r w (w1\<lparr>stash_manifest := mv\<rparr>) = same r w w1"
  "r \<noteq> RMappings \<Longrightarrow> same r w (w1\<lparr>mapping_file := rv\<rparr>) = same r w w1"
  "r \<noteq> RUsage \<Longrightarrow> same r w (w1\<lparr>usage_file := uv\<rparr>) = same r w w1"
  "r \<noteq> RSettings \<Longrightarrow> same r w (w1\<lparr>settings_file := ov\<rparr>) = same r w w1"
  "r \<noteq> RAuto \<Longrightarrow> same r w (w1\<lparr>auto_file := av\<rparr>) = same r w w1"
  by (cases r; auto)+

lemma touches_update:
  assumes "touches R w w1"
  shows "RKeychain k \<in> R \<Longrightarrow> touches R w (w1\<lparr>keychain := (keychain w1)(k := kv)\<rparr>)"
    "RCredFile p \<in> R \<Longrightarrow> touches R w (w1\<lparr>cred_files := (cred_files w1)(p := fv)\<rparr>)"
    "RConfigFile p \<in> R \<Longrightarrow> touches R w (w1\<lparr>config_files := (config_files w1)(p := cv)\<rparr>)"
    "RProfile p \<in> R \<Longrightarrow> touches R w (w1\<lparr>profiles := (profiles w1)(p := pv)\<rparr>)"
    "RLiveCreds \<in> R \<Longrightarrow> touches R w (w1\<lparr>live_creds := lv\<rparr>)"
    "RLiveConfig \<in> R \<Longrightarrow> touches R w (w1\<lparr>live_config := gv\<rparr>)"
    "RSeq \<in> R \<Longrightarrow> touches R w (w1\<lparr>seq_file := sv\<rparr>)"
    "RStaging p \<in> R \<Longrightarrow> touches R w (w1\<lparr>staging_files := (staging_files w1)(p := tv)\<rparr>)"
    "RStash \<in> R \<Longrightarrow> touches R w (w1\<lparr>stash_entries := ev\<rparr>)"
    "RStash \<in> R \<Longrightarrow> touches R w (w1\<lparr>stash_manifest := mv\<rparr>)"
    "RMappings \<in> R \<Longrightarrow> touches R w (w1\<lparr>mapping_file := rv\<rparr>)"
    "RUsage \<in> R \<Longrightarrow> touches R w (w1\<lparr>usage_file := uv\<rparr>)"
    "RSettings \<in> R \<Longrightarrow> touches R w (w1\<lparr>settings_file := ov\<rparr>)"
    "RAuto \<in> R \<Longrightarrow> touches R w (w1\<lparr>auto_file := av\<rparr>)"
  using assms by (auto simp: touches_def fixed_facts_def intro!: same_update [THEN iffD2])

declare touches_update [frames]

end
