(* ===== verification/Interfaces.thy ===== *)
theory Interfaces
  imports World
begin

text \<open>
  The contract between the store's per-slot backups (credentials, configurations) and their clients
  (slot moves and swaps, switching): what a slot's backup holds after a write or a required clear, under
  any faults, and that two slots never share a place.
\<close>

text \<open>\<open>writeOrClear\<close>: material that exists is written, material that does not is cleared, and either can fail.\<close>

definition write_or_clear ::
  "'v \<Rightarrow> (string \<Rightarrow> string \<Rightarrow> 'v \<Rightarrow> world \<Rightarrow> go_err option \<times> world) \<Rightarrow>
   (string \<Rightarrow> string \<Rightarrow> world \<Rightarrow> go_err option \<times> world) \<Rightarrow>
   string \<Rightarrow> string \<Rightarrow> 'v \<Rightarrow> world \<Rightarrow> go_err option \<times> world" where
  "write_or_clear nothing wr cl num email v w = (if v \<noteq> nothing then wr num email v w else cl num email w)"

locale slot_backup =
  fixes val :: "string \<Rightarrow> string \<Rightarrow> world \<Rightarrow> 'v"
    and nothing :: 'v
    and wr :: "string \<Rightarrow> string \<Rightarrow> 'v \<Rightarrow> world \<Rightarrow> go_err option \<times> world"
    and cl :: "string \<Rightarrow> string \<Rightarrow> world \<Rightarrow> go_err option \<times> world"
  assumes write_ok: "v \<noteq> nothing \<Longrightarrow> wr num email v w = (None, w') \<Longrightarrow> val num email w' = v"
    and clear_ok: "cl num email w = (None, w') \<Longrightarrow> val num email w' = nothing"
    and write_apart: "is_digits num \<Longrightarrow> is_digits num' \<Longrightarrow> num \<noteq> num' \<Longrightarrow>
           val num' email' (snd (wr num email v w)) = val num' email' w"
    and clear_apart: "is_digits num \<Longrightarrow> is_digits num' \<Longrightarrow> num \<noteq> num' \<Longrightarrow>
           val num' email' (snd (cl num email w)) = val num' email' w"
begin

lemma write_or_clear_ok: "write_or_clear nothing wr cl num email v w = (None, w') \<Longrightarrow> val num email w' = v"
  by (auto simp: write_or_clear_def write_ok clear_ok split: if_splits)

lemma write_or_clear_apart:
  "is_digits num \<Longrightarrow> is_digits num' \<Longrightarrow> num \<noteq> num' \<Longrightarrow>
   val num' email' (snd (write_or_clear nothing wr cl num email v w)) = val num' email' w"
  by (simp add: write_or_clear_def write_apart clear_apart)

text \<open>Two slots filled one after the other both hold their material.\<close>

lemma write_two:
  assumes "write_or_clear nothing wr cl num email v w = (None, w1)"
    "write_or_clear nothing wr cl num' email' v' w1 = (None, w2)"
    "is_digits num" "is_digits num'" "num \<noteq> num'"
  shows "val num email w2 = v \<and> val num' email' w2 = v'"
  using assms write_or_clear_ok write_or_clear_apart [of num' num email email' v' w1] by auto

end

end
