(* ===== verification/JsonDecode.thy ===== *)
theory JsonDecode
  imports Json "HOL-Library.Monad_Syntax"
begin

text \<open>
  The decoder of \<open>encoding/json\<close>, for the one kind of text whose bytes the program both compares
  and parses: a stored credential. \<open>decode_first\<close> is \<open>Decoder.Decode\<close> (the first value of
  the text, what follows it is not looked at). Fuel bounds the nesting; the length of the text is
  always enough, because every value consumes at least one byte.
\<close>

definition json_ws :: "char \<Rightarrow> bool" where
  "json_ws c \<longleftrightarrow> c = CHR '' '' \<or> of_char c = (9 :: nat) \<or> of_char c = (10 :: nat) \<or> of_char c = (13 :: nat)"

definition skip_ws :: "string \<Rightarrow> string" where
  "skip_ws s = dropWhile json_ws s"

definition hex_val :: "char \<Rightarrow> nat option" where
  "hex_val c = (let n = of_char c :: nat in
     if 48 \<le> n \<and> n \<le> 57 then Some (n - 48)
     else if 97 \<le> n \<and> n \<le> 102 then Some (n - 87)
     else if 65 \<le> n \<and> n \<le> 70 then Some (n - 55) else None)"

definition hex4 :: "char \<Rightarrow> char \<Rightarrow> char \<Rightarrow> char \<Rightarrow> nat option" where
  "hex4 a b c d = do {
     w \<leftarrow> hex_val a; x \<leftarrow> hex_val b; y \<leftarrow> hex_val c; z \<leftarrow> hex_val d;
     Some (((w * 16 + x) * 16 + y) * 16 + z) }"

text \<open>UTF-8 encoding of a code point.\<close>

definition utf8 :: "nat \<Rightarrow> string" where
  "utf8 n =
     (if n < 128 then [char_of n]
      else if n < 2048 then [char_of (192 + n div 64), char_of (128 + n mod 64)]
      else if n < 65536 then
        [char_of (224 + n div 4096), char_of (128 + n div 64 mod 64), char_of (128 + n mod 64)]
      else [char_of (240 + n div 262144), char_of (128 + n div 4096 mod 64),
            char_of (128 + n div 64 mod 64), char_of (128 + n mod 64)])"

definition surrogate :: "nat \<Rightarrow> bool" where
  "surrogate n \<longleftrightarrow> 55296 \<le> n \<and> n < 57344"

definition escape_char :: "char \<Rightarrow> char option" where
  "escape_char e =
     (if e \<in> {CHR ''\"'', CHR 0x5C, CHR ''/''} then Some e
      else if e = CHR ''b'' then Some (char_of (8 :: nat))
      else if e = CHR ''f'' then Some (char_of (12 :: nat))
      else if e = CHR ''n'' then Some (char_of (10 :: nat))
      else if e = CHR ''r'' then Some (char_of (13 :: nat))
      else if e = CHR ''t'' then Some (char_of (9 :: nat)) else None)"

text \<open>A pending high surrogate waits for its low half; a lone half becomes U+FFFD.\<close>

definition flush :: "nat option \<Rightarrow> string" where
  "flush hi = (case hi of None \<Rightarrow> [] | Some _ \<Rightarrow> utf8 65533)"

fun str_body :: "nat option \<Rightarrow> string \<Rightarrow> string \<Rightarrow> (string \<times> string) option" where
  "str_body hi acc [] = None"
| "str_body hi acc (c # s) =
     (if c = CHR ''\"'' then Some (acc @ flush hi, s)
      else if c = CHR 0x5C then
        (case s of
           [] \<Rightarrow> None
         | e # s' \<Rightarrow>
             if e = CHR ''u'' then
               (case s' of
                  p # q # r # t # s'' \<Rightarrow>
                    (case hex4 p q r t of
                       None \<Rightarrow> None
                     | Some n \<Rightarrow>
                         (case hi of
                            Some h \<Rightarrow>
                              if 56320 \<le> n \<and> n < 57344
                              then str_body None (acc @ utf8 (65536 + (h - 55296) * 1024 + (n - 56320))) s''
                              else if 55296 \<le> n \<and> n < 56320
                              then str_body (Some n) (acc @ utf8 65533) s''
                              else str_body None (acc @ utf8 65533 @ utf8 n) s''
                          | None \<Rightarrow>
                              if 55296 \<le> n \<and> n < 56320 then str_body (Some n) acc s''
                              else str_body None (acc @ utf8 (if surrogate n then 65533 else n)) s''))
                | _ \<Rightarrow> None)
             else (case escape_char e of
                     None \<Rightarrow> None | Some x \<Rightarrow> str_body None (acc @ flush hi @ [x]) s'))
      else if (of_char c :: nat) < 32 then None
      else str_body None (acc @ flush hi @ [c]) s)"

definition dec_string :: "string \<Rightarrow> (string \<times> string) option" where
  "dec_string s = (case s of c # s' \<Rightarrow> if c = CHR ''\"'' then str_body None [] s' else None | [] \<Rightarrow> None)"

section \<open>Numbers\<close>

definition digits_of :: "string \<Rightarrow> string \<times> string" where
  "digits_of s = (takeWhile is_digit s, dropWhile is_digit s)"

definition int_part :: "string \<Rightarrow> (int \<times> string) option" where
  "int_part s =
     (case digits_of s of
        ([], _) \<Rightarrow> None
      | (d # ds, rest) \<Rightarrow> if d = CHR ''0'' then Some (0, ds @ rest) else Some (dec_val (d # ds), rest))"

definition frac_part :: "string \<Rightarrow> (rat \<times> string) option" where
  "frac_part s =
     (case s of
        c # s' \<Rightarrow> if c = CHR ''.'' then
                     (case digits_of s' of
                        ([], _) \<Rightarrow> None
                      | (ds, rest) \<Rightarrow> Some (rat_of_int (dec_val ds) / 10 ^ length ds, rest))
                   else Some (0, s)
      | [] \<Rightarrow> Some (0, s))"

definition exp_part :: "string \<Rightarrow> (int \<times> string) option" where
  "exp_part s =
     (case s of
        c # s' \<Rightarrow>
          if c = CHR ''e'' \<or> c = CHR ''E'' then
            (let neg = (s' \<noteq> [] \<and> hd s' = CHR ''-'');
                 s'' = (if s' \<noteq> [] \<and> hd s' \<in> {CHR ''-'', CHR ''+''} then tl s' else s')
             in (case digits_of s'' of
                   ([], _) \<Rightarrow> None
                 | (ds, rest) \<Rightarrow> Some (if neg then - dec_val ds else dec_val ds, rest)))
          else Some (0, s)
      | [] \<Rightarrow> Some (0, s))"

definition dec_number :: "string \<Rightarrow> (rat \<times> string) option" where
  "dec_number s =
     (let neg = (s \<noteq> [] \<and> hd s = CHR ''-''); s = (if neg then tl s else s)
      in do {
        (i, s) \<leftarrow> int_part s;
        (f, s) \<leftarrow> frac_part s;
        (e, s) \<leftarrow> exp_part s;
        (let m = (rat_of_int i + f) * (if 0 \<le> e then 10 ^ nat e else 1 / 10 ^ nat (- e))
         in Some (if neg then - m else m, s)) })"

section \<open>Values\<close>

definition literal :: "string \<Rightarrow> json \<Rightarrow> string \<Rightarrow> (json \<times> string) option" where
  "literal l v s = (if has_prefix s l then Some (v, drop (length l) s) else None)"

fun dec_value :: "nat \<Rightarrow> string \<Rightarrow> (json \<times> string) option"
and dec_elems :: "nat \<Rightarrow> string \<Rightarrow> (json list \<times> string) option"
and dec_members :: "nat \<Rightarrow> string \<Rightarrow> ((string \<times> json) list \<times> string) option" where
  "dec_value 0 s = None"
| "dec_value (Suc fuel) s =
     (case skip_ws s of
        [] \<Rightarrow> None
      | c # s' \<Rightarrow>
          if c = CHR ''{'' then
            (case skip_ws s' of
               d # rest \<Rightarrow> if d = CHR ''}'' then Some (JObj [], rest)
                          else map_option (\<lambda>(kvs, r). (JObj kvs, r)) (dec_members fuel s')
             | [] \<Rightarrow> None)
          else if c = CHR ''['' then
            (case skip_ws s' of
               d # rest \<Rightarrow> if d = CHR '']'' then Some (JArr [], rest)
                          else map_option (\<lambda>(xs, r). (JArr xs, r)) (dec_elems fuel s')
             | [] \<Rightarrow> None)
          else if c = CHR ''\"'' then map_option (\<lambda>(x, r). (JStr x, r)) (dec_string (c # s'))
          else if c = CHR ''t'' then literal ''true'' (JBool True) (c # s')
          else if c = CHR ''f'' then literal ''false'' (JBool False) (c # s')
          else if c = CHR ''n'' then literal ''null'' JNull (c # s')
          else map_option (\<lambda>(x, r). (JNum x, r)) (dec_number (c # s')))"
| "dec_elems 0 s = None"
| "dec_elems (Suc fuel) s =
     (case dec_value fuel s of
        None \<Rightarrow> None
      | Some (v, s') \<Rightarrow>
          (case skip_ws s' of
             c # rest \<Rightarrow> if c = CHR '','' then map_option (\<lambda>(xs, r). (v # xs, r)) (dec_elems fuel rest)
                        else if c = CHR '']'' then Some ([v], rest) else None
           | [] \<Rightarrow> None))"
| "dec_members 0 s = None"
| "dec_members (Suc fuel) s =
     (case dec_string (skip_ws s) of
        None \<Rightarrow> None
      | Some (k, s1) \<Rightarrow>
          (case skip_ws s1 of
             c # s2 \<Rightarrow>
               if c \<noteq> CHR '':'' then None
               else (case dec_value fuel s2 of
                       None \<Rightarrow> None
                     | Some (v, s3) \<Rightarrow>
                         (case skip_ws s3 of
                            d # rest \<Rightarrow>
                              if d = CHR '','' then map_option (\<lambda>(kvs, r). ((k, v) # kvs, r)) (dec_members fuel rest)
                              else if d = CHR ''}'' then Some ([(k, v)], rest) else None
                          | [] \<Rightarrow> None))
           | [] \<Rightarrow> None))"

text \<open>Each level of nesting and each separator consumes a byte, so twice the length is enough fuel.\<close>

definition decode_first :: "string \<Rightarrow> json option" where
  "decode_first s = map_option fst (dec_value (2 * length s + 2) s)"

section \<open>Credentials\<close>

text \<open>
  internal/oauth/credentials.go and fingerprint.go. A SHA-256 digest is represented by the bytes it
  digests, behind the prefix the code puts before it: two fingerprints are equal exactly when the
  digested bytes are, which is what the program relies on the hash for.
\<close>

definition extract_oauth_data :: "string \<Rightarrow> json gomap option" where
  "extract_oauth_data creds = do {
     v \<leftarrow> decode_first creds; m \<leftarrow> as_map v; as_map (mget m ''claudeAiOauth'') }"

definition extract_access_token :: "string \<Rightarrow> string" where
  "extract_access_token creds =
     (case extract_oauth_data creds of None \<Rightarrow> [] | Some oauth \<Rightarrow> str_field oauth ''accessToken'')"

definition credential_fingerprint :: "string \<Rightarrow> string option" where
  "credential_fingerprint creds =
     (if creds = [] then None
      else (case extract_oauth_data creds of
              None \<Rightarrow> Some (''sha256-full:'' @ creds)
            | Some oauth \<Rightarrow>
                (let tok = str_field oauth ''refreshToken'' in
                 if tok \<noteq> [] then Some (''sha256:'' @ tok) else Some (''sha256-full:'' @ creds))))"

definition fingerprint_equal :: "string \<Rightarrow> string \<Rightarrow> bool" where
  "fingerprint_equal a b \<longleftrightarrow> credential_fingerprint a = credential_fingerprint b"

lemma fingerprint_None [simp]: "credential_fingerprint c = None \<longleftrightarrow> c = []"
  by (simp add: credential_fingerprint_def Let_def split: option.splits)

text \<open>
  A fingerprint never mistakes an empty credential for a real one, and two credentials
  share one only when they are the same bytes or both carry the same refresh token: the two prefixes
  keep refresh-token lineages and opaque keys apart.
\<close>

theorem fingerprint_lineage:
  "fingerprint_equal a b \<longleftrightarrow>
     a = b \<or> (\<exists>oa ob. extract_oauth_data a = Some oa \<and> extract_oauth_data b = Some ob \<and>
              a \<noteq> [] \<and> b \<noteq> [] \<and>
              str_field oa ''refreshToken'' \<noteq> [] \<and>
              str_field oa ''refreshToken'' = str_field ob ''refreshToken'')"
  by (auto simp: fingerprint_equal_def credential_fingerprint_def Let_def split: option.splits if_splits)

end
