(* ===== verification/CredStore.thy ===== *)
theory CredStore
  imports Interfaces JsonDecode
begin

text \<open>
  internal/credstore (with internal/ccfile): where credentials live. Per-slot backups are .enc
  files everywhere and Keychain items on macOS, read .enc first; one previous generation is kept; the
  usability cache decides between Keychain and file mode; the active credential is kept on a single
  axis (an OAuth login or a managed API key); displaced live credentials go to a write-only stash.
  An .enc file is represented by the credential it decodes to, or as corrupt.
\<close>

section \<open>Classifiers and names\<close>

definition looks_like_api_key :: "string \<Rightarrow> bool" where
  "looks_like_api_key credentials =
     (if credentials = [] then False
      else (let t = trim_space credentials in has_prefix t ''sk-ant-api'' \<and> \<not> has_prefix t ''{''))"

definition approved_form :: "string \<Rightarrow> string" where
  "approved_form api_key =
     (let t = trim_space api_key in if length t \<le> 20 then t else drop (length t - 20) t)"

definition security_service :: string where "security_service = ''claude-swap''"
definition claude_code_service :: string where "claude_code_service = ''Claude Code-credentials''"
definition managed_service :: string where "managed_service = ''Claude Code''"

definition backup_enc_path :: "string \<Rightarrow> string \<Rightarrow> string" where
  "backup_enc_path num email = ''.creds-'' @ num @ ''-'' @ email @ ''.enc''"

definition prev_backup_path :: "string \<Rightarrow> string \<Rightarrow> string" where
  "prev_backup_path num email = ''.creds-'' @ num @ ''-'' @ email @ ''.enc.prev''"

definition backup_username :: "string \<Rightarrow> string \<Rightarrow> string" where
  "backup_username num email = ''account-'' @ num @ ''-'' @ email"

definition prev_backup_username :: "string \<Rightarrow> string \<Rightarrow> string" where
  "prev_backup_username num email = backup_username num email @ ''.prev''"

section \<open>The usability cache\<close>

definition use_keychain :: "world \<Rightarrow> bool \<times> world" where
  "use_keychain w =
     (if \<not> macos w then (False, w)
      else
        (let w = (if kc_cache w = Some False \<and>
                     (case kc_disabled_until w of None \<Rightarrow> False | Some t \<Rightarrow> t \<le> w_now w)
                  then w\<lparr>kc_cache := None, kc_disabled_until := None\<rparr> else w)
         in (kc_cache w \<noteq> Some False, w)))"

definition learn :: "go_err option \<Rightarrow> world \<Rightarrow> world" where
  "learn err w =
     (case err of
        Some e \<Rightarrow>
          if is_unusable e then w\<lparr>kc_cache := Some False, kc_disabled_until := Some (w_now w + 60)\<rparr> else w
      | None \<Rightarrow> if kc_cache w = None then w\<lparr>kc_cache := Some True\<rparr> else w)"

definition pin_file_mode :: "world \<Rightarrow> world" where
  "pin_file_mode w = w\<lparr>kc_cache := Some False, kc_disabled_until := None\<rparr>"

definition set_backend :: "string \<Rightarrow> world \<Rightarrow> world" where
  "set_backend b w = w\<lparr>last_backend := b\<rparr>"

text \<open>The Keychain client's own calls, and the same calls folded through the cache.\<close>

definition kc_raw_set :: "string \<Rightarrow> string \<Rightarrow> string \<Rightarrow> world \<Rightarrow> go_err option \<times> world" where
  "kc_raw_set svc acct v = kc_call (\<lambda>w. w\<lparr>keychain := (keychain w)((svc, acct) := Some v)\<rparr>)"

definition kc_raw_delete :: "string \<Rightarrow> string \<Rightarrow> world \<Rightarrow> go_err option \<times> world" where
  "kc_raw_delete svc acct = kc_call (\<lambda>w. w\<lparr>keychain := (keychain w)((svc, acct) := None)\<rparr>)"

definition kc_get :: "string \<Rightarrow> string \<Rightarrow> world \<Rightarrow> (go_err + string option) \<times> world" where
  "kc_get svc acct w =
     (let v = keychain w (svc, acct); (err, w) = kc_call (\<lambda>w. w) w; w = learn err w
      in (case err of Some e \<Rightarrow> (Inl e, w) | None \<Rightarrow> (Inr v, w)))"

definition kc_set :: "string \<Rightarrow> string \<Rightarrow> string \<Rightarrow> world \<Rightarrow> go_err option \<times> world" where
  "kc_set svc acct v w = (let (err, w) = kc_raw_set svc acct v w in (err, learn err w))"

definition kc_delete :: "string \<Rightarrow> string \<Rightarrow> world \<Rightarrow> go_err option \<times> world" where
  "kc_delete svc acct w = (let (err, w) = kc_raw_delete svc acct w in (err, learn err w))"

section \<open>Backups\<close>

text \<open>\<open>decodeEnc\<close> behind \<open>encPresent\<close>: absent, unreadable, corrupt and empty all fall through.\<close>

definition decode_enc :: "string \<Rightarrow> world \<Rightarrow> string option \<times> world" where
  "decode_enc path w =
     (case cred_files w path of
        None \<Rightarrow> (None, w)
      | Some f \<Rightarrow>
          (let (err, w) = os_call (\<lambda>w. w) w
           in (case err of
                 Some _ \<Rightarrow> (None, w)
               | None \<Rightarrow> (case f of EncCorrupt \<Rightarrow> (None, w)
                          | EncData c \<Rightarrow> (if c = [] then None else Some c, w)))))"

definition or_empty :: "string option \<Rightarrow> string" where
  "or_empty v = (case v of None \<Rightarrow> [] | Some s \<Rightarrow> s)"

definition kc_value :: "string \<Rightarrow> world \<Rightarrow> string \<times> world" where
  "kc_value acct w =
     (case kc_get security_service acct w of (Inl _, w) \<Rightarrow> ([], w) | (Inr v, w) \<Rightarrow> (or_empty v, w))"

definition read_backup :: "string \<Rightarrow> string \<Rightarrow> world \<Rightarrow> string \<times> world" where
  "read_backup num email w =
     (case decode_enc (backup_enc_path num email) w of
        (Some c, w) \<Rightarrow> (c, w)
      | (None, w) \<Rightarrow> if macos w then kc_value (backup_username num email) w else ([], w))"

definition read_prev :: "string \<Rightarrow> string \<Rightarrow> world \<Rightarrow> string \<times> world" where
  "read_prev num email w =
     (case decode_enc (prev_backup_path num email) w of
        (Some c, w) \<Rightarrow> (c, w)
      | (None, w) \<Rightarrow> if macos w then kc_value (prev_backup_username num email) w else ([], w))"

definition write_backup_enc :: "string \<Rightarrow> string \<Rightarrow> string \<Rightarrow> world \<Rightarrow> go_err option \<times> world" where
  "write_backup_enc num email creds = put_cred_file (backup_enc_path num email) (EncData creds)"

definition retain_previous_backup :: "string \<Rightarrow> string \<Rightarrow> string \<Rightarrow> world \<Rightarrow> world" where
  "retain_previous_backup num email new_creds w =
     (let (current, w) = read_backup num email w
      in if current = [] \<or> current = new_creds then w
         else (let (use, w) = use_keychain w
               in if use
                  then ignoring (kc_set security_service (prev_backup_username num email) current) w
                  else ignoring (put_cred_file (prev_backup_path num email) (EncData current)) w))"

definition reconcile_enc :: "string \<Rightarrow> string \<Rightarrow> string \<Rightarrow> world \<Rightarrow> go_err option \<times> world" where
  "reconcile_enc num email creds w =
     (if \<not> cred_file_exists (backup_enc_path num email) w then (None, w)
      else (case remove_cred_file (backup_enc_path num email) w of
              (None, w) \<Rightarrow> (None, w)
            | (Some _, w) \<Rightarrow> write_backup_enc num email creds w))"

definition delete_backup_keychain_quiet :: "string \<Rightarrow> string \<Rightarrow> world \<Rightarrow> world" where
  "delete_backup_keychain_quiet num email =
     ignoring (kc_delete security_service (backup_username num email))"

definition write_backup_file :: "string \<Rightarrow> string \<Rightarrow> string \<Rightarrow> world \<Rightarrow> go_err option \<times> world" where
  "write_backup_file num email creds w =
     (case write_backup_enc num email creds w of
        (Some e, w) \<Rightarrow> (Some e, w)
      | (None, w) \<Rightarrow> (None, if macos w then delete_backup_keychain_quiet num email w else w))"

definition write_backup :: "string \<Rightarrow> string \<Rightarrow> string \<Rightarrow> world \<Rightarrow> go_err option \<times> world" where
  "write_backup num email creds w =
     (let w = retain_previous_backup num email creds w; (use, w) = use_keychain w
      in if use
         then (case kc_set security_service (backup_username num email) creds w of
                 (None, w) \<Rightarrow> reconcile_enc num email creds w
               | (Some e, w) \<Rightarrow> if \<not> is_unusable e then (Some e, w)
                               else write_backup_file num email creds w)
         else write_backup_file num email creds w)"

definition delete_prev :: "string \<Rightarrow> string \<Rightarrow> world \<Rightarrow> world" where
  "delete_prev num email w =
     (let w = (if cred_file_exists (prev_backup_path num email) w
               then ignoring (remove_cred_file (prev_backup_path num email)) w else w)
      in if macos w then ignoring (kc_delete security_service (prev_backup_username num email)) w else w)"

definition delete_backup_one :: "string \<Rightarrow> string \<Rightarrow> world \<Rightarrow> world" where
  "delete_backup_one num email w =
     (let w = (if cred_file_exists (backup_enc_path num email) w
               then ignoring (remove_cred_file (backup_enc_path num email)) w else w);
          w = (if macos w then delete_backup_keychain_quiet num email w else w)
      in delete_prev num email w)"

text \<open>\<open>DeleteBackup\<close> also sweeps the legacy account-None alias; it never fails.\<close>

definition delete_backup :: "string \<Rightarrow> string \<Rightarrow> world \<Rightarrow> world" where
  "delete_backup num email w =
     (let w = delete_backup_one num email w
      in if num \<noteq> ''None'' then delete_backup_one ''None'' email w else w)"

definition clear_error :: go_err where
  "clear_error = Err KindCredential ''Could not clear stored credentials - aborting before commit''"

definition remove_missing_ok :: "string \<Rightarrow> world \<Rightarrow> go_err option \<times> world" where
  "remove_missing_ok path w =
     (if cred_file_exists path w then remove_cred_file path w else os_call (\<lambda>w. w) w)"

definition delete_backup_strict :: "string \<Rightarrow> string \<Rightarrow> world \<Rightarrow> go_err option \<times> world" where
  "delete_backup_strict num email w =
     (case remove_missing_ok (backup_enc_path num email) (delete_backup num email w) of
        (Some _, w) \<Rightarrow> (Some clear_error, w)
      | (None, w) \<Rightarrow>
          (case (if macos w then kc_delete security_service (backup_username num email) w else (None, w)) of
             (Some _, w) \<Rightarrow> (Some clear_error, w)
           | (None, w) \<Rightarrow>
               (let (v, w) = read_backup num email w
                in if v \<noteq> [] then (Some clear_error, w) else (None, w))))"

section \<open>The live configuration file\<close>

definition read_lenient :: "world \<Rightarrow> json gomap option" where
  "read_lenient w = (case live_config w of Some (TJson v) \<Rightarrow> as_map v | _ \<Rightarrow> None)"

text \<open>\<open>ReadGlobalConfig\<close> through \<open>readGlobalConfig\<close>: any failure reads as no configuration.\<close>

definition read_global_config :: "world \<Rightarrow> json gomap option \<times> world" where
  "read_global_config w =
     (case live_config w of
        None \<Rightarrow> (None, w)
      | Some _ \<Rightarrow> (case os_call (\<lambda>w. w) w of (Some _, w) \<Rightarrow> (None, w) | (None, w) \<Rightarrow> (read_lenient w, w)))"

definition write_live_config :: "jtext \<Rightarrow> world \<Rightarrow> go_err option \<times> world" where
  "write_live_config t = os_call (\<lambda>w. w\<lparr>live_config := Some t\<rparr>)"

definition update_global_config :: "(json gomap \<Rightarrow> json gomap) \<Rightarrow> world \<Rightarrow> go_err option \<times> world" where
  "update_global_config mutate w =
     (let (cfg, w) = read_global_config w; data = (case cfg of None \<Rightarrow> [] | Some m \<Rightarrow> m)
      in write_live_config (TJson (encode_record (mutate data))) w)"

text \<open>\<open>ReadOAuthIdentity\<close>: (email, organization) of the live login, if there is one.\<close>

definition oauth_identity :: "json gomap option \<Rightarrow> (string \<times> string) option" where
  "oauth_identity cfg =
     (case cfg of
        None \<Rightarrow> None
      | Some m \<Rightarrow>
          (case as_map (mget m ''oauthAccount'') of
             None \<Rightarrow> None
           | Some oauth \<Rightarrow>
               (let email = str_field oauth ''emailAddress''
                in if email = [] then None else Some (email, str_field oauth ''organizationUuid''))))"

definition current_account :: "world \<Rightarrow> (string \<times> string) option" where
  "current_account w = oauth_identity (read_lenient w)"

section \<open>The active credential\<close>

definition write_credentials_file :: "string \<Rightarrow> world \<Rightarrow> go_err option \<times> world" where
  "write_credentials_file raw = os_call (\<lambda>w. w\<lparr>live_creds := Some raw\<rparr>)"

definition sleep_retry :: "world \<Rightarrow> world" where
  "sleep_retry w = w\<lparr>w_now := w_now w + 3 / 10\<rparr>"

text \<open>Two attempts; the error of the first is forgotten.\<close>

definition read_active_oauth_keychain :: "world \<Rightarrow> (string \<times> bool) \<times> world" where
  "read_active_oauth_keychain w =
     (case kc_get claude_code_service (w_user w) w of
        (Inr v, w) \<Rightarrow> ((or_empty v, False), w)
      | (Inl _, w) \<Rightarrow>
          (let w = sleep_retry w
           in (case kc_get claude_code_service (w_user w) w of
                 (Inr v, w) \<Rightarrow> ((or_empty v, False), w)
               | (Inl _, w) \<Rightarrow> (([], True), w))))"

definition read_managed_key :: "world \<Rightarrow> string \<times> world" where
  "read_managed_key w =
     (let (use, w) = use_keychain w;
          (v, w) = (if use then (case kc_get managed_service (w_user w) w of
                                   (Inl _, w) \<Rightarrow> ([], w) | (Inr v, w) \<Rightarrow> (or_empty v, w))
                    else ([], w))
      in if v \<noteq> [] then (v, w)
         else (let (cfg, w) = read_global_config w
               in (case cfg of None \<Rightarrow> ([], w) | Some m \<Rightarrow> (str_field m ''primaryApiKey'', w))))"

text \<open>\<open>ReadActive\<close>: the value with the keychain-unavailable flag, or the read error of a present file.\<close>

definition read_active :: "world \<Rightarrow> (go_err + string \<times> bool) \<times> world" where
  "read_active w =
     (let (use, w) = use_keychain w;
          ((v, failed), w) = (if use then read_active_oauth_keychain w else (([], macos w), w))
      in if v \<noteq> [] then (Inr (v, False), w)
         else
           (case (case live_creds w of
                    None \<Rightarrow> (Inr None, w)
                  | Some raw \<Rightarrow> (case os_call (\<lambda>w. w) w of
                                   (Some e, w) \<Rightarrow> (Inl e, w) | (None, w) \<Rightarrow> (Inr (Some raw), w))) of
              (Inl e, w) \<Rightarrow> (Inl e, w)
            | (Inr file, w) \<Rightarrow>
                if (case file of None \<Rightarrow> False | Some raw \<Rightarrow> trim_space raw \<noteq> [])
                then (Inr (or_empty file, False), w)
                else (let (key, w) = read_managed_key w
                      in if key \<noteq> [] then (Inr (key, False), w) else (Inr ([], failed), w))))"

definition delete_active_keychain_entry :: "world \<Rightarrow> world" where
  "delete_active_keychain_entry w =
     (if macos w then ignoring (kc_raw_delete claude_code_service (w_user w)) w else w)"

definition refresh_stale_credentials_file :: "string \<Rightarrow> world \<Rightarrow> world" where
  "refresh_stale_credentials_file creds w =
     (if live_creds w = None then w else ignoring (write_credentials_file creds) w)"

definition write_oauth_file :: "string \<Rightarrow> world \<Rightarrow> go_err option \<times> world" where
  "write_oauth_file creds w =
     (case write_credentials_file creds w of
        (Some _, w) \<Rightarrow> (Some (Err KindCredentialWrite ''Failed to write credentials''), w)
      | (None, w) \<Rightarrow>
          (let w = delete_active_keychain_entry w; w = (if macos w then pin_file_mode w else w)
           in (None, set_backend ''file'' w)))"

definition write_oauth_credentials :: "string \<Rightarrow> world \<Rightarrow> go_err option \<times> world" where
  "write_oauth_credentials creds w =
     (let (use, w) = use_keychain w
      in if use
         then (case kc_set claude_code_service (w_user w) creds w of
                 (None, w) \<Rightarrow> (None, set_backend ''keychain'' (refresh_stale_credentials_file creds w))
               | (Some e, w) \<Rightarrow> if \<not> is_unusable e then (Some e, w) else write_oauth_file creds w)
         else write_oauth_file creds w)"

definition managed_mutate :: "bool \<Rightarrow> string \<Rightarrow> json gomap \<Rightarrow> json gomap" where
  "managed_mutate wrote_to_keychain api_key cfg =
     (let approved = approved_form api_key;
          responses = (case as_map (mget cfg ''customApiKeyResponses'') of None \<Rightarrow> [] | Some m \<Rightarrow> m);
          approved_list = (case as_arr (mget responses ''approved'') of None \<Rightarrow> [] | Some xs \<Rightarrow> xs);
          approved_list = (if list_ex (\<lambda>v. (case as_str v of None \<Rightarrow> [] | Some s \<Rightarrow> s) = approved) approved_list
                           then approved_list else approved_list @ [JStr approved]);
          responses = gm_put ''approved'' (JArr approved_list) responses;
          responses = (if map_of responses ''rejected'' = None
                       then gm_put ''rejected'' (JArr []) responses else responses);
          cfg = gm_put ''customApiKeyResponses'' (encode_record responses) cfg
      in if wrote_to_keychain then gm_del ''primaryApiKey'' cfg
         else gm_put ''primaryApiKey'' (JStr api_key) cfg)"

definition clear_oauth_credential :: "world \<Rightarrow> world" where
  "clear_oauth_credential w =
     (let w = delete_active_keychain_entry w
      in if live_creds w = None then w else ignoring (os_call (\<lambda>w. w\<lparr>live_creds := None\<rparr>)) w)"

definition store_managed :: "bool \<Rightarrow> string \<Rightarrow> world \<Rightarrow> go_err option \<times> world" where
  "store_managed wrote_to_keychain api_key w =
     (case update_global_config (managed_mutate wrote_to_keychain api_key) w of
        (Some _, w) \<Rightarrow> (Some (Err KindCredentialWrite ''Failed to write managed API key''), w)
      | (None, w) \<Rightarrow>
          (let w = clear_oauth_credential w;
               w = (if macos w \<and> \<not> wrote_to_keychain then pin_file_mode w else w)
           in (None, set_backend (if wrote_to_keychain then ''keychain'' else ''file'') w)))"

definition write_managed_credentials :: "string \<Rightarrow> world \<Rightarrow> go_err option \<times> world" where
  "write_managed_credentials api_key w =
     (let (use, w) = use_keychain w
      in if use
         then (case kc_set managed_service (w_user w) api_key w of
                 (None, w) \<Rightarrow> store_managed True api_key w
               | (Some e, w) \<Rightarrow> if \<not> is_unusable e then (Some e, w) else store_managed False api_key w)
         else store_managed False api_key w)"

definition clear_managed_key :: "world \<Rightarrow> world" where
  "clear_managed_key w =
     (let w = (if macos w then ignoring (kc_raw_delete managed_service (w_user w)) w else w);
          (cfg, w) = read_global_config w
      in (case cfg of
            None \<Rightarrow> w
          | Some m \<Rightarrow> if mget m ''primaryApiKey'' \<noteq> JNull
                      then ignoring (update_global_config (gm_del ''primaryApiKey'')) w else w))"

definition write_active :: "string \<Rightarrow> world \<Rightarrow> go_err option \<times> world" where
  "write_active creds w =
     (if looks_like_api_key creds then write_managed_credentials (trim_space creds) w
      else (case write_oauth_credentials creds w of
              (Some e, w) \<Rightarrow> (Some e, w)
            | (None, w) \<Rightarrow> (None, clear_managed_key w)))"

section \<open>The stash\<close>

text \<open>The entry file first, then the manifest row; the entry id is fresh by construction.\<close>

definition write_unclaimed :: "string \<Rightarrow> string \<Rightarrow> string \<Rightarrow> world \<Rightarrow> go_err option \<times> world" where
  "write_unclaimed creds reason slot =
     and_then (os_call (\<lambda>w. w\<lparr>stash_entries := stash_entries w @ [creds]\<rparr>))
              (os_call (\<lambda>w. w\<lparr>stash_manifest := stash_manifest w @ [(creds, reason, slot)]\<rparr>))"

section \<open>What each operation touches\<close>

text \<open>The four places of a slot's backup, and the four places of the live login.\<close>

lemma touches_enc_file [frames]:
  "(\<And>x. touches R w (snd (a x))) \<Longrightarrow> touches R w (snd b) \<Longrightarrow> touches R w (snd (case_enc_file a b v))"
  by (cases v) simp_all

lemma touches_use_keychain [frames]: "touches R w w1 \<Longrightarrow> touches R w (snd (use_keychain w1))"
  unfolding use_keychain_def by (intro frames; simp)

lemma touches_learn [frames]: "touches R w w1 \<Longrightarrow> touches R w (learn err w1)"
  unfolding learn_def by (intro frames; simp)

lemma touches_pin [frames]: "touches R w w1 \<Longrightarrow> touches R w (pin_file_mode w1)"
  "touches R w w1 \<Longrightarrow> touches R w (set_backend b w1)"
  unfolding pin_file_mode_def set_backend_def by (intro frames; simp)+

lemma touches_kc_get [frames]: "touches R w w1 \<Longrightarrow> touches R w (snd (kc_get svc acct w1))"
  unfolding kc_get_def by (intro frames; simp)

lemma touches_kc_set [frames]: "touches R w w1 \<Longrightarrow> RKeychain (svc, acct) \<in> R \<Longrightarrow> touches R w (snd (kc_set svc acct v w1))"
  unfolding kc_set_def kc_raw_set_def by (intro frames; simp)

lemma touches_kc_raw_delete [frames]:
  "touches R w w1 \<Longrightarrow> RKeychain (svc, acct) \<in> R \<Longrightarrow> touches R w (snd (kc_raw_delete svc acct w1))"
  unfolding kc_raw_delete_def by (intro frames; simp)

lemma touches_kc_delete [frames]:
  "touches R w w1 \<Longrightarrow> RKeychain (svc, acct) \<in> R \<Longrightarrow> touches R w (snd (kc_delete svc acct w1))"
  unfolding kc_delete_def by (intro frames; simp)

lemma touches_decode_enc [frames]: "touches R w w1 \<Longrightarrow> touches R w (snd (decode_enc path w1))"
  unfolding decode_enc_def by (intro frames; simp)

lemma touches_kc_value [frames]: "touches R w w1 \<Longrightarrow> touches R w (snd (kc_value acct w1))"
  unfolding kc_value_def by (intro frames; simp)

lemma touches_read_backup [frames]: "touches R w w1 \<Longrightarrow> touches R w (snd (read_backup num email w1))"
  unfolding read_backup_def by (intro frames; simp)
lemma touches_read_prev [frames]: "touches R w w1 \<Longrightarrow> touches R w (snd (read_prev num email w1))"
  unfolding read_prev_def by (intro frames; simp)

definition backup_resources :: "string \<Rightarrow> string \<Rightarrow> resource set" where
  "backup_resources num email =
     {RCredFile (backup_enc_path num email), RCredFile (prev_backup_path num email),
      RKeychain (security_service, backup_username num email),
      RKeychain (security_service, prev_backup_username num email)}"

lemma touches_cred_file [frames]:
  "touches R w w1 \<Longrightarrow> RCredFile p \<in> R \<Longrightarrow> touches R w (snd (put_cred_file p c w1))"
  "touches R w w1 \<Longrightarrow> RCredFile p \<in> R \<Longrightarrow> touches R w (snd (remove_cred_file p w1))"
  unfolding put_cred_file_def remove_cred_file_def by (intro frames; simp)+

lemma touches_retain [frames]:
  "touches R w w1 \<Longrightarrow> backup_resources num email \<subseteq> R \<Longrightarrow> touches R w (retain_previous_backup num email c w1)"
  unfolding retain_previous_backup_def by (intro frames; simp add: backup_resources_def)

lemma touches_reconcile [frames]:
  "touches R w w1 \<Longrightarrow> backup_resources num email \<subseteq> R \<Longrightarrow> touches R w (snd (reconcile_enc num email c w1))"
  unfolding reconcile_enc_def write_backup_enc_def by (intro frames; simp add: backup_resources_def)

lemma touches_write_backup [frames]:
  "touches R w w1 \<Longrightarrow> backup_resources num email \<subseteq> R \<Longrightarrow> touches R w (snd (write_backup num email c w1))"
  unfolding write_backup_def write_backup_file_def write_backup_enc_def delete_backup_keychain_quiet_def
  by (intro frames; simp add: backup_resources_def)

lemma touches_delete_prev [frames]:
  "touches R w w1 \<Longrightarrow> backup_resources num email \<subseteq> R \<Longrightarrow> touches R w (delete_prev num email w1)"
  unfolding delete_prev_def by (intro frames; simp add: backup_resources_def)

lemma touches_delete_backup_one [frames]:
  "touches R w w1 \<Longrightarrow> backup_resources num email \<subseteq> R \<Longrightarrow> touches R w (delete_backup_one num email w1)"
  unfolding delete_backup_one_def delete_backup_keychain_quiet_def
  by (intro frames; simp add: backup_resources_def)

lemma touches_delete_backup [frames]:
  "touches R w w1 \<Longrightarrow> backup_resources num email \<subseteq> R \<Longrightarrow> backup_resources ''None'' email \<subseteq> R \<Longrightarrow>
   touches R w (delete_backup num email w1)"
  unfolding delete_backup_def by (intro frames; simp)

lemma touches_remove_missing_ok [frames]:
  "touches R w w1 \<Longrightarrow> RCredFile p \<in> R \<Longrightarrow> touches R w (snd (remove_missing_ok p w1))"
  unfolding remove_missing_ok_def by (intro frames; simp)

lemma touches_delete_backup_strict [frames]:
  "touches R w w1 \<Longrightarrow> backup_resources num email \<subseteq> R \<Longrightarrow> backup_resources ''None'' email \<subseteq> R \<Longrightarrow>
   touches R w (snd (delete_backup_strict num email w1))"
  unfolding delete_backup_strict_def
  by (intro frames; simp add: backup_resources_def)

definition live_resources :: "world \<Rightarrow> resource set" where
  "live_resources w =
     {RLiveCreds, RLiveConfig, RKeychain (claude_code_service, w_user w), RKeychain (managed_service, w_user w)}"

lemma touches_config [frames]:
  "touches R w w1 \<Longrightarrow> touches R w (snd (read_global_config w1))"
  "touches R w w1 \<Longrightarrow> RLiveConfig \<in> R \<Longrightarrow> touches R w (snd (update_global_config m w1))"
  unfolding read_global_config_def update_global_config_def write_live_config_def by (intro frames; simp)+

lemma touches_read_active [frames]: "touches R w w1 \<Longrightarrow> touches R w (snd (read_active w1))"
  unfolding read_active_def read_active_oauth_keychain_def read_managed_key_def sleep_retry_def
  by (intro frames; simp)


lemma touches_write_active [frames]:
  "touches R w w1 \<Longrightarrow> live_resources w \<subseteq> R \<Longrightarrow> touches R w (snd (write_active c w1))"
  unfolding write_active_def write_oauth_credentials_def write_oauth_file_def write_credentials_file_def
    delete_active_keychain_entry_def refresh_stale_credentials_file_def write_managed_credentials_def
    store_managed_def clear_oauth_credential_def clear_managed_key_def
  by (intro frames; auto dest!: touches_facts(2) simp: live_resources_def)

lemma touches_write_unclaimed [frames]:
  "touches R w w1 \<Longrightarrow> RStash \<in> R \<Longrightarrow> touches R w (snd (write_unclaimed c r n w1))"
  unfolding write_unclaimed_def by (intro frames; simp)

section \<open>What a later read finds\<close>

text \<open>
  \<open>backup_of\<close> is the abstract content of a slot's backup: what an undisturbed read returns
  (\<open>read_backup_quiet\<close>).
\<close>

definition enc_val :: "string \<Rightarrow> world \<Rightarrow> string" where
  "enc_val path w = (case cred_files w path of Some (EncData c) \<Rightarrow> c | _ \<Rightarrow> [])"

definition backup_of :: "string \<Rightarrow> string \<Rightarrow> world \<Rightarrow> string" where
  "backup_of num email w =
     (if enc_val (backup_enc_path num email) w \<noteq> [] then enc_val (backup_enc_path num email) w
      else if macos w then or_empty (keychain w (security_service, backup_username num email)) else [])"

lemma backup_of_quiet [simp]: "backup_of num email (quiet w) = backup_of num email w"
  by (simp add: backup_of_def enc_val_def)

lemma read_backup_idle: "faults w = [] \<Longrightarrow> fst (read_backup num email w) = backup_of num email w"
  by (auto simp: read_backup_def decode_enc_def kc_value_def kc_get_def os_call_quiet kc_call_quiet
      backup_of_def enc_val_def Let_def split: option.split enc_file.split)

lemma read_backup_quiet: "fst (read_backup num email (quiet w)) = backup_of num email w"
  by (simp add: read_backup_idle)

lemma backup_of_touches:
  assumes "touches R w w'" "RCredFile (backup_enc_path num email) \<notin> R"
    "RKeychain (security_service, backup_username num email) \<notin> R"
  shows "backup_of num email w' = backup_of num email w"
  using touches_same [OF assms(1,2)] touches_same [OF assms(1,3)] touches_facts(1) [OF assms(1)]
  by (simp add: backup_of_def enc_val_def)

lemma write_backup_enc_ok:
  "write_backup_enc num email c w = (None, w') \<Longrightarrow> enc_val (backup_enc_path num email) w' = c"
  by (auto simp: write_backup_enc_def put_cred_file_def enc_val_def dest!: os_call_None)

lemma kc_set_ok: "kc_set svc acct c w = (None, w') \<Longrightarrow> keychain w' (svc, acct) = Some c"
  by (auto simp: kc_set_def kc_raw_set_def learn_def split: prod.splits if_splits dest!: kc_call_None)


lemma kc_delete_ok: "kc_delete svc acct w = (None, w') \<Longrightarrow> keychain w' (svc, acct) = None"
  by (auto simp: kc_delete_def kc_raw_delete_def learn_def split: prod.splits if_splits dest!: kc_call_None)

lemma remove_cred_file_ok: "remove_cred_file p w = (None, w') \<Longrightarrow> cred_files w' p = None"
  by (auto simp: remove_cred_file_def dest!: os_call_None)

lemma touches_result: "p = (x, w') \<Longrightarrow> touches R w (snd p) \<Longrightarrow> touches R w w'"
  by simp

lemma reconcile_ok:
  assumes r: "reconcile_enc num email c w = (None, w')" and m: "macos w" "c \<noteq> []"
    and k: "keychain w (security_service, backup_username num email) = Some c"
  shows "backup_of num email w' = c"
proof -
  have "touches {RCredFile (backup_enc_path num email)} w w'"
    by (rule touches_result [OF r]) (unfold reconcile_enc_def write_backup_enc_def, intro frames; simp)
  then have kc: "keychain w' (security_service, backup_username num email) = Some c" "macos w'"
    using m k touches_same [of _ w w' "RKeychain (security_service, backup_username num email)"]
    by (auto dest: touches_facts)
  have "enc_val (backup_enc_path num email) w' \<in> {[], c}"
    using r by (auto simp: reconcile_enc_def cred_file_exists_def enc_val_def
        split: if_splits prod.splits option.splits dest!: remove_cred_file_ok write_backup_enc_ok)
  then show ?thesis using kc m by (auto simp: backup_of_def or_empty_def)
qed

lemma use_keychain_macos: "use_keychain w = (True, w') \<Longrightarrow> macos w'"
  by (auto simp: use_keychain_def Let_def split: if_splits)

lemma write_backup_file_ok:
  assumes "write_backup_file num email c w = (None, w')" "c \<noteq> []"
  shows "backup_of num email w' = c"
proof -
  obtain w1 where w1: "write_backup_enc num email c w = (None, w1)"
    and w': "w' = (if macos w1 then delete_backup_keychain_quiet num email w1 else w1)"
    using assms(1) by (auto simp: write_backup_file_def split: prod.splits option.splits)
  have "touches {RKeychain (security_service, backup_username num email)} w1 w'"
    unfolding w' delete_backup_keychain_quiet_def by (intro frames; simp)
  then have "enc_val (backup_enc_path num email) w' = enc_val (backup_enc_path num email) w1"
    using touches_same [of _ w1 w' "RCredFile (backup_enc_path num email)"] by (simp add: enc_val_def)
  then show ?thesis using assms(2) write_backup_enc_ok [OF w1] by (simp add: backup_of_def)
qed

lemma write_backup_ok:
  assumes "write_backup num email c w = (None, w')" "c \<noteq> []"
  shows "backup_of num email w' = c"
proof -
  obtain use w1 where u: "use_keychain (retain_previous_backup num email c w) = (use, w1)" by fastforce
  show ?thesis
  proof (cases "\<exists>w2. use \<and> kc_set security_service (backup_username num email) c w1 = (None, w2)")
    case True
    then obtain w2 where w2: use "kc_set security_service (backup_username num email) c w1 = (None, w2)" by blast
    have "touches {RKeychain (security_service, backup_username num email)} w1 w2"
      by (rule touches_result [OF w2(2)]) (intro frames; simp)
    then have "macos w2" using use_keychain_macos u w2(1) by (auto dest: touches_facts)
    then show ?thesis using assms w2 u kc_set_ok [OF w2(2)]
      by (intro reconcile_ok [of _ _ _ w2]) (simp_all add: write_backup_def Let_def)
  next
    case False
    then have "\<exists>w2. write_backup_file num email c w2 = (None, w')"
      using assms(1) u by (auto simp: write_backup_def Let_def split: prod.splits option.splits if_splits)
    then show ?thesis using write_backup_file_ok assms(2) by blast
  qed
qed

lemma remove_missing_ok_ok: "remove_missing_ok p w = (None, w') \<Longrightarrow> cred_files w' p = None"
  by (auto simp: remove_missing_ok_def cred_file_exists_def split: if_splits dest!: remove_cred_file_ok os_call_None)

lemma delete_backup_strict_ok:
  assumes "delete_backup_strict num email w = (None, w')"
  shows "backup_of num email w' = []"
proof -
  let ?p = "backup_enc_path num email" and ?k = "(security_service, backup_username num email)"
  obtain w1 w2 v where 1: "remove_missing_ok ?p (delete_backup num email w) = (None, w1)"
    and 2: "(if macos w1 then kc_delete security_service (backup_username num email) w1 else (None, w1)) = (None, w2)"
    and 3: "read_backup num email w2 = (v, w')"
    using assms by (auto simp: delete_backup_strict_def Let_def split: prod.splits option.splits if_splits)
  have t2: "touches {RKeychain ?k} w1 w2"
    using 2 touches_kc_delete [of "{RKeychain ?k}" w1 w1] by (auto split: if_splits)
  have "touches {} w2 w'" by (rule touches_result [OF 3]) (intro frames)
  then have "backup_of num email w' = backup_of num email w2" by (rule backup_of_touches) simp_all
  moreover have "cred_files w2 ?p = None"
    using remove_missing_ok_ok [OF 1] touches_same [OF t2, of "RCredFile ?p"] by simp
  moreover have "macos w2 \<longrightarrow> keychain w2 ?k = None"
    using 2 touches_facts(1) [OF t2] by (auto split: if_splits dest: kc_delete_ok)
  ultimately show ?thesis by (simp add: backup_of_def enc_val_def or_empty_def)
qed

text \<open>The abstract content of the live login, on each of its two axes: what an idle \<open>read_active\<close> finds.\<close>

definition keychain_val :: "string \<Rightarrow> world \<Rightarrow> string" where
  "keychain_val svc w = (if fst (use_keychain w) then or_empty (keychain w (svc, w_user w)) else [])"

definition managed_of :: "world \<Rightarrow> string" where
  "managed_of w =
     (if keychain_val managed_service w \<noteq> [] then keychain_val managed_service w
      else (case read_lenient w of None \<Rightarrow> [] | Some m \<Rightarrow> str_field m ''primaryApiKey''))"

definition active_of :: "world \<Rightarrow> string" where
  "active_of w =
     (if keychain_val claude_code_service w \<noteq> [] then keychain_val claude_code_service w
      else if trim_space (or_empty (live_creds w)) \<noteq> [] then or_empty (live_creds w) else managed_of w)"

lemma use_keychain_False: "fst (use_keychain w) = False \<Longrightarrow> use_keychain w = (False, w)"
  by (auto simp: use_keychain_def Let_def split: if_splits)

lemma use_keychain_True:
  "use_keychain w = (True, w1) \<Longrightarrow>
   macos w \<and> kc_cache w1 \<noteq> Some False \<and> (\<exists>c d. w1 = w\<lparr>kc_cache := c, kc_disabled_until := d\<rparr>)"
  by (auto simp: use_keychain_def Let_def split: if_splits)
    (rule exI [of _ "kc_cache w"], rule exI [of _ "kc_disabled_until w"], simp)+

lemma kc_get_idle:
  "faults w = [] \<Longrightarrow> kc_get svc acct w = (Inr (keychain w (svc, acct)), learn None w)"
  by (simp add: kc_get_def kc_call_quiet)

lemma read_global_config_idle:
  "faults w = [] \<Longrightarrow> read_global_config w = (read_lenient w, w)"
  by (simp add: read_global_config_def os_call_quiet read_lenient_def split: option.split)

lemma learn_None_fields [simp]:
  "faults (learn None w) = faults w" "keychain (learn None w) = keychain w" "w_user (learn None w) = w_user w"
  "live_creds (learn None w) = live_creds w" "live_config (learn None w) = live_config w" "macos (learn None w) = macos w"
  "cred_files (learn None w) = cred_files w"
  "kc_cache (learn None w) = (if kc_cache w = None then Some True else kc_cache w)"
  by (simp_all add: learn_def)

lemma use_keychain_usable: "macos w \<Longrightarrow> kc_cache w \<noteq> Some False \<Longrightarrow> use_keychain w = (True, w)"
  by (simp add: use_keychain_def)

lemma read_managed_idle: 
  assumes "faults w = []"
  shows "fst (read_managed_key w) = managed_of w"
proof (cases "fst (use_keychain w)")
  case False
  with use_keychain_False [of w] assms show ?thesis
    by (simp add: read_managed_key_def managed_of_def keychain_val_def read_global_config_idle split: option.split)
next
  case True
  then obtain w1 where u: "use_keychain w = (True, w1)" by (cases "use_keychain w") auto
  from use_keychain_True [OF u] assms u show ?thesis
    by (auto simp: read_managed_key_def managed_of_def keychain_val_def kc_get_idle
       read_global_config_idle read_lenient_def split: option.split)
qed

lemma managed_of_cong:
  "keychain w1 = keychain w \<Longrightarrow> w_user w1 = w_user w \<Longrightarrow> live_config w1 = live_config w \<Longrightarrow>
   fst (use_keychain w1) = fst (use_keychain w) \<Longrightarrow> managed_of w1 = managed_of w"
  by (simp add: managed_of_def keychain_val_def read_lenient_def)

lemma read_active_idle:
  assumes "faults w = []" 
  shows "fst (read_active w) = Inr (active_of w, active_of w = [] \<and> macos w \<and> \<not> fst (use_keychain w))"
proof (cases "fst (use_keychain w)")
  case False
  with use_keychain_False [of w] assms show ?thesis
    using read_managed_idle [OF assms]
    by (cases "read_managed_key w") (auto simp: read_active_def active_of_def keychain_val_def os_call_quiet or_empty_def split: option.split)
next
  case True
  then obtain w1 where u: "use_keychain w = (True, w1)" by (cases "use_keychain w") auto
  note f = use_keychain_True [OF u]
  let ?w = "learn None w1"
  have s: "faults ?w = []" "keychain ?w = keychain w" "w_user ?w = w_user w" "live_config ?w = live_config w"
    "live_creds ?w = live_creds w"
    using f assms by auto
  have m: "managed_of ?w = managed_of w"
    using f u by (intro managed_of_cong) (auto simp: use_keychain_usable)
  show ?thesis
    using f assms u s m read_managed_idle [of ?w]
    by (cases "read_managed_key ?w")
      (auto simp: read_active_def read_active_oauth_keychain_def kc_get_idle active_of_def keychain_val_def
        os_call_quiet or_empty_def split: option.split)
qed

text \<open>What the usability verdict depends on; only Keychain calls folded through the cache change it.\<close>

definition kc_state :: "world \<Rightarrow> bool option \<times> rat option \<times> rat" where
  "kc_state w = (kc_cache w, kc_disabled_until w, w_now w)"

lemma kc_state_update [simp]:
  "kc_state (w\<lparr>faults := x1\<rparr>) = kc_state w" "kc_state (w\<lparr>keychain := x2\<rparr>) = kc_state w"
  "kc_state (w\<lparr>live_creds := x3\<rparr>) = kc_state w" "kc_state (w\<lparr>live_config := x4\<rparr>) = kc_state w"
  "kc_state (w\<lparr>last_backend := x5\<rparr>) = kc_state w"
  by (simp_all add: kc_state_def)

lemma kc_state_call [simp]:
  "(\<And>w. kc_state (eff w) = kc_state w) \<Longrightarrow> kc_state (snd (os_call eff w)) = kc_state w"
  "(\<And>w. kc_state (eff w) = kc_state w) \<Longrightarrow> kc_state (snd (kc_call eff w)) = kc_state w"
  by (rule os_call_frame kc_call_frame; simp)+

lemma kc_state_config [simp]:
  "kc_state (snd (read_global_config w)) = kc_state w"
  "kc_state (snd (update_global_config m w)) = kc_state w"
proof -
  show r: "kc_state (snd (read_global_config w)) = kc_state w" for w
    by (cases "os_call (\<lambda>w. w) w", use kc_state_call(1) [of "\<lambda>w. w" w] in
        \<open>auto simp: read_global_config_def split: option.split\<close>)
  show "kc_state (snd (update_global_config m w)) = kc_state w"
    using r [of w] by (cases "read_global_config w") (simp add: update_global_config_def write_live_config_def)
qed

lemma kc_state_deletes [simp]:
  "kc_state (ignoring (kc_raw_delete s a) w) = kc_state w"
  "kc_state (delete_active_keychain_entry w) = kc_state w"
  "kc_state (refresh_stale_credentials_file c w) = kc_state w"
  unfolding delete_active_keychain_entry_def refresh_stale_credentials_file_def ignoring_def
    kc_raw_delete_def write_credentials_file_def
  by simp_all

lemma kc_state_clear_managed_key [simp]: "kc_state (clear_managed_key w) = kc_state w"
proof -
  define w1 where "w1 = (if macos w then ignoring (kc_raw_delete managed_service (w_user w)) w else w)"
  have "kc_state w1 = kc_state w" by (simp add: w1_def)
  with kc_state_config(1) [of w1] show ?thesis
    by (cases "read_global_config w1")
      (auto simp: clear_managed_key_def w1_def [symmetric] ignoring_def Let_def kc_state_config split: option.split)
qed

lemma use_keychain_state:
  "fst (use_keychain w) \<longleftrightarrow> macos w \<and> (case kc_state w of (c, d, now) \<Rightarrow> c = Some False \<longrightarrow> (\<exists>t. d = Some t \<and> t \<le> now))"
  by (auto simp: use_keychain_def kc_state_def Let_def split: option.splits)

lemma touches_clear_managed_key:
  "touches {RLiveConfig, RKeychain (managed_service, w_user w)} w (clear_managed_key w)"
  unfolding clear_managed_key_def by (intro frames; auto dest!: touches_facts(2))

lemma services_differ [simp]:
  "managed_service \<noteq> claude_code_service" "claude_code_service \<noteq> managed_service"
  "security_service \<noteq> claude_code_service" "security_service \<noteq> managed_service"
  by (simp_all add: managed_service_def claude_code_service_def security_service_def)

text \<open>The live login survives the clean-up of the other axis.\<close>

lemma active_of_clear_managed_key:
  assumes "keychain_val claude_code_service w = c \<and> c \<noteq> [] \<or>
    \<not> fst (use_keychain w) \<and> live_creds w = Some c \<and> trim_space c \<noteq> []"
  shows "active_of (clear_managed_key w) = c"
proof -
  let ?w = "clear_managed_key w"
  note t = touches_clear_managed_key [of w]
  have s: "keychain ?w (claude_code_service, w_user w) = keychain w (claude_code_service, w_user w)"
    "live_creds ?w = live_creds w" "macos ?w = macos w" "w_user ?w = w_user w"
    using touches_same [OF t, of "RKeychain (claude_code_service, w_user w)"] touches_same [OF t, of RLiveCreds]
      touches_facts [OF t] by simp_all
  have u: "fst (use_keychain ?w) = fst (use_keychain w)" by (simp add: use_keychain_state s)
  show ?thesis using assms by (auto simp: active_of_def keychain_val_def u s or_empty_def)
qed

lemma kc_set_usable:
  assumes "kc_set s a c w = (None, w')" "kc_cache w \<noteq> Some False"
  shows "kc_cache w' = Some True"
proof -
  obtain w1 where w1: "kc_raw_set s a c w = (None, w1)" "w' = learn None w1"
    using assms(1) by (auto simp: kc_set_def split: prod.splits)
  then have "kc_state w1 = kc_state w"
    by (auto simp: kc_raw_set_def dest!: kc_call_None)
  then show ?thesis using assms(2) by (auto simp: w1 kc_state_def)
qed

lemma write_oauth_file_ok:
  assumes "write_oauth_file c w = (None, w')"
  shows "live_creds w' = Some c \<and> \<not> fst (use_keychain w')"
proof -
  obtain w1 where w1: "write_credentials_file c w = (None, w1)"
    and w': "w' = (let w2 = delete_active_keychain_entry w1 in set_backend ''file'' (if macos w2 then pin_file_mode w2 else w2))"
    using assms by (auto simp: write_oauth_file_def Let_def split: prod.splits option.splits)
  have "touches {RKeychain (claude_code_service, w_user w1)} w1 (delete_active_keychain_entry w1)"
    unfolding delete_active_keychain_entry_def by (intro frames; simp)
  then have "live_creds (delete_active_keychain_entry w1) = Some c"
    using w1 by (auto simp: write_credentials_file_def dest!: os_call_None touches_same [where r = RLiveCreds])
  then show ?thesis
    by (auto simp: w' Let_def set_backend_def pin_file_mode_def use_keychain_state kc_state_def)
qed

lemma write_oauth_ok:
  assumes "write_oauth_credentials c w = (None, w')" "trim_space c \<noteq> []"
  shows "keychain_val claude_code_service w' = c \<and> c \<noteq> [] \<or>
    \<not> fst (use_keychain w') \<and> live_creds w' = Some c \<and> trim_space c \<noteq> []"
proof -
  obtain use w1 where u: "use_keychain w = (use, w1)" by fastforce
  show ?thesis
  proof (cases "\<exists>w2. use \<and> kc_set claude_code_service (w_user w1) c w1 = (None, w2)")
    case True
    then obtain w2 where w2: use "kc_set claude_code_service (w_user w1) c w1 = (None, w2)" by blast
    let ?k = "(claude_code_service, w_user w1)"
    have w': "w' = set_backend ''keychain'' (refresh_stale_credentials_file c w2)"
      using assms(1) u w2 by (simp add: write_oauth_credentials_def)
    have t: "touches {RKeychain ?k} w1 w2" by (rule touches_result [OF w2(2)]) (intro frames; simp)
    have t': "touches {RLiveCreds} w2 w'"
      unfolding w' refresh_stale_credentials_file_def write_credentials_file_def by (intro frames; simp)
    have "kc_state w' = kc_state w2" by (simp add: w' set_backend_def)
    moreover have "kc_cache w2 = Some True" using kc_set_usable [OF w2(2)] use_keychain_True u w2(1) by auto
    ultimately have "fst (use_keychain w')"
      using touches_facts(1) [OF t] touches_facts(1) [OF t'] use_keychain_macos u w2(1)
      by (auto simp: use_keychain_state kc_state_def)
    then have "keychain_val claude_code_service w' = c"
      using kc_set_ok [OF w2(2)] touches_same [OF t', of "RKeychain ?k"] touches_facts(2) [OF t] touches_facts(2) [OF t']
      by (simp add: keychain_val_def or_empty_def)
    then show ?thesis using assms(2) by auto
  next
    case False
    then obtain w2 where "write_oauth_file c w2 = (None, w')"
      using assms(1) u by (auto simp: write_oauth_credentials_def split: prod.splits option.splits if_splits)
    then show ?thesis using write_oauth_file_ok assms(2) by blast
  qed
qed

lemma write_active_oauth_ok:
  assumes "write_active c w = (None, w')" "\<not> looks_like_api_key c" "trim_space c \<noteq> []"
  shows "active_of w' = c"
proof -
  obtain w1 where w1: "write_oauth_credentials c w = (None, w1)" "w' = clear_managed_key w1"
    using assms(1,2) by (auto simp: write_active_def split: prod.splits option.splits)
  show ?thesis using active_of_clear_managed_key [OF write_oauth_ok [OF w1(1) assms(3)]] w1(2) by simp
qed

lemma use_keychain_quiet [simp]: "fst (use_keychain (quiet w)) = fst (use_keychain w)"
  by (simp add: use_keychain_state quiet_def)

lemma active_of_quiet [simp]: "active_of (quiet w) = active_of w"
  by (simp add: active_of_def keychain_val_def managed_of_def read_lenient_def)

text \<open>\<open>primaryApiKey\<close> of the live configuration (null when there is none).\<close>

definition primary_key :: "world \<Rightarrow> json" where
  "primary_key w = (case read_lenient w of None \<Rightarrow> JNull | Some m \<Rightarrow> mget m ''primaryApiKey'')"

lemma managed_of_key:
  "managed_of w =
     (if keychain_val managed_service w \<noteq> [] then keychain_val managed_service w
      else (case as_str (primary_key w) of None \<Rightarrow> [] | Some s \<Rightarrow> s))"
  by (simp add: managed_of_def primary_key_def str_field_def split: option.split)

lemma read_lenient_distinct: "read_lenient w = Some m \<Longrightarrow> distinct (gm_keys m)"
  by (auto simp: read_lenient_def distinct_obj_map elim!: as_map.elims split: option.splits jtext.splits)

lemma primary_key_written:
  "distinct (gm_keys m) \<Longrightarrow> live_config w = Some (TJson (encode_record m)) \<Longrightarrow> primary_key w = mget m ''primaryApiKey''"
  using mget_decode_encode [of m "''primaryApiKey''"]
  by (simp add: primary_key_def read_lenient_def decode_record_def encode_record_def)

lemma update_global_config_idle:
  assumes "faults w = []"
  shows "update_global_config f w =
    (None, w\<lparr>live_config := Some (TJson (encode_record (f (case read_lenient w of None \<Rightarrow> [] | Some m \<Rightarrow> m))))\<rparr>)"
  using assms by (simp add: update_global_config_def read_global_config_idle write_live_config_def os_call_quiet)

lemma primary_key_update:
  assumes "faults w = []" "\<And>m. distinct (gm_keys m) \<Longrightarrow> distinct (gm_keys (f m))"
  shows "primary_key (snd (update_global_config f w)) =
    mget (f (case read_lenient w of None \<Rightarrow> [] | Some m \<Rightarrow> m)) ''primaryApiKey''"
  using assms
  by (intro primary_key_written)
    (auto simp: update_global_config_idle gm_keys_def dest: read_lenient_distinct split: option.split)

lemma clear_managed_key_idle:
  assumes "faults w = []"
  shows "primary_key (clear_managed_key w) = JNull"
    and "macos w \<Longrightarrow> keychain (clear_managed_key w) (managed_service, w_user w) = None"
proof -
  define w1 where "w1 = (if macos w then ignoring (kc_raw_delete managed_service (w_user w)) w else w)"
  have f: "faults w1 = []" using assms by (simp add: w1_def ignoring_def kc_raw_delete_def kc_call_quiet)
  have k: "macos w \<Longrightarrow> keychain w1 (managed_service, w_user w) = None"
    using assms by (simp add: w1_def ignoring_def kc_raw_delete_def kc_call_quiet)
  have c: "clear_managed_key w = (if primary_key w1 \<noteq> JNull then ignoring (update_global_config (gm_del ''primaryApiKey'')) w1 else w1)"
    using f by (simp add: clear_managed_key_def w1_def [symmetric] read_global_config_idle primary_key_def Let_def split: option.split)
  show "primary_key (clear_managed_key w) = JNull"
    using f unfolding c
    by (simp add: ignoring_def primary_key_update distinct_gm_del)
  show "macos w \<Longrightarrow> keychain (clear_managed_key w) (managed_service, w_user w) = None"
    using f k unfolding c by (auto simp: ignoring_def update_global_config_idle)
qed

lemma clear_oauth_idle:
  assumes "faults w = []"
  shows "live_creds (clear_oauth_credential w) = None"
    and "macos w \<Longrightarrow> keychain (clear_oauth_credential w) (claude_code_service, w_user w) = None"
    and "macos (clear_oauth_credential w) = macos w"
    and "w_user (clear_oauth_credential w) = w_user w"
    and "live_config (clear_oauth_credential w) = live_config w"
    and "keychain (clear_oauth_credential w) (managed_service, w_user w) = keychain w (managed_service, w_user w)"
    and "kc_state (clear_oauth_credential w) = kc_state w"
    and "faults (clear_oauth_credential w) = []"
  using assms
  by (auto simp: clear_oauth_credential_def delete_active_keychain_entry_def ignoring_def kc_raw_delete_def
      kc_call_quiet os_call_quiet Let_def)

lemma managed_mutate_key:
  "mget (managed_mutate b k m) ''primaryApiKey'' = (if b then JNull else JStr k)"
  by (simp add: managed_mutate_def Let_def)

lemma managed_mutate_distinct: "distinct (gm_keys m) \<Longrightarrow> distinct (gm_keys (managed_mutate b k m))"
  by (simp add: managed_mutate_def Let_def distinct_gm_put distinct_gm_del)

lemma store_managed_idle:
  assumes "faults w = []" "store_managed b k w = (None, w')"
  shows "live_creds w' = None \<and> (macos w' \<longrightarrow> keychain w' (claude_code_service, w_user w') = None)
    \<and> primary_key w' = (if b then JNull else JStr k)
    \<and> keychain w' (managed_service, w_user w') = keychain w (managed_service, w_user w)
    \<and> w_user w' = w_user w \<and> macos w' = macos w
    \<and> (if macos w \<and> \<not> b then \<not> fst (use_keychain w') else kc_state w' = kc_state w)"
proof -
  define w1 where "w1 = snd (update_global_config (managed_mutate b k) w)"
  have w1: "faults w1 = []" "primary_key w1 = (if b then JNull else JStr k)" "keychain w1 = keychain w"
    "w_user w1 = w_user w" "macos w1 = macos w" "kc_state w1 = kc_state w"
    using assms(1) primary_key_update [of w "managed_mutate b k"]
    by (auto simp: w1_def managed_mutate_key managed_mutate_distinct update_global_config_idle)
  have w': "w' = (let w = clear_oauth_credential w1; w = (if macos w \<and> \<not> b then pin_file_mode w else w)
           in set_backend (if b then ''keychain'' else ''file'') w)"
    using assms by (simp add: store_managed_def update_global_config_idle w1_def Let_def)
  note c = clear_oauth_idle [OF w1(1)]
  have "primary_key (clear_oauth_credential w1) = primary_key w1"
    by (simp add: primary_key_def read_lenient_def c)
  then show ?thesis
    using w1 c by (auto simp: w' Let_def set_backend_def pin_file_mode_def use_keychain_state kc_state_def
       primary_key_def read_lenient_def)
qed

lemma axes_quiet [simp]:
  "keychain_val svc (quiet w) = keychain_val svc w" "managed_of (quiet w) = managed_of w"
  by (simp_all add: keychain_val_def managed_of_def read_lenient_def)

lemma kc_set_idle:
  "faults w = [] \<Longrightarrow> kc_set s a v w = (None, learn None (w\<lparr>keychain := (keychain w)((s, a) := Some v)\<rparr>))"
  by (simp add: kc_set_def kc_raw_set_def kc_call_quiet)

lemma write_managed_idle:
  assumes "faults w = []" "write_managed_credentials k w = (None, w')" "k \<noteq> []"
  shows "managed_of w' = k \<and> live_creds w' = None
    \<and> keychain_val claude_code_service w' = [] \<and> (macos w' \<longrightarrow> keychain w' (claude_code_service, w_user w') = None)"
proof (cases "fst (use_keychain w)")
  case True
  then obtain w1 where u: "use_keychain w = (True, w1)" by (cases "use_keychain w") auto
  define w2 where "w2 = learn None (w1\<lparr>keychain := (keychain w1)((managed_service, w_user w1) := Some k)\<rparr>)"
  note f = use_keychain_True [OF u]
  have w1: "faults w1 = []" "macos w1" using f assms(1) by auto
  have s: "store_managed True k w2 = (None, w')"
    using assms(2) u w1 by (simp add: write_managed_credentials_def kc_set_idle w2_def)
  have w2: "faults w2 = []" "macos w2" "keychain w2 (managed_service, w_user w2) = Some k" "fst (use_keychain w2)"
    using w1 f by (auto simp: w2_def use_keychain_state kc_state_def)
  note i = store_managed_idle [OF w2(1) s]
  have "fst (use_keychain w')" using i w2 by (simp add: use_keychain_state)
  then show ?thesis using i w2 assms(3) by (auto simp: managed_of_key keychain_val_def or_empty_def)
next
  case False
  have s: "store_managed False k w = (None, w')"
    using assms(2) use_keychain_False [of w] False by (simp add: write_managed_credentials_def)
  note i = store_managed_idle [OF assms(1) s]
  have "\<not> fst (use_keychain w')" using i False by (cases "macos w") (auto simp: use_keychain_state)
  then show ?thesis using i by (auto simp: managed_of_key keychain_val_def)
qed

lemma api_key_nonempty: "looks_like_api_key c \<Longrightarrow> trim_space c \<noteq> []"
  by (auto simp: looks_like_api_key_def Let_def has_prefix_def split: if_splits)

text \<open>
  One credential axis at a time. When nothing fails, activating a managed API key makes
  that key the live login and removes the OAuth login from the credential file and the Keychain;
  activating an OAuth credential removes the managed key from the Keychain and the configuration.
\<close>

theorem login_single_axis:
  assumes "faults w = []" "write_active c w = (None, w')"
  shows "if looks_like_api_key c
    then fst (read_active (quiet w')) = Inr (trim_space c, False) \<and> live_creds w' = None
         \<and> (macos w' \<longrightarrow> keychain w' (claude_code_service, w_user w') = None)
    else primary_key w' = JNull \<and> (macos w' \<longrightarrow> keychain w' (managed_service, w_user w') = None)"
proof (cases "looks_like_api_key c")
  case True
  then have "write_managed_credentials (trim_space c) w = (None, w')" using assms(2) by (simp add: write_active_def)
  from write_managed_idle [OF assms(1) this] api_key_nonempty [OF True]
  show ?thesis using True by (simp add: read_active_idle active_of_def or_empty_def)
next
  case False
  then obtain w1 where w1: "write_oauth_credentials c w = (None, w1)" "w' = clear_managed_key w1"
    using assms(2) by (auto simp: write_active_def split: prod.splits option.splits)
  have "touches (live_resources w) w w1"
    by (rule touches_result [OF w1(1)])
      (unfold write_oauth_credentials_def write_oauth_file_def write_credentials_file_def
         delete_active_keychain_entry_def refresh_stale_credentials_file_def,
       intro frames; auto dest!: touches_facts(2) simp: live_resources_def)
  then have "faults w1 = []" using assms(1) by (rule touches_idle)
  with clear_managed_key_idle [of w1] touches_facts [OF touches_clear_managed_key [of w1]] False show ?thesis 
    by (auto simp: w1)
qed

section \<open>Two slots never share a place\<close>

lemma digits_no_dash: "is_digits n \<Longrightarrow> CHR ''-'' \<notin> set n"
  by (auto simp: is_digits_def list_all_iff is_digit_def)

lemma dash_inject:
  assumes "is_digits n" "is_digits n'" "n @ ''-'' @ x = n' @ ''-'' @ y"
  shows "n = n'"
proof -
  have "takeWhile (\<lambda>c. c \<noteq> CHR ''-'') (m @ ''-'' @ z) = m" if "is_digits m" for m z
    using digits_no_dash [OF that] by (subst takeWhile_append2) auto
  from this [OF assms(1), of x] this [OF assms(2), of y] assms(3) show ?thesis by metis
qed

lemma slot_names_apart:
  assumes "is_digits n" "is_digits n'" "n \<noteq> n'"
  shows "backup_enc_path n' e' \<noteq> backup_enc_path n e" "backup_enc_path n' e' \<noteq> prev_backup_path n e"
    "backup_username n' e' \<noteq> backup_username n e" "backup_username n' e' \<noteq> prev_backup_username n e"
  using dash_inject [OF assms(2,1)] assms(3)
  by (auto simp: backup_enc_path_def prev_backup_path_def backup_username_def prev_backup_username_def)

lemma none_names_apart:
  assumes "is_digits n'"
  shows "backup_enc_path n' e' \<noteq> backup_enc_path ''None'' e" "backup_enc_path n' e' \<noteq> prev_backup_path ''None'' e"
    "backup_username n' e' \<noteq> backup_username ''None'' e" "backup_username n' e' \<noteq> prev_backup_username ''None'' e"
  using assms
  by (cases n'; auto simp: backup_enc_path_def prev_backup_path_def backup_username_def prev_backup_username_def
      is_digits_def is_digit_def)+

lemma backup_apart:
  assumes "touches (backup_resources n e \<union> backup_resources ''None'' e'') w w'" "is_digits n" "is_digits n'" "n \<noteq> n'"
  shows "backup_of n' e' w' = backup_of n' e' w"
  using assms(1) slot_names_apart [OF assms(2-4)] none_names_apart [OF assms(3)]
  by (intro backup_of_touches) (auto simp: backup_resources_def)

interpretation creds: slot_backup backup_of "[]" write_backup delete_backup_strict
proof unfold_locales
  show "backup_of num' email' (snd (write_backup num email v w)) = backup_of num' email' w"
    if "is_digits num" "is_digits num'" "num \<noteq> num'" for num num' email email' v w
    using that by (intro backup_apart [of num email "[]"]) (intro frames; auto)+
  show "backup_of num' email' (snd (delete_backup_strict num email w)) = backup_of num' email' w"
    if "is_digits num" "is_digits num'" "num \<noteq> num'" for num num' email email' w
    using that by (intro backup_apart [of num email email]) (intro frames; auto)+
qed (use write_backup_ok delete_backup_strict_ok in auto)


text \<open>A macOS machine whose Keychain stops answering at the second call.\<close>

definition sample_world :: world where
  "sample_world =
     \<lparr>faults = [NoFault, Unusable False], w_now = 1000, w_stamp = ''t1'', macos = True, w_user = ''me'',
      w_nfc = id, w_digest = (\<lambda>d. drop (length d - 8) d),
      keychain = (\<lambda>_. None), kc_cache = None, kc_disabled_until = None, last_backend = [],
      cred_files = (\<lambda>_. None), config_files = (\<lambda>_. None), live_creds = None, live_config = None,
      seq_file = SeqMissing, staging_files = (\<lambda>_. None), stash_entries = [], stash_manifest = [], profiles = (\<lambda>_. None),
      live_pids = (\<lambda>_. []), mapping_file = None, usage_file = None,
      settings_file = None, auto_file = None\<rparr>"




lemma login_single_axis_witness:
  "fst (read_active (quiet (snd (write_active '' sk-ant-api03-k'' (quiet sample_world))))) = Inr (''sk-ant-api03-k'', False)"
proof -
  let ?w = "quiet sample_world"
  have "fst (write_active '' sk-ant-api03-k'' ?w) = None" by code_simp
  moreover have "looks_like_api_key '' sk-ant-api03-k''" "trim_space '' sk-ant-api03-k'' = ''sk-ant-api03-k''" by code_simp+
  ultimately show ?thesis
    using login_single_axis [of ?w "'' sk-ant-api03-k''" "snd (write_active '' sk-ant-api03-k'' ?w)"]
    by (simp add: prod_eq_iff)
qed

end
