(* ===== verification/SessProfile.thy ===== *)
theory SessProfile
  imports CredStore
begin

text \<open>
  internal/sessprofile and internal/store/guards.go: the session profile directories of \<open>cswap run\<close>,
  their names, the stale marker, invalidation and removal, and the guard that refuses a destructive
  operation while a session is live. Profiles are addressed by their directory name under
  \<open>sessions/\<close>; the process table (\<open>procdetect.ListSessions\<close>) is the world's \<open>live_pids\<close>.
\<close>

section \<open>Directory names\<close>

text \<open>
  The width in bytes of the first rune as \<open>range\<close> over a Go string decodes it: an invalid byte is one
  rune of its own.
\<close>

definition byte_in :: "nat \<Rightarrow> nat \<Rightarrow> string \<Rightarrow> nat \<Rightarrow> bool" where
  "byte_in lo hi s i \<longleftrightarrow> i < length s \<and> lo \<le> of_char (s ! i) \<and> of_char (s ! i) \<le> hi"

definition rune_len :: "string \<Rightarrow> nat" where
  "rune_len s =
     (let cont = byte_in 128 191 s; lead = (\<lambda>lo hi. byte_in lo hi s 0)
      in if lead 194 223 \<and> cont 1 then 2
         else if (lead 224 224 \<and> byte_in 160 191 s 1 \<or> lead 225 236 \<and> cont 1
                  \<or> lead 237 237 \<and> byte_in 128 159 s 1 \<or> lead 238 239 \<and> cont 1) \<and> cont 2 then 3
         else if (lead 240 240 \<and> byte_in 144 191 s 1 \<or> lead 241 243 \<and> cont 1
                  \<or> lead 244 244 \<and> byte_in 128 143 s 1) \<and> cont 2 \<and> cont 3 then 4
         else 1)"

definition is_slug_safe :: "char \<Rightarrow> bool" where
  "is_slug_safe c \<longleftrightarrow>
     c \<in> set ''._-'' \<or> is_digit c
     \<or> (let l = lower_char c in CHR ''a'' \<le> l \<and> l \<le> CHR ''z'')"

function slug :: "string \<Rightarrow> string" where
  "slug [] = []"
| "slug (c # cs) = (if is_slug_safe c then c else CHR ''_'') # slug (drop (rune_len (c # cs) - 1) cs)"
  by pat_completeness auto
termination by (relation "measure length") auto

definition slugify_email :: "string \<Rightarrow> world \<Rightarrow> string" where
  "slugify_email email w = slug (w_nfc w email)"

definition session_dir :: "string \<Rightarrow> string \<Rightarrow> world \<Rightarrow> string" where
  "session_dir num email w = num @ ''-'' @ slugify_email email w"

definition keychain_service_name :: "string \<Rightarrow> world \<Rightarrow> string" where
  "keychain_service_name dir w = ''Claude Code-credentials-'' @ w_digest w dir"

section \<open>Profiles\<close>

definition dir_exists :: "string \<Rightarrow> world \<Rightarrow> bool" where
  "dir_exists dir w \<longleftrightarrow> profiles w dir \<noteq> None"

definition set_profile :: "string \<Rightarrow> profile option \<Rightarrow> world \<Rightarrow> world" where
  "set_profile dir p w = w\<lparr>profiles := (profiles w)(dir := p)\<rparr>"

definition update_profile :: "string \<Rightarrow> (profile \<Rightarrow> profile) \<Rightarrow> world \<Rightarrow> world" where
  "update_profile dir f w = set_profile dir (map_option f (profiles w dir)) w"

definition mark_stale :: "string \<Rightarrow> world \<Rightarrow> world" where
  "mark_stale dir = ignoring (os_call (update_profile dir (\<lambda>p. p\<lparr>prof_stale := True\<rparr>)))"

definition clear_stale_marker :: "string \<Rightarrow> world \<Rightarrow> go_err option \<times> world" where
  "clear_stale_marker dir = os_call (update_profile dir (\<lambda>p. p\<lparr>prof_stale := False\<rparr>))"

definition is_stale :: "string \<Rightarrow> world \<Rightarrow> bool" where
  "is_stale dir w \<longleftrightarrow> (case profiles w dir of None \<Rightarrow> False | Some p \<Rightarrow> prof_stale p)"

definition live_session_pids :: "string \<Rightarrow> world \<Rightarrow> int list" where
  "live_session_pids dir w = live_pids w dir"

definition delete_macos_keychain_entry :: "string \<Rightarrow> world \<Rightarrow> world" where
  "delete_macos_keychain_entry dir w =
     (if macos w then ignoring (kc_raw_delete (keychain_service_name dir w) (w_user w)) w else w)"

definition invalidate_session_credentials :: "string \<Rightarrow> world \<Rightarrow> go_err option \<times> world" where
  "invalidate_session_credentials dir w =
     (if \<not> dir_exists dir w then (None, w)
      else and_then (os_call (update_profile dir (\<lambda>p. p\<lparr>prof_creds := None\<rparr>)))
             (clear_stale_marker dir) (delete_macos_keychain_entry dir w))"

definition delete_session_profile :: "string \<Rightarrow> world \<Rightarrow> world" where
  "delete_session_profile dir w =
     (if \<not> dir_exists dir w then w
      else ignoring (os_call (set_profile dir None)) (delete_macos_keychain_entry dir w))"

text \<open>\<open>os.Rename\<close> of a profile directory: a (non-empty) directory in the way makes it fail.\<close>

definition rename_dir :: "string \<Rightarrow> string \<Rightarrow> world \<Rightarrow> go_err option \<times> world" where
  "rename_dir src dst w =
     (if dir_exists dst w \<or> \<not> dir_exists src w then (Some OsErr, w)
      else os_call (\<lambda>w. set_profile src None (set_profile dst (profiles w src) w)) w)"

section \<open>The live-session guard\<close>

fun join_with :: "string \<Rightarrow> string list \<Rightarrow> string" where
  "join_with sep [] = []"
| "join_with sep [s] = s"
| "join_with sep (s # t # ss) = s @ sep @ join_with sep (t # ss)"

definition join_pids :: "int list \<Rightarrow> string" where
  "join_pids pids = join_with '', '' (map itoa pids)"

definition live_session_pids_for :: "string \<Rightarrow> string \<Rightarrow> world \<Rightarrow> int list" where
  "live_session_pids_for num email w = live_session_pids (session_dir num email w) w"

definition ensure_no_live_session :: "string \<Rightarrow> string \<Rightarrow> string \<Rightarrow> world \<Rightarrow> go_err option" where
  "ensure_no_live_session num email action w =
     (let pids = live_session_pids_for num email w
      in if pids = [] then None
         else Some (Err KindSession
           (''Account-'' @ num @ '' ('' @ email @ '') has a live session-mode Claude instance (PID '' @ join_pids pids
            @ ''). Exit it first, then retry '' @ action @ ''.'')))"

definition delete_slot_profile :: "string \<Rightarrow> string \<Rightarrow> world \<Rightarrow> world" where
  "delete_slot_profile num email w = delete_session_profile (session_dir num email w) w"

section \<open>Lemmas\<close>

definition profile_resources :: "string \<Rightarrow> world \<Rightarrow> resource set" where
  "profile_resources dir w = {RProfile dir, RKeychain (keychain_service_name dir w, w_user w)}"

lemma touches_names:
  "touches R w w' \<Longrightarrow> session_dir num email w' = session_dir num email w"
  "touches R w w' \<Longrightarrow> keychain_service_name dir w' = keychain_service_name dir w"
  "touches R w w' \<Longrightarrow> profile_resources dir w' = profile_resources dir w"
  "touches R w w' \<Longrightarrow> live_session_pids_for num email w' = live_session_pids_for num email w"
  "touches R w w' \<Longrightarrow> ensure_no_live_session num email a w' = ensure_no_live_session num email a w"
  by (simp_all add: session_dir_def slugify_email_def keychain_service_name_def profile_resources_def
      live_session_pids_for_def live_session_pids_def ensure_no_live_session_def touches_facts)

lemma touches_set_profile [frames]:
  "touches R w w1 \<Longrightarrow> RProfile dir \<in> R \<Longrightarrow> touches R w (set_profile dir p w1)"
  "touches R w w1 \<Longrightarrow> RProfile dir \<in> R \<Longrightarrow> touches R w (update_profile dir f w1)"
  unfolding update_profile_def set_profile_def by (intro frames; simp)+

lemma touches_mark_stale [frames]:
  "touches R w w1 \<Longrightarrow> RProfile dir \<in> R \<Longrightarrow> touches R w (mark_stale dir w1)"
  unfolding mark_stale_def by (intro frames; simp)

lemma touches_delete_entry [frames]:
  "touches R w w1 \<Longrightarrow> profile_resources dir w \<subseteq> R \<Longrightarrow> touches R w (delete_macos_keychain_entry dir w1)"
  unfolding delete_macos_keychain_entry_def
  by (frule touches_names(2) [where dir = dir], frule touches_facts(2), intro frames; simp add: profile_resources_def)

lemma touches_invalidate [frames]:
  "touches R w w1 \<Longrightarrow> profile_resources dir w \<subseteq> R \<Longrightarrow> touches R w (snd (invalidate_session_credentials dir w1))"
  unfolding invalidate_session_credentials_def clear_stale_marker_def
  by (intro frames; auto simp: profile_resources_def)

lemma touches_delete_profile [frames]:
  "touches R w w1 \<Longrightarrow> profile_resources dir w \<subseteq> R \<Longrightarrow> touches R w (delete_session_profile dir w1)"
  unfolding delete_session_profile_def by (intro frames; auto simp: profile_resources_def)

lemma touches_delete_slot_profile [frames]:
  "touches R w w1 \<Longrightarrow> profile_resources (session_dir num email w) w \<subseteq> R \<Longrightarrow> touches R w (delete_slot_profile num email w1)"
  unfolding delete_slot_profile_def
  by (frule touches_names(1) [where num = num and email = email], intro frames; simp)

lemma touches_rename_dir [frames]:
  "touches R w w1 \<Longrightarrow> RProfile src \<in> R \<Longrightarrow> RProfile dst \<in> R \<Longrightarrow> touches R w (snd (rename_dir src dst w1))"
  unfolding rename_dir_def by (intro frames; simp)

lemma profile_places_apart [simp]:
  "keychain_service_name dir w \<noteq> security_service" "keychain_service_name dir w \<noteq> claude_code_service"
  "keychain_service_name dir w \<noteq> managed_service" "security_service \<noteq> keychain_service_name dir w"
  by (simp_all add: keychain_service_name_def security_service_def claude_code_service_def managed_service_def)

lemma session_dirs_apart:
  "is_digits n \<Longrightarrow> is_digits n' \<Longrightarrow> n \<noteq> n' \<Longrightarrow> session_dir n e w \<noteq> session_dir n' e' w"
  using dash_inject [of n n'] by (auto simp: session_dir_def)

end
