(* ===== verification/SlotStore.thy ===== *)
theory SlotStore
  imports SessProfile "HOL-Library.Sublist"
begin

text \<open>
  internal/store over the world: the credential and configuration backups of a slot (credproxy.go), the
  account views that read them (identity.go), the migrated and locked roster reads (identity.go,
  sequence.go, rosterlock.go). A lock acquisition takes one verdict: unusable is the timeout.
\<close>

section \<open>Configuration backups\<close>

definition config_backup_path :: "string \<Rightarrow> string \<Rightarrow> string" where
  "config_backup_path num email = ''.claude-config-'' @ num @ ''-'' @ email @ ''.json''"

definition read_account_config :: "string \<Rightarrow> string \<Rightarrow> world \<Rightarrow> (go_err + jtext) \<times> world" where
  "read_account_config num email w =
     (case config_files w (config_backup_path num email) of
        None \<Rightarrow> (Inr empty_text, w)
      | Some t \<Rightarrow> (case os_call (\<lambda>w. w) w of (Some e, w) \<Rightarrow> (Inl e, w) | (None, w) \<Rightarrow> (Inr t, w)))"

text \<open>\<open>config, _ := ReadAccountConfig(...)\<close>\<close>

definition config_or_empty :: "go_err + jtext \<Rightarrow> jtext" where
  "config_or_empty r = (case r of Inl _ \<Rightarrow> empty_text | Inr t \<Rightarrow> t)"

definition read_config_quiet :: "string \<Rightarrow> string \<Rightarrow> world \<Rightarrow> jtext \<times> world" where
  "read_config_quiet num email w = (case read_account_config num email w of (r, w) \<Rightarrow> (config_or_empty r, w))"

definition write_account_config :: "string \<Rightarrow> string \<Rightarrow> jtext \<Rightarrow> world \<Rightarrow> go_err option \<times> world" where
  "write_account_config num email config =
     and_then (os_call (\<lambda>w. w))
       (and_then (put_config_file (config_backup_path num email) config) (os_call (\<lambda>w. w)))"

definition delete_config_backup :: "string \<Rightarrow> string \<Rightarrow> world \<Rightarrow> go_err option \<times> world" where
  "delete_config_backup num email = remove_config_file (config_backup_path num email)"

section \<open>Credential backups\<close>

definition read_account_credentials :: "string \<Rightarrow> string \<Rightarrow> world \<Rightarrow> string \<times> world" where
  "read_account_credentials = read_backup"

definition post_backup_write :: "string \<Rightarrow> string \<Rightarrow> world \<Rightarrow> world" where
  "post_backup_write num email w =
     (let dir = session_dir num email w
      in if live_session_pids dir w \<noteq> [] then mark_stale dir w
         else ignoring (invalidate_session_credentials dir) w)"

definition write_account_credentials :: "string \<Rightarrow> string \<Rightarrow> string \<Rightarrow> world \<Rightarrow> go_err option \<times> world" where
  "write_account_credentials num email creds w =
     (case write_backup num email creds w of
        (Some e, w) \<Rightarrow> (Some e, w)
      | (None, w) \<Rightarrow> (None, post_backup_write num email w))"

definition delete_account_files :: "string \<Rightarrow> string \<Rightarrow> world \<Rightarrow> go_err option \<times> world" where
  "delete_account_files num email w =
     (case ensure_no_live_session num email ''the operation'' w of
        Some e \<Rightarrow> (Some e, w)
      | None \<Rightarrow>
          (case delete_config_backup num email (delete_backup num email w) of
             (Some e, w) \<Rightarrow> (Some e, w)
           | (None, w) \<Rightarrow> (None, delete_slot_profile num email w)))"

definition lock_error :: go_err where
  "lock_error = Err KindLock ''Failed to acquire lock - another instance may be running''"

definition acquire_lock :: "world \<Rightarrow> go_err option \<times> world" where
  "acquire_lock w =
     (case take_fault w of
        (NoFault, w) \<Rightarrow> (None, w) | (Unusable _, w) \<Rightarrow> (Some lock_error, w) | (OtherFail _, w) \<Rightarrow> (Some OsErr, w))"

definition persist_backup_credentials :: "string \<Rightarrow> string \<Rightarrow> string \<Rightarrow> world \<Rightarrow> go_err option \<times> world" where
  "persist_backup_credentials num email creds = and_then acquire_lock (write_account_credentials num email creds)"

section \<open>The roster file\<close>

definition w_roster :: "world \<Rightarrow> seq_data option" where
  "w_roster w = seq_or_nil (seq_file w)"

definition live_oauth_account :: "world \<Rightarrow> live_identity" where
  "live_oauth_account w =
     (case read_lenient w of
        None \<Rightarrow> ([], [], [])
      | Some m \<Rightarrow>
          (case as_map (mget m ''oauthAccount'') of
             None \<Rightarrow> ([], [], [])
           | Some oauth \<Rightarrow> (str_field oauth ''emailAddress'', str_field oauth ''organizationUuid'',
                            str_field oauth ''organizationName'')))"

definition config_of :: "string \<Rightarrow> string \<Rightarrow> world \<Rightarrow> jtext" where
  "config_of num email w = (case config_files w (config_backup_path num email) of None \<Rightarrow> empty_text | Some t \<Rightarrow> t)"

text \<open>The backfill's own configuration reads are not failed: a failed one counts as an absent file.\<close>

definition migrate_org_fields :: "world \<Rightarrow> go_err option \<times> world" where
  "migrate_org_fields w =
     (case classified_roster (seq_file w) of
        Inl e \<Rightarrow> (Some e, w)
      | Inr None \<Rightarrow> (None, w)
      | Inr (Some d) \<Rightarrow>
          if list_ex (\<lambda>(_, raw). \<not> has_org_key raw) (accounts d)
          then write_sequence (backfill (w_stamp w) (live_oauth_account w) (\<lambda>n e. config_of n e w) d) w
          else (None, w))"

definition sequence_migrated :: "world \<Rightarrow> (go_err + seq_data option) \<times> world" where
  "sequence_migrated w =
     (case classified_roster (seq_file w) of
        Inl e \<Rightarrow> (Inl e, w)
      | Inr None \<Rightarrow> (Inr None, w)
      | Inr (Some d) \<Rightarrow>
          if \<not> needs_org_backfill d then (Inr (Some d), w)
          else (case migrate_org_fields w of
                  (Some e, w) \<Rightarrow> (Inl e, w)
                | (None, w) \<Rightarrow> (classified_roster (seq_file w), w)))"

definition migrated_sequence_for_update :: "world \<Rightarrow> (go_err + seq_data) \<times> world" where
  "migrated_sequence_for_update w =
     (case sequence_migrated w of
        (Inl e, w) \<Rightarrow> (Inl e, w)
      | (Inr None, w) \<Rightarrow> (Inr (empty_sequence (w_stamp w)), w)
      | (Inr (Some d), w) \<Rightarrow> (Inr d, w))"

text \<open>The body's results (Go's captured variables) are returned beside its error.\<close>

definition with_roster_locked ::
  "(seq_data \<Rightarrow> world \<Rightarrow> (go_err + 'a) \<times> world) \<Rightarrow> world \<Rightarrow> (go_err + 'a) \<times> world" where
  "with_roster_locked fn w =
     (case acquire_lock w of
        (Some e, w) \<Rightarrow> (Inl e, w)
      | (None, w) \<Rightarrow>
          (case migrated_sequence_for_update w of (Inl e, w) \<Rightarrow> (Inl e, w) | (Inr d, w) \<Rightarrow> fn d w))"

text \<open>\<open>ResolveAccount\<close>: the backfill, then the identifier, then the record (number, email, organization).\<close>

definition resolve_account :: "string \<Rightarrow> world \<Rightarrow> (go_err + string \<times> string \<times> string) \<times> world" where
  "resolve_account identifier w =
     (case sequence_migrated w of
        (Inl e, w) \<Rightarrow> (Inl e, w)
      | (Inr _, w) \<Rightarrow>
          (case read_sequence (seq_file w) of
             Inl e \<Rightarrow> (Inl e, w)
           | Inr data \<Rightarrow>
               (case resolve_identifier data identifier of
                  Inl e \<Rightarrow> (Inl e, w)
                | Inr num \<Rightarrow>
                    if num = [] then (Inl (Err KindAccountNotFound (''No account found with identifier: '' @ identifier)), w)
                    else (case record_for data num of
                            None \<Rightarrow> (Inl (Err KindAccountNotFound (''Account-'' @ num @ '' does not exist'')), w)
                          | Some rec \<Rightarrow> (Inr (num, str_field rec ''email'', str_field rec ''organizationUuid''), w)))))"

definition backfill_account_uuid :: "string \<Rightarrow> string \<Rightarrow> world \<Rightarrow> go_err option \<times> world" where
  "backfill_account_uuid num uuid w =
     (if uuid = [] then (None, w)
      else and_then acquire_lock
        (\<lambda>w. case read_sequence (seq_file w) of
               Inl e \<Rightarrow> (Some e, w)
             | Inr None \<Rightarrow> (None, w)
             | Inr (Some d) \<Rightarrow>
                 (case record_for (Some d) num of
                    None \<Rightarrow> (None, w)
                  | Some rec \<Rightarrow>
                      if trim_space (str_field rec ''uuid'') \<noteq> [] then (None, w)
                      else write_sequence
                        (d\<lparr>accounts := gm_put num (encode_record (gm_put ''uuid'' (JStr uuid) rec)) (accounts d),
                           last_updated := w_stamp w\<rparr>) w)) w)"

section \<open>Account views\<close>

definition current_account_number :: "world \<Rightarrow> string option" where
  "current_account_number w =
     (case current_account w of
        None \<Rightarrow> None
      | Some (email, org) \<Rightarrow> (let slot = find_account_slot (w_roster w) email org in if slot = [] then None else Some slot))"

definition account_is_switchable :: "string \<Rightarrow> world \<Rightarrow> bool \<times> world" where
  "account_is_switchable num w =
     (case record_for (w_roster w) num of
        None \<Rightarrow> (False, w)
      | Some rec \<Rightarrow>
          (let email = str_field rec ''email''; (creds, w) = read_account_credentials num email w
           in if creds = [] then (False, w)
              else (let (cfg, w) = read_config_quiet num email w in (cfg \<noteq> empty_text, w))))"

definition rotation_eligible :: "seq_data option \<Rightarrow> string \<Rightarrow> world \<Rightarrow> bool \<times> world" where
  "rotation_eligible data num w =
     (if data = None then (False, w)
      else (let (ok, w) = account_is_switchable num w in (ok \<and> \<not> disabled_from_data data num, w)))"

fun eligible_in_order :: "seq_data option \<Rightarrow> int list \<Rightarrow> world \<Rightarrow> string list \<times> world" where
  "eligible_in_order data [] w = ([], w)"
| "eligible_in_order data (n # ns) w =
     (let (ok, w) = rotation_eligible data (itoa n) w; (rest, w) = eligible_in_order data ns w
      in (if ok then itoa n # rest else rest, w))"

definition switchable_account_numbers :: "world \<Rightarrow> string list \<times> world" where
  "switchable_account_numbers w =
     (case w_roster w of None \<Rightarrow> ([], w) | Some d \<Rightarrow> eligible_in_order (Some d) (seq_nums d) w)"

definition disabled_account_numbers :: "world \<Rightarrow> string list" where
  "disabled_account_numbers w =
     (case w_roster w of
        None \<Rightarrow> []
      | Some d \<Rightarrow> filter (disabled_from_data (Some d)) (map itoa (seq_nums d)))"

section \<open>What each operation touches\<close>

lemma touches_fault [frames]:
  "touches R w (snd a) \<Longrightarrow> (\<And>l. touches R w (snd (b l))) \<Longrightarrow> (\<And>l. touches R w (snd (c l))) \<Longrightarrow>
   touches R w (snd (case_fault a b c v))"
  "touches R w (snd (a1 w2)) \<Longrightarrow> (\<And>l. touches R w (snd (b1 l w2))) \<Longrightarrow> (\<And>l. touches R w (snd (c1 l w2))) \<Longrightarrow>
   touches R w (snd (case_fault a1 b1 c1 v w2))"
  by (cases v; simp)+

lemma touches_take_fault [frames]: "touches R w w1 \<Longrightarrow> touches R w (snd (take_fault w1))"
  by (cases w1 rule: take_fault_cases) (auto intro: touches_faults)

lemma touches_put_config [frames]:
  "touches R w w1 \<Longrightarrow> RConfigFile p \<in> R \<Longrightarrow> touches R w (snd (put_config_file p t w1))"
  unfolding put_config_file_def Let_def by (intro frames; simp)

lemma touches_remove_config [frames]:
  "touches R w w1 \<Longrightarrow> RConfigFile p \<in> R \<Longrightarrow> touches R w (snd (remove_config_file p w1))"
  unfolding remove_config_file_def by (intro frames; simp)

lemma touches_account_config [frames]:
  "touches R w w1 \<Longrightarrow> touches R w (snd (read_account_config num email w1))"
  "touches R w w1 \<Longrightarrow> touches R w (snd (read_config_quiet num email w1))"
  "touches R w w1 \<Longrightarrow> RConfigFile (config_backup_path num email) \<in> R \<Longrightarrow> touches R w (snd (write_account_config num email c w1))"
  "touches R w w1 \<Longrightarrow> RConfigFile (config_backup_path num email) \<in> R \<Longrightarrow> touches R w (snd (delete_config_backup num email w1))"
  unfolding read_config_quiet_def read_account_config_def write_account_config_def delete_config_backup_def
  by (intro frames; simp)+

lemma touches_post_backup_write [frames]:
  "touches R w w1 \<Longrightarrow> profile_resources (session_dir num email w) w \<subseteq> R \<Longrightarrow> touches R w (post_backup_write num email w1)"
  unfolding post_backup_write_def Let_def
  by (frule touches_names(1) [where num = num and email = email], intro frames; simp add: profile_resources_def)

lemma touches_write_account_credentials [frames]:
  "touches R w w1 \<Longrightarrow> backup_resources num email \<subseteq> R \<Longrightarrow> profile_resources (session_dir num email w) w \<subseteq> R \<Longrightarrow>
   touches R w (snd (write_account_credentials num email c w1))"
  unfolding write_account_credentials_def by (intro frames; simp)

definition slot_resources :: "string \<Rightarrow> string \<Rightarrow> world \<Rightarrow> resource set" where
  "slot_resources num email w =
     backup_resources num email \<union> backup_resources ''None'' email \<union> {RConfigFile (config_backup_path num email)}
     \<union> profile_resources (session_dir num email w) w"

lemma touches_delete_account_files [frames]:
  "touches R w w1 \<Longrightarrow> slot_resources num email w \<subseteq> R \<Longrightarrow> touches R w (snd (delete_account_files num email w1))"
  unfolding delete_account_files_def by (intro frames; simp add: slot_resources_def)

lemma touches_acquire_lock [frames]: "touches R w w1 \<Longrightarrow> touches R w (snd (acquire_lock w1))"
  unfolding acquire_lock_def by (intro frames; simp)

lemma touches_write_sequence [frames]: "touches R w w1 \<Longrightarrow> RSeq \<in> R \<Longrightarrow> touches R w (snd (write_sequence d w1))"
  unfolding write_sequence_def by (intro frames; simp)

lemma touches_migrate [frames]:
  "touches R w w1 \<Longrightarrow> RSeq \<in> R \<Longrightarrow> touches R w (snd (migrate_org_fields w1))"
  "touches R w w1 \<Longrightarrow> RSeq \<in> R \<Longrightarrow> touches R w (snd (sequence_migrated w1))"
  "touches R w w1 \<Longrightarrow> RSeq \<in> R \<Longrightarrow> touches R w (snd (migrated_sequence_for_update w1))"
  "touches R w w1 \<Longrightarrow> RSeq \<in> R \<Longrightarrow> touches R w (snd (resolve_account i w1))"
  unfolding resolve_account_def migrated_sequence_for_update_def sequence_migrated_def migrate_org_fields_def
  by (intro frames; simp)+

lemma touches_switchable [frames]:
  "touches R w w1 \<Longrightarrow> touches R w (snd (account_is_switchable num w1))"
  "touches R w w1 \<Longrightarrow> touches R w (snd (rotation_eligible d num w1))"
  unfolding rotation_eligible_def account_is_switchable_def read_account_credentials_def
  by (intro frames; simp)+

lemma touches_eligible_in_order [frames]: "touches R w w1 \<Longrightarrow> touches R w (snd (eligible_in_order d ns w1))"
proof (induction ns arbitrary: w1)
  case (Cons n ns)
  then show ?case unfolding eligible_in_order.simps by (intro frames; simp)
qed simp

section \<open>Both kinds of backup meet the slot contract\<close>

lemma write_account_credentials_ok:
  assumes "write_account_credentials num email c w = (None, w')" "c \<noteq> []"
  shows "backup_of num email w' = c"
proof -
  obtain w1 where w1: "write_backup num email c w = (None, w1)" "w' = post_backup_write num email w1"
    using assms(1) by (auto simp: write_account_credentials_def split: prod.splits option.splits)
  have "touches (profile_resources (session_dir num email w1) w1) w1 w'"
    unfolding w1(2) by (intro frames; simp)
  then have "backup_of num email w' = backup_of num email w1"
    by (rule backup_of_touches) (auto simp: profile_resources_def)
  with write_backup_ok [OF w1(1) assms(2)] show ?thesis by simp
qed

lemma backup_apart_slot:
  assumes "touches (slot_resources n e w) w w'" "is_digits n" "is_digits n'" "n \<noteq> n'"
  shows "backup_of n' e' w' = backup_of n' e' w"
  using assms(1) slot_names_apart [OF assms(2-4)] none_names_apart [OF assms(3)]
  by (intro backup_of_touches) (auto simp: backup_resources_def slot_resources_def profile_resources_def)

interpretation accounts: slot_backup backup_of "[]" write_account_credentials delete_backup_strict
proof unfold_locales
  show "backup_of num' email' (snd (write_account_credentials num email v w)) = backup_of num' email' w"
    if "is_digits num" "is_digits num'" "num \<noteq> num'" for num num' email email' v w
    using that by (intro backup_apart_slot [of num email]) (intro frames; auto simp: slot_resources_def)+
qed (use write_account_credentials_ok creds.clear_ok creds.clear_apart in auto)

lemma config_paths_apart:
  "is_digits n \<Longrightarrow> is_digits n' \<Longrightarrow> n \<noteq> n' \<Longrightarrow> config_backup_path n' e' \<noteq> config_backup_path n e"
  using dash_inject [of n' n] by (auto simp: config_backup_path_def)

lemma config_of_touches:
  "touches R w w' \<Longrightarrow> RConfigFile (config_backup_path num email) \<notin> R \<Longrightarrow> config_of num email w' = config_of num email w"
  using touches_same [of R w w' "RConfigFile (config_backup_path num email)"] by (simp add: config_of_def)

lemma write_account_config_ok:
  assumes "write_account_config num email v w = (None, w')"
  shows "config_of num email w' = v"
proof -
  obtain w1 w2 where "put_config_file (config_backup_path num email) v w1 = (None, w2)" "os_call (\<lambda>w. w) w2 = (None, w')"
    using assms unfolding write_account_config_def and_then_None by blast
  then show ?thesis
    by (auto simp: put_config_file_def Let_def config_of_def split: prod.splits fault.splits dest!: os_call_None)
qed

interpretation configs: slot_backup config_of empty_text write_account_config delete_config_backup
proof unfold_locales
  show "config_of num email w' = v" if "write_account_config num email v w = (None, w')" for num email v w w'
    using that by (rule write_account_config_ok)
  show "config_of num email w' = empty_text" if "delete_config_backup num email w = (None, w')" for num email w w'
    using that by (auto simp: delete_config_backup_def remove_config_file_def config_of_def dest!: os_call_None)
  show "config_of num' email' (snd (write_account_config num email v w)) = config_of num' email' w"
    if "is_digits num" "is_digits num'" "num \<noteq> num'" for num num' email email' v w
    by (rule config_of_touches [where R = "{RConfigFile (config_backup_path num email)}"], (intro frames; simp), (use config_paths_apart [OF that] in auto))
  show "config_of num' email' (snd (delete_config_backup num email w)) = config_of num' email' w"
    if "is_digits num" "is_digits num'" "num \<noteq> num'" for num num' email email' w
    by (rule config_of_touches [where R = "{RConfigFile (config_backup_path num email)}"], (intro frames; simp), (use config_paths_apart [OF that] in auto))
qed

lemma read_config_idle: "faults w = [] \<Longrightarrow> read_config_quiet num email w = (config_of num email w, w)"
  by (simp add: read_config_quiet_def read_account_config_def config_of_def config_or_empty_def os_call_quiet split: option.split)

section \<open>The roster under the lock\<close>

lemma write_sequence_ok: "write_sequence d w = (None, w') \<Longrightarrow> seq_file w' = SeqRoster d"
  by (auto simp: write_sequence_def dest!: os_atomic_None)

lemma classified_roster_Inr:
  "classified_roster f = Inr r \<longleftrightarrow> (case r of None \<Rightarrow> f = SeqMissing | Some d \<Rightarrow> f = SeqRoster d)"
  by (cases f) (auto simp: classified_roster_def read_sequence_state_def split: option.splits)

lemma sequence_migrated_facts:
  assumes "sequence_migrated w = (Inr r, w')"
  shows "case r of None \<Rightarrow> seq_file w' = SeqMissing | Some d \<Rightarrow> seq_file w' = SeqRoster d \<and> \<not> needs_org_backfill d"
proof (cases "\<exists>d. classified_roster (seq_file w) = Inr (Some d) \<and> needs_org_backfill d")
  case False
  with assms show ?thesis
    by (auto simp: sequence_migrated_def classified_roster_Inr split: sum.splits option.splits if_splits)
next
  case True
  then obtain d where d: "classified_roster (seq_file w) = Inr (Some d)" "needs_org_backfill d" by blast
  have some: "list_ex (\<lambda>(_, raw). \<not> has_org_key raw) (accounts d)"
    using d(2) by (auto simp: needs_org_backfill_def list_ex_iff)
  obtain e w1 where m: "migrate_org_fields w = (e, w1)" by fastforce
  then have w1: "migrate_org_fields w = (None, w1)" "classified_roster (seq_file w1) = Inr r" "w' = w1"
    using assms d by (cases e; simp add: sequence_migrated_def)+
  have "migrate_org_fields w = write_sequence (backfill (w_stamp w) (live_oauth_account w) (\<lambda>n e. config_of n e w) d) w"
    using d(1) some by (simp add: migrate_org_fields_def)
  with w1 have "seq_file w' = SeqRoster (backfill (w_stamp w) (live_oauth_account w) (\<lambda>n e. config_of n e w) d)"
    by (metis write_sequence_ok)
  then show ?thesis using w1(2,3) no_org_backfill_left [of "w_stamp w" "live_oauth_account w" "\<lambda>n e. config_of n e w" d]
    by (auto simp: classified_roster_Inr split: option.splits)
qed


lemma migrated_facts:
  assumes "migrated_sequence_for_update w = (Inr d, w')"
  shows "touches {RSeq} w w'" "\<not> needs_org_backfill d"
    "seq_file w' = SeqRoster d \<or> seq_file w' = SeqMissing \<and> d = empty_sequence (w_stamp w)"
proof -
  show "touches {RSeq} w w'" by (rule touches_result [OF assms]) (intro frames; simp)
  obtain r w1 where r: "sequence_migrated w = (Inr r, w1)" "w1 = w'" "d = (case r of None \<Rightarrow> empty_sequence (w_stamp w1) | Some d \<Rightarrow> d)"
    using assms by (auto simp: migrated_sequence_for_update_def split: prod.splits sum.splits option.splits)
  have "w_stamp w1 = w_stamp w" using r(2) \<open>touches {RSeq} w w'\<close> by (simp add: touches_facts)
  with r(2,3) sequence_migrated_facts [OF r(1)]
  show "\<not> needs_org_backfill d" "seq_file w' = SeqRoster d \<or> seq_file w' = SeqMissing \<and> d = empty_sequence (w_stamp w)"
    by (cases r; simp add: needs_org_backfill_def empty_sequence_def)+
qed

lemma with_roster_locked_cases:
  obtains (refused) e w1 where "with_roster_locked fn w = (Inl e, w1)" "touches {RSeq} w w1"
      "seq_file w1 = seq_file w \<or> (\<exists>d. seq_file w = SeqRoster d)"
  | (run) d w1 where "with_roster_locked fn w = fn d w1" "touches {RSeq} w w1" "\<not> needs_org_backfill d"
      "seq_file w1 = SeqRoster d \<or> seq_file w1 = SeqMissing \<and> d = empty_sequence (w_stamp w)"
      "seq_file w \<notin> {SeqIoFail, SeqInvalid, SeqNull}"
proof -
  obtain l w0 where l: "acquire_lock w = (l, w0)" by fastforce
  have t0: "touches {} w w0" by (rule touches_result [OF l]) (intro frames; simp)
  then have s0: "seq_file w0 = seq_file w" "w_stamp w0 = w_stamp w" using touches_same [OF t0, of RSeq] touches_facts(3) by auto
  show ?thesis
  proof (cases l)
    case (Some e)
    then show ?thesis using l t0 s0 by (intro refused [of e w0]) (auto simp: with_roster_locked_def intro: touches_mono)
  next
    case None
    obtain r w1 where m: "migrated_sequence_for_update w0 = (r, w1)" by fastforce
    have "touches {RSeq} w0 w1" by (rule touches_result [OF m]) (intro frames; simp)
    then have t1: "touches {RSeq} w w1" using t0 touches_mono touches_trans by blast
    show ?thesis
    proof (cases r)
      case (Inl e)
      have "seq_file w1 = seq_file w0 \<or> (\<exists>d. seq_file w0 = SeqRoster d)"
        using m Inl by (cases "seq_file w0")
          (auto simp: migrated_sequence_for_update_def sequence_migrated_def classified_roster_def
            read_sequence_state_def)
      then show ?thesis using l None m Inl t1 s0
        by (intro refused [of e w1]) (auto simp: with_roster_locked_def)
    next
      case (Inr d)
      have "seq_file w0 \<notin> {SeqIoFail, SeqInvalid, SeqNull}"
        using m Inr by (auto simp: migrated_sequence_for_update_def sequence_migrated_def classified_roster_def
            read_sequence_state_def)
      then show ?thesis using Inr l None m t1 s0 migrated_facts [of w0 d w1]
        by (intro run [of d w1]) (auto simp: with_roster_locked_def)
    qed
  qed
qed

text \<open>
  Property C20: every locked write starts from the roster on disk. Under the store lock the body either
  does not run at all, with nothing but a pending organization backfill written, or it gets a fully
  backfilled roster that is, at that moment, exactly the file's content (the empty roster only when
  there is no file); and a roster file that cannot be read is refused unchanged.
\<close>

theorem locked_roster_is_file:
  "(\<exists>e w1. with_roster_locked fn w = (Inl e, w1) \<and> touches {RSeq} w w1
       \<and> (seq_file w1 = seq_file w \<or> (\<exists>d. seq_file w = SeqRoster d)))
   \<or> (\<exists>d w1. with_roster_locked fn w = fn d w1 \<and> touches {RSeq} w w1 \<and> \<not> needs_org_backfill d
       \<and> seq_file w \<notin> {SeqIoFail, SeqInvalid, SeqNull}
       \<and> (seq_file w1 = SeqRoster d \<or> seq_file w1 = SeqMissing \<and> d = empty_sequence (w_stamp w)))"
proof (cases rule: with_roster_locked_cases [of fn w])
  case (refused e w1)
  then show ?thesis by blast
next
  case (run d w1)
  then show ?thesis by blast
qed

section \<open>Who may be rotated to\<close>

text \<open>The eligibility rule over the durable state: enabled, with a credential and a configuration backup.\<close>

definition eligible :: "seq_data \<Rightarrow> world \<Rightarrow> string \<Rightarrow> bool" where
  "eligible d w num \<longleftrightarrow>
     (case record_for (Some d) num of
        None \<Rightarrow> False
      | Some rec \<Rightarrow> backup_of num (str_field rec ''email'') w \<noteq> [] \<and> config_of num (str_field rec ''email'') w \<noteq> empty_text)
     \<and> \<not> disabled_from_data (Some d) num"

lemma eligible_touches: "touches {} w w' \<Longrightarrow> eligible d w' num = eligible d w num"
  using backup_of_touches [of "{}" w w'] config_of_touches [of "{}" w w'] by (simp add: eligible_def split: option.split)

lemma faults_learn [simp]: "faults (learn e w) = faults w"
  by (simp add: learn_def split: option.split)

lemma kc_value_sound: "fst (kc_value a w) \<noteq> [] \<Longrightarrow> fst (kc_value a w) = or_empty (keychain w (security_service, a))"
  by (auto simp: kc_value_def kc_get_def Let_def split: prod.splits option.splits sum.splits)

lemma decode_enc_sound: "fst (decode_enc p w) = Some c \<Longrightarrow> c = enc_val p w \<and> c \<noteq> []"
  by (auto simp: decode_enc_def enc_val_def split: prod.splits option.splits enc_file.splits if_splits)

lemma read_backup_sound:
  assumes "fst (read_backup num email w) \<noteq> []"
  shows "backup_of num email w \<noteq> []"
proof (cases "decode_enc (backup_enc_path num email) w")
  case (Pair r w1)
  have t: "touches {} w w1" by (rule touches_result [OF Pair]) (intro frames; simp)
  show ?thesis
  proof (cases r)
    case None
    with assms Pair have m: "macos w1" "fst (kc_value (backup_username num email) w1) \<noteq> []"
      by (auto simp: read_backup_def split: if_splits)
    then show ?thesis
      using kc_value_sound [of "backup_username num email" w1] touches_facts(1) [OF t]
        touches_same [OF t, of "RKeychain (security_service, backup_username num email)"]
      by (auto simp: backup_of_def)
  next
    case (Some c)
    then show ?thesis using decode_enc_sound [of "backup_enc_path num email" w c] Pair by (auto simp: backup_of_def)
  qed
qed

lemma read_config_sound: "fst (read_config_quiet num email w) \<in> {empty_text, config_of num email w}"
  by (auto simp: read_config_quiet_def read_account_config_def config_of_def config_or_empty_def
      split: prod.splits option.splits sum.splits)

lemma rotation_eligible_facts:
  assumes "w_roster w = Some d"
  shows "fst (rotation_eligible (Some d) num w) \<Longrightarrow> eligible d w num"
    and "faults w = [] \<Longrightarrow> fst (rotation_eligible (Some d) num w) = eligible d w num"
    and "faults w = [] \<Longrightarrow> faults (snd (rotation_eligible (Some d) num w)) = []"
proof -
  define email where "email = (case record_for (Some d) num of None \<Rightarrow> [] | Some rec \<Rightarrow> str_field rec ''email'')"
  obtain c w1 where r: "read_backup num email w = (c, w1)" by fastforce
  have t: "touches {} w w1" by (rule touches_result [OF r]) (intro frames; simp)
  have cf: "config_of num email w1 = config_of num email w" using t by (rule config_of_touches) simp
  obtain g w2 where g: "read_config_quiet num email w1 = (g, w2)" by fastforce
  have e: "rotation_eligible (Some d) num w =
    (if record_for (Some d) num = None then (False, w)
     else if c = [] then (False, w1) else (g \<noteq> empty_text \<and> \<not> disabled_from_data (Some d) num, w2))"
    using assms r g by (auto simp: rotation_eligible_def account_is_switchable_def read_account_credentials_def email_def
      Let_def split: option.splits)
  show "eligible d w num" if "fst (rotation_eligible (Some d) num w)"
    using that e read_backup_sound [of num email w] read_config_sound [of num email w1] r g cf
    by (auto simp: eligible_def email_def split: if_splits option.splits)
  show "fst (rotation_eligible (Some d) num w) = eligible d w num"
    and "faults (snd (rotation_eligible (Some d) num w)) = []" if "faults w = []"
    using that e read_backup_idle [OF that, of num email] touches_idle [OF t that]
      read_config_idle [of w1 num email] r g cf
    by (auto simp: eligible_def email_def split: option.splits)
qed

lemma eligible_in_order_facts:
  "w_roster w = Some d \<Longrightarrow>
   subseq (fst (eligible_in_order (Some d) ns w)) (map itoa ns)
   \<and> (\<forall>num \<in> set (fst (eligible_in_order (Some d) ns w)). eligible d w num)
   \<and> (faults w = [] \<longrightarrow> fst (eligible_in_order (Some d) ns w) = filter (eligible d w) (map itoa ns))"
proof (induction ns arbitrary: w)
  case (Cons n ns)
  obtain ok w1 where o: "rotation_eligible (Some d) (itoa n) w = (ok, w1)" by fastforce
  have t: "touches {} w w1" by (rule touches_result [OF o]) (intro frames; simp)
  have w1: "w_roster w1 = Some d" using touches_same [OF t, of RSeq] Cons.prems by (simp add: w_roster_def)
  have el: "eligible d w1 = eligible d w" using eligible_touches [OF t, of d] by auto
  obtain rest w2 where r: "eligible_in_order (Some d) ns w1 = (rest, w2)" by fastforce
  have s: "fst (eligible_in_order (Some d) (n # ns) w) = (if ok then itoa n # rest else rest)"
    using o r by simp
  have ih: "subseq rest (map itoa ns)" "\<forall>num \<in> set rest. eligible d w num"
    "faults w1 = [] \<longrightarrow> rest = filter (eligible d w) (map itoa ns)"
    using Cons.IH [OF w1] unfolding r el fst_conv by blast+
  have f: "ok \<Longrightarrow> eligible d w (itoa n)" "faults w = [] \<Longrightarrow> ok = eligible d w (itoa n) \<and> faults w1 = []"
    using rotation_eligible_facts [OF Cons.prems, of "itoa n"] o by simp_all
  have "subseq (if ok then itoa n # rest else rest) (map itoa (n # ns))"
    using ih(1) by (auto intro: list_emb_Cons)
  moreover have "\<forall>num \<in> set (if ok then itoa n # rest else rest). eligible d w num"
    using ih(2) f(1) by auto
  moreover have "(if ok then itoa n # rest else rest) = filter (eligible d w) (map itoa (n # ns))" if "faults w = []"
    using ih(3) f(2) [OF that] by auto
  ultimately show ?case unfolding s by blast
qed simp

text \<open>
  Property C21: rotation never offers a slot it must not. Whatever reads fail, the slots offered to
  automatic rotation are in rotation order, each enabled and each really holding a credential and a
  configuration backup; and when no read fails they are all of those.
\<close>

theorem rotation_exact:
  assumes "w_roster w = Some d"
  shows "subseq (fst (switchable_account_numbers w)) (map itoa (seq_nums d))
    \<and> (\<forall>num \<in> set (fst (switchable_account_numbers w)). eligible d w num)
    \<and> (faults w = [] \<longrightarrow> fst (switchable_account_numbers w) = filter (eligible d w) (map itoa (seq_nums d)))"
proof -
  have "fst (switchable_account_numbers w) = fst (eligible_in_order (Some d) (seq_nums d) w)"
    using assms by (simp add: switchable_account_numbers_def)
  then show ?thesis using eligible_in_order_facts [OF assms, of "seq_nums d"] by metis
qed

text \<open>Slot 1 has both backups, slot 2 is disabled, slot 3 has no configuration.\<close>

definition sample_rotation_roster :: seq_data where
  "sample_rotation_roster =
     \<lparr>active_num = None, last_updated = [], seq_nums = [3, 2, 1],
       accounts = [(''1'', JObj [(''email'', JStr ''a@x'')]),
                   (''2'', JObj [(''email'', JStr ''b@x''), (''disabled'', JBool True)]),
                   (''3'', JObj [(''email'', JStr ''c@x'')])]\<rparr>"

definition sample_rotation :: world where
  "sample_rotation = sample_world\<lparr>faults := [], seq_file := SeqRoster sample_rotation_roster,
     cred_files := (\<lambda>p. Some (EncData ''secret'')),
     config_files := (\<lambda>p. if p = ''.claude-config-3-c@x.json'' then None else Some (TRaw ''{}''))\<rparr>"

lemma sample_rotation_roster: "w_roster sample_rotation = Some sample_rotation_roster"
  by (simp add: w_roster_def sample_rotation_def seq_or_nil_def read_sequence_def read_sequence_state_def)

lemma rotation_exact_witness:
  "fst (switchable_account_numbers sample_rotation) = [''1'']"
proof -
  have s: "map itoa (seq_nums sample_rotation_roster) = [''3'', ''2'', ''1'']" by code_simp
  have "filter (eligible sample_rotation_roster sample_rotation) [''3'', ''2'', ''1''] = [''1'']"
    by (simp add: eligible_def sample_rotation_roster_def sample_rotation_def record_for_def decode_record_def
        obj_map_def str_field_def mget_def backup_of_def enc_val_def config_of_def config_backup_path_def
        disabled_from_data_def empty_text_def bool_field_def)
  then show ?thesis
    using rotation_exact [OF sample_rotation_roster] s by (simp add: sample_rotation_def)
qed

section \<open>Sessions after a backup changes\<close>

text \<open>
  Property C22: no session starts from a replaced credential. When nothing fails, after a slot's
  credential backup is written an idle session profile of the slot holds no credential copy, in its
  directory or its Keychain entry, and no stale mark; a profile with a live session is untouched but
  for the mark that makes the next run start afresh.
\<close>

theorem backup_write_invalidates:
  assumes "write_account_credentials num email c w = (None, w')" "faults w = []"
    "profiles w (session_dir num email w) = Some p"
  shows "if live_session_pids (session_dir num email w) w = []
    then profiles w' (session_dir num email w) = Some (p\<lparr>prof_creds := None, prof_stale := False\<rparr>)
         \<and> (macos w \<longrightarrow> keychain w' (keychain_service_name (session_dir num email w) w, w_user w) = None)
    else profiles w' (session_dir num email w) = Some (p\<lparr>prof_stale := True\<rparr>)"
proof -
  define dir where "dir = session_dir num email w"
  obtain w1 where w1: "write_backup num email c w = (None, w1)" "w' = post_backup_write num email w1"
    using assms(1) by (auto simp: write_account_credentials_def split: prod.splits option.splits)
  have t: "touches (backup_resources num email) w w1"
    by (rule touches_result [OF w1(1)]) (intro frames; simp)
  have f: "faults w1 = []" using t assms(2) by (rule touches_idle)
  have n: "session_dir num email w1 = dir" "keychain_service_name dir w1 = keychain_service_name dir w"
    "live_session_pids dir w1 = live_session_pids dir w" "macos w1 = macos w" "w_user w1 = w_user w"
    using touches_names [OF t] touches_facts [OF t] by (simp_all add: dir_def live_session_pids_def)
  have p: "profiles w1 dir = Some p"
    using touches_same [OF t, of "RProfile dir"] assms(3) by (simp add: backup_resources_def dir_def)
  define w2 where "w2 = delete_macos_keychain_entry dir w1"
  have "touches (profile_resources dir w1 - {RProfile dir}) w1 w2"
    unfolding w2_def delete_macos_keychain_entry_def by (intro frames; simp add: profile_resources_def)
  then have w2: "faults w2 = []" "profiles w2 dir = Some p"
    using f p touches_idle touches_same [of _ w1 w2 "RProfile dir"] by (auto simp: profile_resources_def)
  have k: "macos w \<Longrightarrow> keychain w2 (keychain_service_name dir w, w_user w) = None"
    using f n by (simp add: w2_def delete_macos_keychain_entry_def ignoring_def kc_raw_delete_def kc_call_quiet)
  show ?thesis
    using f n p w2 k w2_def unfolding dir_def [symmetric] w1(2)
    by (auto simp: post_backup_write_def mark_stale_def ignoring_def os_call_quiet update_profile_def
        set_profile_def invalidate_session_credentials_def dir_exists_def and_then_def clear_stale_marker_def)
qed

definition sample_profiles :: world where
  "sample_profiles = sample_world\<lparr>faults := [],
     profiles := (\<lambda>d. if d = ''1-a_x'' then Some \<lparr>prof_creds = Some ''C'', prof_config = None, prof_stale = True, prof_data = ''h''\<rparr> else None)\<rparr>"

lemma backup_write_invalidates_witness:
  "profiles (snd (write_account_credentials ''1'' ''a@x'' ''NEW'' sample_profiles)) ''1-a_x''
   = Some \<lparr>prof_creds = None, prof_config = None, prof_stale = False, prof_data = ''h''\<rparr>"
proof -
  let ?w = "sample_profiles"
  have d: "session_dir ''1'' ''a@x'' ?w = ''1-a_x''" by code_simp
  have "fst (write_account_credentials ''1'' ''a@x'' ''NEW'' ?w) = None" by code_simp
  then have r: "write_account_credentials ''1'' ''a@x'' ''NEW'' ?w = (None, snd (write_account_credentials ''1'' ''a@x'' ''NEW'' ?w))"
    by (simp add: prod_eq_iff)
  have f: "faults ?w = []" and p: "profiles ?w ''1-a_x'' = Some \<lparr>prof_creds = Some ''C'', prof_config = None, prof_stale = True, prof_data = ''h''\<rparr>"
    and l: "live_session_pids ''1-a_x'' ?w = []"
    by (simp_all add: sample_profiles_def sample_world_def live_session_pids_def)
  show ?thesis using backup_write_invalidates [OF r f, unfolded d, OF p] l by simp
qed

end
