(* ===== verification/MoveSwap.thy ===== *)
theory MoveSwap
  imports SlotStore
begin

text \<open>
  internal/lifecycle/moveswap.go: moving an account to another slot number and swapping two accounts.
  The roster write is the commit point: before it a failure is rolled back (from staged copies when the
  two backups overlap), after it only clean-up remains.
\<close>

section \<open>Rotation order and roster edits\<close>

definition renumber_sequence :: "int list \<Rightarrow> int \<Rightarrow> int \<Rightarrow> int list" where
  "renumber_sequence xs from_n to_n = map (\<lambda>n. if n = from_n then to_n else n) xs"

definition swap_sequence :: "int list \<Rightarrow> int \<Rightarrow> int \<Rightarrow> int list" where
  "swap_sequence xs a b = map (\<lambda>n. if n = a then b else if n = b then a else n) xs"

definition slot_int :: "string \<Rightarrow> int" where
  "slot_int num = (case parse_slot num of None \<Rightarrow> 0 | Some n \<Rightarrow> n)"

definition relocate_roster :: "string \<Rightarrow> string \<Rightarrow> string \<Rightarrow> json \<Rightarrow> seq_data \<Rightarrow> seq_data" where
  "relocate_roster ts src target raw d =
     d\<lparr>accounts := gm_del src (gm_put target raw (accounts d)),
       seq_nums := sort (renumber_sequence (seq_nums d) (slot_int src) (slot_int target)),
       active_num := (if active_num d = Some (slot_int src) then Some (slot_int target) else active_num d),
       last_updated := ts\<rparr>"

definition swap_roster :: "string \<Rightarrow> string \<Rightarrow> string \<Rightarrow> json \<Rightarrow> json \<Rightarrow> seq_data \<Rightarrow> seq_data" where
  "swap_roster ts a b raw_a raw_b d =
     d\<lparr>accounts := gm_put b raw_a (gm_put a raw_b (accounts d)),
       seq_nums := sort (swap_sequence (seq_nums d) (slot_int a) (slot_int b)),
       active_num := (if active_num d = Some (slot_int a) then Some (slot_int b)
                      else if active_num d = Some (slot_int b) then Some (slot_int a) else active_num d),
       last_updated := ts\<rparr>"

section \<open>Moving into an empty slot\<close>

definition write_or_clear_creds :: "string \<Rightarrow> string \<Rightarrow> string \<Rightarrow> world \<Rightarrow> go_err option \<times> world" where
  "write_or_clear_creds = write_or_clear [] write_account_credentials delete_backup_strict"

definition write_or_clear_config :: "string \<Rightarrow> string \<Rightarrow> jtext \<Rightarrow> world \<Rightarrow> go_err option \<times> world" where
  "write_or_clear_config = write_or_clear empty_text write_account_config delete_config_backup"

definition move_dir :: "string \<Rightarrow> string \<Rightarrow> world \<Rightarrow> world" where
  "move_dir src dst w =
     (if dir_exists src w \<and> \<not> dir_exists dst w then ignoring (rename_dir src dst) w else w)"

definition relocate_run ::
  "seq_data \<Rightarrow> string \<Rightarrow> string \<Rightarrow> string \<Rightarrow> string \<Rightarrow> string \<Rightarrow> jtext \<Rightarrow> world \<Rightarrow> go_err option \<times> world" where
  "relocate_run new_d src_dir dst_dir target email creds config w =
     and_then (write_or_clear_creds target email creds)
       (and_then (write_or_clear_config target email config) (write_sequence new_d))
       (move_dir src_dir dst_dir w)"

definition relocate_undo :: "string \<Rightarrow> string \<Rightarrow> string \<Rightarrow> string \<Rightarrow> world \<Rightarrow> world" where
  "relocate_undo src_dir dst_dir target email w =
     move_dir dst_dir src_dir (ignoring (delete_config_backup target email) (delete_backup target email w))"

definition not_found :: "string \<Rightarrow> go_err" where
  "not_found num = Err KindAccountNotFound (''Account-'' @ num @ '' does not exist'')"

definition relocate_locked :: "seq_data \<Rightarrow> string \<Rightarrow> string \<Rightarrow> world \<Rightarrow> go_err option \<times> world" where
  "relocate_locked d src target w =
     (case map_of (accounts d) src of
        None \<Rightarrow> (Some (not_found src), w)
      | Some raw \<Rightarrow>
          if map_of (accounts d) target \<noteq> None
          then (Some (Err KindValidation (''Slot '' @ target @ '' is already occupied - retry the move'')), w)
          else
            (let email = str_field (decode_record raw) ''email''
             in (case ensure_no_live_session src email ''--move-account'' w of
                   Some e \<Rightarrow> (Some e, w)
                 | None \<Rightarrow>
                     (let (creds, w) = read_account_credentials src email w;
                          (config, w) = read_config_quiet src email w;
                          src_dir = session_dir src email w; dst_dir = session_dir target email w
                      in (case relocate_run (relocate_roster (w_stamp w) src target raw d)
                                 src_dir dst_dir target email creds config w of
                            (Some e, w) \<Rightarrow> (Some e, relocate_undo src_dir dst_dir target email w)
                          | (None, w) \<Rightarrow>
                              (let w = ignoring (delete_account_files src email) w
                               in (None, if creds \<noteq> [] then delete_prev target email w else w)))))))"

section \<open>Staging overlapping material\<close>

definition staging_path :: "string \<Rightarrow> string \<Rightarrow> string" where
  "staging_path kind num = ''.swap-staging-'' @ kind @ ''-'' @ num @ ''.json''"

definition put_staging :: "string \<Rightarrow> jtext option \<Rightarrow> world \<Rightarrow> go_err option \<times> world" where
  "put_staging path t = os_call (\<lambda>w. w\<lparr>staging_files := (staging_files w)(path := t)\<rparr>)"

fun discard_staging :: "string list \<Rightarrow> world \<Rightarrow> world" where
  "discard_staging [] w = w"
| "discard_staging (p # ps) w = discard_staging ps (ignoring (put_staging p None) w)"

text \<open>Each item is created exclusively, then written; the paths staged so far are kept for discarding.\<close>

fun stage_items :: "(string \<times> jtext) list \<Rightarrow> string list \<Rightarrow> world \<Rightarrow> (go_err + string list) \<times> world" where
  "stage_items [] staged w = (Inr staged, w)"
| "stage_items ((path, content) # items) staged w =
     (if content = empty_text then stage_items items staged w
      else if staging_files w path \<noteq> None
      then (Inl (Err KindConfig ''Found leftover staging from an interrupted swap''), discard_staging staged w)
      else (case put_staging path (Some empty_text) w of
              (Some _, w) \<Rightarrow> (Inl (Err KindConfig ''Could not stage swap material, nothing was changed''), discard_staging staged w)
            | (None, w) \<Rightarrow>
                (case put_staging path (Some content) w of
                   (Some _, w) \<Rightarrow> (Inl (Err KindConfig ''Could not stage swap material, nothing was changed''), discard_staging staged w)
                 | (None, w) \<Rightarrow> stage_items items (staged @ [path]) w)))"

definition stage_overlap_material ::
  "string \<Rightarrow> string \<Rightarrow> jtext \<Rightarrow> string \<Rightarrow> string \<Rightarrow> jtext \<Rightarrow> world \<Rightarrow> (go_err + string list) \<times> world" where
  "stage_overlap_material num_a creds_a config_a num_b creds_b config_b =
     stage_items [(staging_path ''creds'' num_a, TRaw creds_a), (staging_path ''config'' num_a, config_a),
                  (staging_path ''creds'' num_b, TRaw creds_b), (staging_path ''config'' num_b, config_b)] []"

section \<open>Swapping two accounts\<close>

text \<open>The exchange through a \<open>.swapping\<close> name; \<open>(failed, staging)\<close> are the code's \<open>opErr\<close> and \<open>staging\<close>.\<close>

definition swap_session_dirs :: "string \<Rightarrow> string \<Rightarrow> string \<Rightarrow> string \<Rightarrow> world \<Rightarrow> world" where
  "swap_session_dirs num_a email_a num_b email_b w =
     (let dir_a = session_dir num_a email_a w; dir_b = session_dir num_b email_b w;
          new_a = session_dir num_b email_a w; new_b = session_dir num_a email_b w;
          parked = dir_a @ ''.swapping'';
          ((failed, staging), w) =
            (if dir_exists dir_a w
             then (case rename_dir dir_a parked w of (Some _, w) \<Rightarrow> ((True, False), w) | (None, w) \<Rightarrow> ((False, True), w))
             else ((False, False), w));
          (failed, w) =
            (if \<not> failed \<and> dir_exists dir_b w \<and> \<not> dir_exists new_b w
             then (case rename_dir dir_b new_b w of (Some _, w) \<Rightarrow> (True, w) | (None, w) \<Rightarrow> (False, w))
             else (failed, w));
          (staging, w) =
            (if \<not> failed \<and> staging \<and> \<not> dir_exists new_a w
             then (case rename_dir parked new_a w of (Some _, w) \<Rightarrow> (True, w) | (None, w) \<Rightarrow> (False, w))
             else (staging, w))
      in if staging \<and> \<not> dir_exists dir_a w then ignoring (rename_dir parked dir_a) w else w)"

text \<open>One restore of the rollback: \<open>(failed, world)\<close>.\<close>

definition restore_creds :: "bool \<Rightarrow> string \<Rightarrow> string \<Rightarrow> string \<Rightarrow> world \<Rightarrow> bool \<times> world" where
  "restore_creds overlap num email original w =
     (if original \<noteq> [] then (case write_account_credentials num email original w of (e, w) \<Rightarrow> (e \<noteq> None, w))
      else if overlap then (case delete_backup_strict num email w of (e, w) \<Rightarrow> (e \<noteq> None, w))
      else (False, w))"

definition restore_config :: "bool \<Rightarrow> string \<Rightarrow> string \<Rightarrow> jtext \<Rightarrow> world \<Rightarrow> bool \<times> world" where
  "restore_config overlap num email original w =
     (if original \<noteq> empty_text then (case write_account_config num email original w of (e, w) \<Rightarrow> (e \<noteq> None, w))
      else if overlap then (case delete_config_backup num email w of (e, w) \<Rightarrow> (e \<noteq> None, w))
      else (False, w))"

definition drop_crossed :: "string \<Rightarrow> string \<Rightarrow> world \<Rightarrow> bool \<times> world" where
  "drop_crossed num email w = (case delete_config_backup num email (delete_backup num email w) of (e, w) \<Rightarrow> (e \<noteq> None, w))"

definition drop_prev_of :: "string \<Rightarrow> string \<Rightarrow> string \<Rightarrow> world \<Rightarrow> world" where
  "drop_prev_of creds num email w = (if creds \<noteq> [] then delete_prev num email w else w)"

definition rollback_swap ::
  "string \<Rightarrow> string \<Rightarrow> string \<Rightarrow> jtext \<Rightarrow> string \<Rightarrow> string \<Rightarrow> string \<Rightarrow> jtext \<Rightarrow> string list \<Rightarrow> world \<Rightarrow> world" where
  "rollback_swap num_a email_a creds_a config_a num_b email_b creds_b config_b staging w =
     (let w = swap_session_dirs num_b email_a num_a email_b w; overlap = (email_a = email_b);
          (f1, w) = restore_creds overlap num_a email_a creds_a w;
          (f2, w) = restore_config overlap num_a email_a config_a w;
          (f3, w) = restore_creds overlap num_b email_b creds_b w;
          (f4, w) = restore_config overlap num_b email_b config_b w;
          (f5, w) = (if overlap then (False, w) else drop_crossed num_b email_a w);
          (f6, w) = (if overlap then (False, w) else drop_crossed num_a email_b w);
          failed = (f1 \<or> f2 \<or> f3 \<or> f4 \<or> f5 \<or> f6);
          w = (if failed then w else drop_prev_of creds_b num_b email_b (drop_prev_of creds_a num_a email_a w))
      in if failed then w else discard_staging staging w)"

definition swap_resolve_err :: "go_err \<Rightarrow> string \<Rightarrow> go_err" where
  "swap_resolve_err e identifier =
     (case e of
        Err KindAccountNotFound _ \<Rightarrow> Err KindAccountNotFound (''No account found with identifier: '' @ identifier)
      | _ \<Rightarrow> e)"

text \<open>The mutation up to the commit; the staged paths are returned on every outcome.\<close>

definition swap_run ::
  "seq_data \<Rightarrow> string \<Rightarrow> string \<Rightarrow> string \<Rightarrow> jtext \<Rightarrow> string \<Rightarrow> string \<Rightarrow> string \<Rightarrow> jtext \<Rightarrow> world
   \<Rightarrow> (go_err option \<times> string list) \<times> world" where
  "swap_run new_d num_a email_a creds_a config_a num_b email_b creds_b config_b w =
     (case (if email_a = email_b
            then stage_overlap_material num_a creds_a config_a num_b creds_b config_b w
            else (Inr [], w)) of
        (Inl e, w) \<Rightarrow> ((Some e, []), w)
      | (Inr staging, w) \<Rightarrow>
          (case and_then (write_or_clear_creds num_b email_a creds_a)
                 (and_then (write_or_clear_config num_b email_a config_a)
                   (and_then (write_or_clear_creds num_a email_b creds_b)
                     (and_then (write_or_clear_config num_a email_b config_b) (write_sequence new_d))))
                 (swap_session_dirs num_a email_a num_b email_b w) of
             (e, w) \<Rightarrow> ((e, staging), w)))"

definition swap_finish ::
  "string \<Rightarrow> string \<Rightarrow> string \<Rightarrow> string \<Rightarrow> string \<Rightarrow> string \<Rightarrow> string list \<Rightarrow> world \<Rightarrow> world" where
  "swap_finish num_a email_a creds_a num_b email_b creds_b staging w =
     (let w = (if email_a \<noteq> email_b
               then ignoring (delete_account_files num_b email_b) (ignoring (delete_account_files num_a email_a) w) else w);
          w = drop_prev_of creds_a num_b email_a w; w = drop_prev_of creds_b num_a email_b w
      in discard_staging staging w)"

text \<open>The swap proper, once both identifiers are resolved.\<close>

definition swap_resolved ::
  "seq_data \<Rightarrow> string \<Rightarrow> string \<Rightarrow> json \<Rightarrow> json \<Rightarrow> world \<Rightarrow> go_err option \<times> world" where
  "swap_resolved d num_a num_b raw_a raw_b w =
     (let email_a = str_field (decode_record raw_a) ''email''; email_b = str_field (decode_record raw_b) ''email''
      in (case ensure_no_live_session num_a email_a ''--swap-accounts'' w of
            Some e \<Rightarrow> (Some e, w)
          | None \<Rightarrow>
         (case ensure_no_live_session num_b email_b ''--swap-accounts'' w of
            Some e \<Rightarrow> (Some e, w)
          | None \<Rightarrow>
              (let (creds_a, w) = read_account_credentials num_a email_a w;
                   (creds_b, w) = read_account_credentials num_b email_b w;
                   (config_a, w) = read_config_quiet num_a email_a w;
                   (config_b, w) = read_config_quiet num_b email_b w
               in (case swap_run (swap_roster (w_stamp w) num_a num_b raw_a raw_b d)
                          num_a email_a creds_a config_a num_b email_b creds_b config_b w of
                     ((Some e, staging), w) \<Rightarrow>
                       (Some e, rollback_swap num_a email_a creds_a config_a num_b email_b creds_b config_b staging w)
                   | ((None, staging), w) \<Rightarrow> (None, swap_finish num_a email_a creds_a num_b email_b creds_b staging w))))))"

definition swap_accounts_locked :: "seq_data \<Rightarrow> string \<Rightarrow> string \<Rightarrow> world \<Rightarrow> (go_err + string \<times> string) \<times> world" where
  "swap_accounts_locked d first second w =
     (case resolve_account first w of
        (Inl e, w) \<Rightarrow> (Inl (swap_resolve_err e first), w)
      | (Inr (num_a, _, _), w) \<Rightarrow>
          (case resolve_account second w of
             (Inl e, w) \<Rightarrow> (Inl (swap_resolve_err e second), w)
           | (Inr (num_b, _, _), w) \<Rightarrow>
               if num_a = num_b then (Inl (Err KindValidation ''Cannot swap an account with itself''), w)
               else (case (map_of (accounts d) num_a, map_of (accounts d) num_b) of
                       (None, _) \<Rightarrow> (Inl (not_found num_a), w)
                     | (_, None) \<Rightarrow> (Inl (not_found num_b), w)
                     | (Some raw_a, Some raw_b) \<Rightarrow>
                         (case swap_resolved d num_a num_b raw_a raw_b w of
                            (Some e, w) \<Rightarrow> (Inl e, w) | (None, w) \<Rightarrow> (Inr (num_a, num_b), w)))))"

section \<open>The commands\<close>

definition no_accounts :: go_err where
  "no_accounts = Err KindConfig ''No accounts are managed yet''"

definition swap_accounts :: "string \<Rightarrow> string \<Rightarrow> world \<Rightarrow> (go_err + string \<times> string) \<times> world" where
  "swap_accounts first second w =
     (if seq_file w = SeqMissing then (Inl no_accounts, w)
      else with_roster_locked (\<lambda>d. swap_accounts_locked d first second) w)"

definition move_body :: "string \<Rightarrow> string \<Rightarrow> int \<Rightarrow> seq_data \<Rightarrow> world \<Rightarrow> (go_err + string \<times> string \<times> bool) \<times> world" where
  "move_body account target tnum d w =
     (case resolve_account account w of
        (Inl e, w) \<Rightarrow> (Inl e, w)
      | (Inr (src, _, _), w) \<Rightarrow>
          if tnum > max 99 (max_slot (gm_keys (accounts d)))
          then (Inl (Err KindValidation (''Target slot '' @ target @ '' is out of range'')), w)
          else if src = target then (Inr (src, target, False), w)
          else if map_of (accounts d) target \<noteq> None
          then (case swap_accounts_locked d src target w of
                  (Inl e, w) \<Rightarrow> (Inl e, w) | (Inr _, w) \<Rightarrow> (Inr (src, target, True), w))
          else (case relocate_locked d src target w of
                  (Some e, w) \<Rightarrow> (Inl e, w) | (None, w) \<Rightarrow> (Inr (src, target, False), w)))"

definition move_account :: "string \<Rightarrow> string \<Rightarrow> world \<Rightarrow> (go_err + string \<times> string \<times> bool) \<times> world" where
  "move_account account target w =
     (if seq_file w = SeqMissing then (Inl no_accounts, w)
      else (case parse_slot (trim_space target) of
              None \<Rightarrow> (Inl (Err KindValidation ''Target slot must be a positive slot number''), w)
            | Some tnum \<Rightarrow>
                if tnum < 1 then (Inl (Err KindValidation ''Target slot must be a positive slot number''), w)
                else with_roster_locked (move_body account (itoa tnum) tnum) w))"

section \<open>What a move touches\<close>

lemma touches_write_or_clear [frames]:
  "touches R w w1 \<Longrightarrow> slot_resources num email w \<subseteq> R \<Longrightarrow> touches R w (snd (write_or_clear_creds num email c w1))"
  "touches R w w1 \<Longrightarrow> slot_resources num email w \<subseteq> R \<Longrightarrow> touches R w (snd (write_or_clear_config num email g w1))"
  unfolding write_or_clear_creds_def write_or_clear_config_def write_or_clear_def
  by (intro frames; simp add: slot_resources_def)+

lemma touches_move_dir [frames]:
  "touches R w w1 \<Longrightarrow> RProfile a \<in> R \<Longrightarrow> RProfile b \<in> R \<Longrightarrow> touches R w (move_dir a b w1)"
  unfolding move_dir_def by (intro frames; simp)

lemma touches_relocate_undo [frames]:
  "touches R w w1 \<Longrightarrow> slot_resources target email w \<subseteq> R \<Longrightarrow> RProfile a \<in> R \<Longrightarrow> RProfile b \<in> R \<Longrightarrow>
   touches R w (relocate_undo a b target email w1)"
  unfolding relocate_undo_def by (intro frames; simp add: slot_resources_def)

definition move_resources :: "string \<Rightarrow> string \<Rightarrow> string \<Rightarrow> world \<Rightarrow> resource set" where
  "move_resources target email src_dir w = slot_resources target email w \<union> {RProfile src_dir, RProfile (session_dir target email w)}"

lemma and_then_err:
  "fst (and_then f g w1) \<noteq> None \<Longrightarrow> touches R w (snd (f w1)) \<Longrightarrow>
   (\<And>w2. touches R w w2 \<Longrightarrow> fst (g w2) \<noteq> None \<Longrightarrow> touches R w (snd (g w2))) \<Longrightarrow>
   touches R w (snd (and_then f g w1))"
  by (cases "f w1") (auto simp: and_then_def split: option.splits)

lemma write_sequence_err:
  "fst (write_sequence d w1) \<noteq> None \<Longrightarrow> touches R w w1 \<Longrightarrow> touches R w (snd (write_sequence d w1))"
  unfolding write_sequence_def
  by (cases "os_atomic (\<lambda>w. w\<lparr>seq_file := SeqRoster d\<rparr>) w1") (auto dest!: os_atomic_Some intro: touches_trans touches_mono)

lemma relocate_run_failed:
  assumes "relocate_run d a (session_dir target email w) target email c g w = (Some e, w')"
  shows "touches (move_resources target email a w) w w'"
proof -
  have "touches (move_resources target email a w) w (snd (relocate_run d a (session_dir target email w) target email c g w))"
    using assms unfolding relocate_run_def
    by (intro and_then_err write_sequence_err frames) (auto simp: move_resources_def)
  with assms show ?thesis by simp
qed

lemma same_slot_prev_apart:
  "backup_enc_path n e \<noteq> prev_backup_path n e" "backup_username n e \<noteq> prev_backup_username n e"
  by (simp_all add: backup_enc_path_def prev_backup_path_def prev_backup_username_def)

lemma touches_delete_prev_only:
  "touches {RCredFile (prev_backup_path num email), RKeychain (security_service, prev_backup_username num email)} w
     (delete_prev num email w)"
  unfolding delete_prev_def by (intro frames; simp)

lemma delete_prev_keeps: "backup_of num email (delete_prev num email w) = backup_of num email w"
  by (rule backup_of_touches [OF touches_delete_prev_only]) (use same_slot_prev_apart [of num email] in auto)

lemma touches_delete_backup_main:
  "touches (backup_resources num email \<union> backup_resources ''None'' email) w (delete_backup num email w)"
  by (intro frames; simp)

lemma remove_missing_idle: "faults w = [] \<Longrightarrow> fst (remove_missing_ok p w) = None"
  by (simp add: remove_missing_ok_def remove_cred_file_def os_call_quiet)

lemma kc_delete_idle: "faults w = [] \<Longrightarrow> fst (kc_delete svc acct w) = None"
  by (simp add: kc_delete_def kc_raw_delete_def kc_call_quiet)

lemma delete_backup_strict_idle:
  assumes "faults w = []"
  shows "fst (delete_backup_strict num email w) = None"
proof -
  let ?p = "backup_enc_path num email" and ?k = "(security_service, backup_username num email)"
  let ?R = "backup_resources num email \<union> backup_resources ''None'' email"
  define w0 where "w0 = delete_backup num email w"
  have f0: "faults w0 = []" using touches_delete_backup_main assms unfolding w0_def by (rule touches_idle)
  obtain w1 where 1: "remove_missing_ok ?p w0 = (None, w1)"
    using remove_missing_idle [OF f0, of ?p] by (cases "remove_missing_ok ?p w0") auto
  have t1: "touches ?R w0 w1" by (rule touches_result [OF 1]) (intro frames; simp add: backup_resources_def)
  have f1: "faults w1 = []" using t1 f0 by (rule touches_idle)
  obtain w2 where 2: "(if macos w1 then kc_delete security_service (backup_username num email) w1 else (None, w1)) = (None, w2)"
    using kc_delete_idle [OF f1, of security_service "backup_username num email"]
    by (cases "macos w1"; cases "kc_delete security_service (backup_username num email) w1") auto
  have t2: "touches {RKeychain ?k} w1 w2"
    using 2 touches_kc_delete [of "{RKeychain ?k}" w1 w1] by (auto split: if_splits)
  have "cred_files w2 ?p = None"
    using remove_missing_ok_ok [OF 1] touches_same [OF t2, of "RCredFile ?p"] by simp
  moreover have "macos w2 \<longrightarrow> keychain w2 ?k = None"
    using 2 touches_facts(1) [OF t2] by (auto split: if_splits dest: kc_delete_ok)
  ultimately have "backup_of num email w2 = []" by (simp add: backup_of_def enc_val_def or_empty_def)
  then have "fst (read_backup num email w2) = []" using read_backup_idle [OF touches_idle [OF t2 f1]] by simp
  then show ?thesis
    using 1 2 unfolding w0_def by (cases "read_backup num email w2") (simp add: delete_backup_strict_def)
qed


lemma delete_backup_one_idle:
  assumes "faults w = []"
  shows "backup_of num email (delete_backup_one num email w) = []"
proof -
  define w1 where "w1 = (if cred_file_exists (backup_enc_path num email) w then ignoring (remove_cred_file (backup_enc_path num email)) w else w)"
  define w2 where "w2 = (if macos w1 then delete_backup_keychain_quiet num email w1 else w1)"
  have w1: "faults w1 = []" "cred_files w1 (backup_enc_path num email) = None"
    using assms by (auto simp: w1_def cred_file_exists_def ignoring_def remove_cred_file_def os_call_quiet)
  have w2: "cred_files w2 (backup_enc_path num email) = None"
    "macos w2 \<longrightarrow> keychain w2 (security_service, backup_username num email) = None"
    using w1 by (auto simp: w2_def delete_backup_keychain_quiet_def ignoring_def kc_delete_def kc_raw_delete_def kc_call_quiet)
  have "backup_of num email (delete_prev num email w2) = []"
    unfolding delete_prev_keeps using w2 by (simp add: backup_of_def enc_val_def or_empty_def)
  then show ?thesis unfolding delete_backup_one_def Let_def w1_def [symmetric] w2_def [symmetric] .
qed

lemma delete_backup_idle:
  assumes "faults w = []" "is_digits num"
  shows "backup_of num email (delete_backup num email w) = []"
proof -
  have t: "touches (backup_resources ''None'' email) v (delete_backup_one ''None'' email v)" for v by (intro frames; simp)
  have "num \<noteq> ''None''" using assms(2) by (auto simp: is_digits_def is_digit_def)
  then show ?thesis
    using delete_backup_one_idle [OF assms(1), of num email] none_names_apart [OF assms(2)]
    by (simp add: delete_backup_def) (subst backup_of_touches [OF t]; auto simp: backup_resources_def)
qed

lemma delete_config_idle:
  assumes "faults w = []"
  shows "fst (delete_config_backup num email w) = None
    \<and> config_of num email (snd (delete_config_backup num email w)) = empty_text"
  using assms
  by (simp add: delete_config_backup_def remove_config_file_def os_call_quiet config_of_def Let_def)

lemma delete_account_files_idle:
  assumes "faults w = []" "is_digits num" "live_session_pids_for num email w = []"
  shows "backup_of num email (ignoring (delete_account_files num email) w) = []
    \<and> config_of num email (ignoring (delete_account_files num email) w) = empty_text"
proof -
  define w1 where "w1 = delete_backup num email w"
  have b: "backup_of num email w1 = []" unfolding w1_def by (rule delete_backup_idle [OF assms(1,2)])
  have "touches (backup_resources num email \<union> backup_resources ''None'' email) w w1"
    unfolding w1_def by (rule touches_delete_backup_main)
  then have f1: "faults w1 = []" using assms(1) by (rule touches_idle)
  obtain w2 where d: "delete_config_backup num email w1 = (None, w2)" and g: "config_of num email w2 = empty_text"
    using delete_config_idle [OF f1, of num email] by (cases "delete_config_backup num email w1") auto
  have "touches {RConfigFile (config_backup_path num email)} w1 w2" by (rule touches_result [OF d]) (intro frames; simp)
  then have b2: "backup_of num email w2 = []" using b by (subst backup_of_touches) auto
  have e: "ignoring (delete_account_files num email) w = delete_slot_profile num email w2"
    using assms(3) d by (simp add: delete_account_files_def ignoring_def ensure_no_live_session_def w1_def)
  have t: "touches (profile_resources (session_dir num email w2) w2) w2 (delete_slot_profile num email w2)"
    by (intro frames; simp)
  have "backup_of num email (delete_slot_profile num email w2) = backup_of num email w2"
    by (rule backup_of_touches [OF t]) (auto simp: profile_resources_def)
  moreover have "config_of num email (delete_slot_profile num email w2) = config_of num email w2"
    by (rule config_of_touches [OF t]) (auto simp: profile_resources_def)
  ultimately show ?thesis unfolding e using b2 g by simp
qed

definition truthful_reads :: "string \<Rightarrow> string \<Rightarrow> world \<Rightarrow> bool" where
  "truthful_reads num email w \<longleftrightarrow>
     fst (read_account_credentials num email w) = backup_of num email w
     \<and> fst (read_config_quiet num email (snd (read_account_credentials num email w))) = config_of num email w"


lemma touches_read_account [frames]:
  "touches R w w1 \<Longrightarrow> touches R w (snd (read_account_credentials num email w1))"
  unfolding read_account_credentials_def by (intro frames; simp)

lemma touches_session_resources:
  "touches R w w' \<Longrightarrow> slot_resources num email w' = slot_resources num email w"
  "touches R w w' \<Longrightarrow> move_resources target email a w' = move_resources target email a w"
  by (simp_all add: slot_resources_def move_resources_def touches_names)

text \<open>
  The work of a move up to its commit, with what the two reads returned: the e-mail of the account, and
  how \<open>relocate_run\<close> ended.
\<close>

definition move_attempt :: "seq_data \<Rightarrow> string \<Rightarrow> string \<Rightarrow> world \<Rightarrow> string \<times> go_err option \<times> world" where
  "move_attempt d src target w =
     (let raw = the (map_of (accounts d) src); email = str_field (decode_record raw) ''email'';
          (creds, v) = read_account_credentials src email w; (config, v) = read_config_quiet src email v
      in (email, relocate_run (relocate_roster (w_stamp w) src target raw d)
                   (session_dir src email w) (session_dir target email w) target email creds config v))"

lemma relocate_failed:
  assumes "relocate_locked d src target w = (Some e, w')" "w' \<noteq> w"
  obtains email v where "move_attempt d src target w = (email, Some e, v)"
    "w' = relocate_undo (session_dir src email w) (session_dir target email w) target email v"
    "touches (move_resources target email (session_dir src email w) w) w v"
proof -
  obtain raw where raw: "map_of (accounts d) src = Some raw" "map_of (accounts d) target = None"
    using assms by (auto simp: relocate_locked_def split: option.splits if_splits)
  define email where "email = str_field (decode_record raw) ''email''"
  obtain c w1 where c: "read_account_credentials src email w = (c, w1)" by fastforce
  obtain g w2 where g: "read_config_quiet src email w1 = (g, w2)" by fastforce
  have t1: "touches {} w w1" by (rule touches_result [OF c]) (intro frames; simp)
  have t2: "touches {} w w2" by (rule touches_result [OF g]) (intro frames t1)
  obtain v where v: "relocate_run (relocate_roster (w_stamp w) src target raw d) (session_dir src email w)
       (session_dir target email w) target email c g w2 = (Some e, v)"
    "w' = relocate_undo (session_dir src email w) (session_dir target email w) target email v"
    using assms raw c g touches_names(1) [OF t2] touches_facts(3) [OF t2]
    by (auto simp: relocate_locked_def email_def Let_def split: option.splits prod.splits)
  have "touches (move_resources target email (session_dir src email w) w2) w2 v"
    using relocate_run_failed [of _ _ target email w2] v(1) touches_names(1) [OF t2] by simp
  then have "touches (move_resources target email (session_dir src email w) w) w v"
    using t2 touches_session_resources(2) [OF t2] by (auto intro: touches_trans touches_mono)
  moreover have "move_attempt d src target w = (email, Some e, v)"
    using raw c g v(1) by (simp add: move_attempt_def email_def Let_def)
  ultimately show ?thesis using that v(2) by blast
qed

lemma relocate_locked_attempt:
  assumes "map_of (accounts d) src = Some raw" "map_of (accounts d) target = None"
    "live_session_pids_for src email w = []" "move_attempt d src target w = (email, Some e, v)"
  shows "relocate_locked d src target w
    = (Some e, relocate_undo (session_dir src email w) (session_dir target email w) target email v)"
proof -
  obtain c w1 where c: "read_account_credentials src email w = (c, w1)" by fastforce
  obtain g w2 where g: "read_config_quiet src email w1 = (g, w2)" by fastforce
  have t1: "touches {} w w1" by (rule touches_result [OF c]) (intro frames; simp)
  have t2: "touches {} w w2" by (rule touches_result [OF g]) (intro frames t1)
  have m: "email = str_field (decode_record raw) ''email''"
    using assms(1,4) by (simp add: move_attempt_def Let_def split: prod.splits)
  show ?thesis
    using assms c g touches_names(1) [OF t2] touches_facts(3) [OF t2]
    by (simp add: relocate_locked_def move_attempt_def ensure_no_live_session_def Let_def flip: m)
qed

lemma relocate_undo_empties:
  assumes "faults v = []" "is_digits target"
  shows "backup_of target email (relocate_undo a b target email v) = []
    \<and> config_of target email (relocate_undo a b target email v) = empty_text"
proof -
  define v1 where "v1 = delete_backup target email v"
  define v2 where "v2 = ignoring (delete_config_backup target email) v1"
  have b: "backup_of target email v1 = []" unfolding v1_def by (rule delete_backup_idle [OF assms])
  have "touches (backup_resources target email \<union> backup_resources ''None'' email) v v1"
    unfolding v1_def by (rule touches_delete_backup_main)
  then have "faults v1 = []" using assms(1) by (rule touches_idle)
  then have g: "config_of target email v2 = empty_text"
    using delete_config_idle unfolding v2_def ignoring_def by blast
  have "touches {RConfigFile (config_backup_path target email)} v1 v2"
    unfolding v2_def delete_config_backup_def by (intro frames; simp)
  then have b2: "backup_of target email v2 = []" using b by (subst backup_of_touches) auto
  have t: "touches (range RProfile) v2 (move_dir b a v2)" by (intro frames; simp)
  have "backup_of target email (move_dir b a v2) = backup_of target email v2"
    by (rule backup_of_touches [OF t]) auto
  moreover have "config_of target email (move_dir b a v2) = config_of target email v2"
    by (rule config_of_touches [OF t]) auto
  ultimately show ?thesis using b2 g by (simp add: relocate_undo_def v1_def v2_def)
qed

lemma slots_apart_move:
  assumes "touches (move_resources target email a w) w w'" "is_digits n" "is_digits target" "n \<noteq> target"
  shows "backup_of n e w' = backup_of n e w \<and> config_of n e w' = config_of n e w"
proof
  show "backup_of n e w' = backup_of n e w"
    using assms(1) slot_names_apart [OF assms(3,2)] none_names_apart [OF assms(2)] assms(4)
    by (intro backup_of_touches) (auto simp: backup_resources_def slot_resources_def profile_resources_def move_resources_def)
  show "config_of n e w' = config_of n e w"
    using assms(1) config_paths_apart [OF assms(3,2)] assms(4)
    by (intro config_of_touches) (auto simp: slot_resources_def backup_resources_def profile_resources_def move_resources_def)
qed

text \<open>
  Property C23: a move that fails has moved nothing. Whatever call fails, and whatever the rollback
  itself meets, an error from the locked move leaves the roster file as it was, and the credential and
  configuration backups of the source and of every other slot but the target as they were. The target
  was an empty slot; what the move had already written there is cleared again, as far as the rollback's
  own calls succeed: either nothing was touched at all, or the attempt failed at a point \<open>v\<close> from which,
  if no further call fails, neither a credential nor a configuration is left under the target.
\<close>

theorem failed_move_harmless:
  assumes "relocate_locked d src target w = (Some e, w')" "is_digits target"
  shows "seq_file w' = seq_file w
    \<and> (\<forall>n m. is_digits n \<and> n \<noteq> target \<longrightarrow> backup_of n m w' = backup_of n m w \<and> config_of n m w' = config_of n m w)
    \<and> (w' = w \<or> (\<exists>email v. move_attempt d src target w = (email, Some e, v)
         \<and> (faults v = [] \<longrightarrow> backup_of target email w' = [] \<and> config_of target email w' = empty_text)))"
proof (cases "w' = w")
  case False
  from relocate_failed [OF assms(1) False] obtain email v
    where v: "move_attempt d src target w = (email, Some e, v)"
      "w' = relocate_undo (session_dir src email w) (session_dir target email w) target email v"
      and tv: "touches (move_resources target email (session_dir src email w) w) w v" by metis
  have t: "touches (move_resources target email (session_dir src email w) w) w w'"
    unfolding v(2) by (intro frames tv) (auto simp: move_resources_def)
  have "seq_file w' = seq_file w"
    using touches_same [OF t, of RSeq]
    by (simp add: move_resources_def slot_resources_def backup_resources_def profile_resources_def)
  then show ?thesis
    using slots_apart_move [OF t _ assms(2)] v(1) relocate_undo_empties [OF _ assms(2)] unfolding v(2) by blast
qed simp

lemma relocate_run_ok:
  assumes "relocate_run d a b target email c g w = (None, w')"
  shows "seq_file w' = SeqRoster d \<and> backup_of target email w' = c \<and> config_of target email w' = g"
proof -
  obtain w1 w2 where 1: "write_or_clear_creds target email c (move_dir a b w) = (None, w1)"
    and 2: "write_or_clear_config target email g w1 = (None, w2)" and 3: "write_sequence d w2 = (None, w')"
    using assms unfolding relocate_run_def and_then_None by blast
  have c: "backup_of target email w1 = c" using 1 accounts.write_or_clear_ok unfolding write_or_clear_creds_def by blast
  have g: "config_of target email w2 = g" using 2 configs.write_or_clear_ok unfolding write_or_clear_config_def by blast
  have "touches {RConfigFile (config_backup_path target email)} w1 w2"
    by (rule touches_result [OF 2]) (unfold write_or_clear_config_def write_or_clear_def, intro frames; simp)
  then have c2: "backup_of target email w2 = c" using c by (subst backup_of_touches) auto
  have "touches {RSeq} w2 w'" by (rule touches_result [OF 3]) (intro frames; simp)
  then show ?thesis using c2 g write_sequence_ok [OF 3] backup_of_touches config_of_touches by fastforce
qed

text \<open>Slots outside a set of touched slots keep both backups.\<close>

definition slots_and_rest :: "string set \<Rightarrow> world \<Rightarrow> resource set" where
  "slots_and_rest N w = (\<Union>x\<in>N. \<Union>e. slot_resources x e w) \<union> {RSeq} \<union> range RProfile \<union> range RStaging"

lemma slots_and_rest_mem [simp]:
  "x \<in> N \<Longrightarrow> slot_resources x e w \<subseteq> slots_and_rest N w" "RSeq \<in> slots_and_rest N w"
  "RProfile p \<in> slots_and_rest N w" "RStaging p \<in> slots_and_rest N w"
  by (auto simp: slots_and_rest_def)

lemma other_slot_kept:
  assumes "touches R w w'" "R \<subseteq> slots_and_rest N w0" "is_digits n" "\<forall>x\<in>N. is_digits x" "n \<notin> N"
  shows "backup_of n m w' = backup_of n m w \<and> config_of n m w' = config_of n m w"
proof
  have a: "is_digits x" "x \<noteq> n" if "x \<in> N" for x using assms(4,5) that by auto
  have "RCredFile (backup_enc_path n m) \<notin> slots_and_rest N w0"
    "RKeychain (security_service, backup_username n m) \<notin> slots_and_rest N w0"
    using slot_names_apart [OF a(1) assms(3) a(2)] none_names_apart [OF assms(3)]
    by (force simp: slots_and_rest_def slot_resources_def backup_resources_def profile_resources_def)+
  with assms(2) show "backup_of n m w' = backup_of n m w"
    by (intro backup_of_touches [OF assms(1)]) auto
  have "RConfigFile (config_backup_path n m) \<notin> slots_and_rest N w0"
    using config_paths_apart [OF a(1) assms(3) a(2)]
    by (force simp: slots_and_rest_def slot_resources_def backup_resources_def profile_resources_def)
  with assms(2) show "config_of n m w' = config_of n m w"
    by (intro config_of_touches [OF assms(1)]) auto
qed

lemma touches_relocate_run [frames]:
  "touches R w w1 \<Longrightarrow> slot_resources target email w \<subseteq> R \<Longrightarrow> RProfile a \<in> R \<Longrightarrow> RProfile b \<in> R \<Longrightarrow> RSeq \<in> R \<Longrightarrow>
   touches R w (snd (relocate_run d a b target email c g w1))"
  unfolding relocate_run_def by (intro frames; simp)

lemma enc_not_prev: "backup_enc_path n e \<noteq> prev_backup_path n' e'"
proof
  assume "backup_enc_path n e = prev_backup_path n' e'"
  then have "last (backup_enc_path n e) = last (prev_backup_path n' e')" by simp
  then show False by (simp add: backup_enc_path_def prev_backup_path_def)
qed

lemma drop_prev_of_keeps: "backup_of n e (drop_prev_of c m e' w) = backup_of n e w \<and> config_of n e (drop_prev_of c m e' w) = config_of n e w"
  if "n = m \<and> e = e' \<or> is_digits n \<and> is_digits m \<and> n \<noteq> m"
proof (cases "c = []")
  case False
  have "backup_enc_path n e \<noteq> prev_backup_path m e'" by (rule enc_not_prev)
  moreover have "backup_username n e \<noteq> prev_backup_username m e'"
    using that slot_names_apart(4) [of m n e e'] same_slot_prev_apart by blast
  ultimately show ?thesis using False
      backup_of_touches [OF touches_delete_prev_only [of m e' w], of n e]
      config_of_touches [OF touches_delete_prev_only [of m e' w], of n e] by (simp add: drop_prev_of_def)
qed (simp add: drop_prev_of_def)

text \<open>
  Property C24: a move that succeeds has moved everything. If the source's own backups could be read
  (which the code does not check, see \<open>move_loses_unread_backup\<close>), a successful locked move leaves the
  source's credential and configuration under the target, commits the roster with the account's record,
  rotation entry and active mark renumbered, and changes no third slot, whatever failed after the commit.
  The source's files are deleted after the commit with the error ignored: when no call fails, neither a
  credential nor a configuration is left under the source.
\<close>

theorem move_carries_backups:
  assumes "relocate_locked d src target w = (None, w')" "map_of (accounts d) src = Some raw"
    "email = str_field (decode_record raw) ''email''" "truthful_reads src email w"
    "is_digits src" "is_digits target" "src \<noteq> target"
  shows "seq_file w' = SeqRoster (relocate_roster (w_stamp w) src target raw d)
    \<and> backup_of target email w' = backup_of src email w \<and> config_of target email w' = config_of src email w
    \<and> (\<forall>n m. is_digits n \<and> n \<notin> {src, target} \<longrightarrow> backup_of n m w' = backup_of n m w \<and> config_of n m w' = config_of n m w)
    \<and> (faults w = [] \<longrightarrow> backup_of src email w' = [] \<and> config_of src email w' = empty_text)"
proof -
  obtain c w1 where c: "read_account_credentials src email w = (c, w1)" by fastforce
  obtain g w2 where g: "read_config_quiet src email w1 = (g, w2)" by fastforce
  have t1: "touches {} w w1" by (rule touches_result [OF c]) (intro frames; simp)
  have t2: "touches {} w w2" by (rule touches_result [OF g]) (intro frames t1)
  let ?d = "relocate_roster (w_stamp w) src target raw d"
  obtain w3 where r: "relocate_run ?d (session_dir src email w) (session_dir target email w) target email c g w2 = (None, w3)"
    and live: "live_session_pids_for src email w = []"
    and w': "w' = (let w = ignoring (delete_account_files src email) w3 in if c \<noteq> [] then delete_prev target email w else w)"
    using assms(1-3) c g touches_names(1) [OF t2] touches_facts(3) [OF t2]
    by (auto simp: relocate_locked_def ensure_no_live_session_def Let_def split: option.splits prod.splits if_splits)
  define w4 where "w4 = ignoring (delete_account_files src email) w3"
  have ok: "seq_file w3 = SeqRoster ?d" "backup_of target email w3 = backup_of src email w" "config_of target email w3 = config_of src email w"
    using relocate_run_ok [OF r] assms(4) c g by (auto simp: truthful_reads_def)
  have t4: "touches (slot_resources src email w3) w3 w4" unfolding w4_def by (intro frames; simp)
  have seq4: "seq_file w4 = SeqRoster ?d"
    using ok(1) touches_same [OF t4, of RSeq] by (simp add: slot_resources_def backup_resources_def profile_resources_def)
  have "slot_resources src email w3 \<subseteq> slots_and_rest {src} w3" by simp
  from other_slot_kept [OF t4 this, of target email] ok(2,3) assms(5-7)
  have tgt4: "backup_of target email w4 = backup_of src email w \<and> config_of target email w4 = config_of src email w" by simp
  have t5: "touches {RCredFile (prev_backup_path target email), RKeychain (security_service, prev_backup_username target email)} w4 w'"
    using touches_delete_prev_only by (simp add: w' w4_def Let_def)
  let ?R = "slots_and_rest {src, target} w"
  have t3: "touches ?R w w3"
    by (rule touches_result [OF r]) (intro frames touches_mono [OF t2]; simp)
  then have "touches ?R w w4"
    using t4 touches_session_resources(1) [OF t3, of src email]
    by (intro touches_trans [OF t3] touches_mono [OF t4]) simp
  then have "touches ?R w w'"
    by (rule touches_trans) (rule touches_mono [OF t5],
       use slots_and_rest_mem(1) [of target "{src, target}" email w] in \<open>auto simp: slot_resources_def backup_resources_def\<close>)
  then have others: "is_digits n \<and> n \<notin> {src, target} \<Longrightarrow> backup_of n m w' = backup_of n m w \<and> config_of n m w' = config_of n m w" for n m
    using other_slot_kept [of ?R w w' "{src, target}" w n m] assms(5,6) by auto
  have "seq_file w' = SeqRoster ?d" using seq4 touches_same [OF t5, of RSeq] by simp
  moreover have "backup_of target email w' = backup_of target email w4"
    using t5 by (rule backup_of_touches) (use same_slot_prev_apart [of target email] in auto)
  moreover have "config_of target email w' = config_of target email w4" using t5 by (rule config_of_touches) auto
  moreover have "backup_of src email w' = [] \<and> config_of src email w' = empty_text" if "faults w = []"
  proof -
    have "faults w2 = []" using t2 that by (rule touches_idle)
    moreover have "touches UNIV w2 w3" by (rule touches_result [OF r]) (intro frames; simp)
    ultimately have "faults w3 = []" using touches_idle by blast
    moreover have "live_session_pids_for src email w3 = []" using live t3 by (simp add: touches_names)
    ultimately have "backup_of src email w4 = [] \<and> config_of src email w4 = empty_text"
      unfolding w4_def by (rule delete_account_files_idle [OF _ assms(5)])
    moreover have "w' = drop_prev_of c target email w4" by (simp add: w' w4_def drop_prev_of_def Let_def)
    ultimately show ?thesis using drop_prev_of_keeps [of src target email email c w4] assms(5-7) by simp
  qed
  ultimately show ?thesis using tgt4 others by simp
qed

section \<open>Swaps\<close>

lemma config_write_keeps_creds:
  "write_or_clear_config num email g w = (e, w') \<Longrightarrow> backup_of n m w' = backup_of n m w"
  by (rule backup_of_touches [of "{RConfigFile (config_backup_path num email)}"])
    (erule touches_result, unfold write_or_clear_config_def write_or_clear_def, (intro frames; simp), simp_all)

lemma creds_write_keeps_config:
  "write_or_clear_creds num email c w = (e, w') \<Longrightarrow> config_of n m w' = config_of n m w"
  by (rule config_of_touches [of "slot_resources num email w - {RConfigFile (config_backup_path num email)}"])
    (erule touches_result, unfold write_or_clear_creds_def write_or_clear_def,
     (intro frames; auto simp: slot_resources_def backup_resources_def profile_resources_def),
     auto simp: slot_resources_def backup_resources_def profile_resources_def)

text \<open>The four crossed writes of a swap, whatever fails on the way.\<close>

lemma crossed_writes:
  assumes "and_then (write_or_clear_creds b ea ca) (and_then (write_or_clear_config b ea ga)
      (and_then (write_or_clear_creds a eb cb) (and_then (write_or_clear_config a eb gb) (write_sequence d)))) w = (None, w')"
    "is_digits a" "is_digits b" "a \<noteq> b"
  shows "seq_file w' = SeqRoster d \<and> backup_of b ea w' = ca \<and> config_of b ea w' = ga
    \<and> backup_of a eb w' = cb \<and> config_of a eb w' = gb"
proof -
  obtain w1 w2 w3 w4 where 1: "write_or_clear_creds b ea ca w = (None, w1)"
    and 2: "write_or_clear_config b ea ga w1 = (None, w2)" and 3: "write_or_clear_creds a eb cb w2 = (None, w3)"
    and 4: "write_or_clear_config a eb gb w3 = (None, w4)" and 5: "write_sequence d w4 = (None, w')"
    using assms(1) unfolding and_then_None by blast
  have "touches {RSeq} w4 w'" by (rule touches_result [OF 5]) (intro frames; simp)
  then have k: "backup_of n m w' = backup_of n m w4" "config_of n m w' = config_of n m w4" for n m
    by (auto intro: backup_of_touches config_of_touches)
  note creds_apart = accounts.write_or_clear_apart [OF assms(2,3,4), of ea eb cb w2, folded write_or_clear_creds_def]
  note configs_apart = configs.write_or_clear_apart [OF assms(2,3,4), of ea eb gb w3, folded write_or_clear_config_def]
  show ?thesis
    using k write_sequence_ok [OF 5] accounts.write_or_clear_ok [OF 1 [unfolded write_or_clear_creds_def]]
      configs.write_or_clear_ok [OF 2 [unfolded write_or_clear_config_def]]
      accounts.write_or_clear_ok [OF 3 [unfolded write_or_clear_creds_def]]
      configs.write_or_clear_ok [OF 4 [unfolded write_or_clear_config_def]]
      creds_apart configs_apart config_write_keeps_creds [OF 2] config_write_keeps_creds [OF 4]
      creds_write_keeps_config [OF 3] 3 4
    by simp
qed

text \<open>Two e-mail addresses under one slot are apart unless one is the other with \<open>.prev\<close> appended.\<close>

lemma same_slot_apart:
  assumes "touches (slot_resources n e w0) w w'" "is_digits n" "e' \<noteq> e" "e' \<noteq> e @ ''.prev''"
  shows "backup_of n e' w' = backup_of n e' w \<and> config_of n e' w' = config_of n e' w"
proof
  have "backup_enc_path n e' \<noteq> backup_enc_path n e" "backup_username n e' \<noteq> backup_username n e"
    "backup_username n e' \<noteq> prev_backup_username n e"
    using assms(3,4) by (simp_all add: backup_enc_path_def prev_backup_username_def backup_username_def)
  with none_names_apart [OF assms(2)] enc_not_prev [of n e']
  show "backup_of n e' w' = backup_of n e' w"
    by (intro backup_of_touches [OF assms(1)])
      (auto simp: slot_resources_def backup_resources_def profile_resources_def)
  show "config_of n e' w' = config_of n e' w"
    using assms(1,3) by (intro config_of_touches)
      (auto simp: slot_resources_def backup_resources_def profile_resources_def config_backup_path_def)
qed


lemma touches_discard_staging [frames]:
  "touches R w w1 \<Longrightarrow> \<forall>p. RStaging p \<in> R \<Longrightarrow> touches R w (discard_staging ps w1)"
proof (induction ps arbitrary: w1)
  case (Cons p ps)
  have "touches R w (ignoring (put_staging p None) w1)"
    unfolding put_staging_def using Cons.prems by (intro frames; simp)
  then show ?case using Cons by simp
qed simp

lemma touches_stage_items [frames]:
  "touches R w w1 \<Longrightarrow> \<forall>p. RStaging p \<in> R \<Longrightarrow> touches R w (snd (stage_items items st w1))"
proof (induction items st w1 rule: stage_items.induct)
  case (2 path content items staged w1)
  have p: "touches R w (snd (put_staging path t w2))" if "touches R w w2" for t w2
    unfolding put_staging_def using that "2.prems"(2) by (intro frames; simp)
  obtain x w2 where a: "put_staging path (Some empty_text) w1 = (x, w2)" by fastforce
  obtain y w3 where b: "put_staging path (Some content) w2 = (y, w3)" by fastforce
  have t2: "touches R w w2" using p [OF "2.prems"(1), of "Some empty_text"] a by simp
  then have t3: "touches R w w3" using p [OF t2, of "Some content"] b by simp
  show ?case
    using 2 a b t2 t3 touches_discard_staging [of R w] by (auto split: option.split)
qed simp

lemma touches_swap_dirs [frames]:
  "touches R w w1 \<Longrightarrow> range RProfile \<subseteq> R \<Longrightarrow> touches R w (swap_session_dirs a ea b eb w1)"
  unfolding swap_session_dirs_def by (intro frames; auto)

lemma touches_drop_prev_of [frames]:
  "touches R w w1 \<Longrightarrow> backup_resources n e \<subseteq> R \<Longrightarrow> touches R w (drop_prev_of c n e w1)"
  unfolding drop_prev_of_def by (intro frames; simp)

lemma swap_run_ok:
  assumes "swap_run d a ea ca ga b eb cb gb w = ((None, st), w')" "is_digits a" "is_digits b" "a \<noteq> b"
  shows "seq_file w' = SeqRoster d \<and> backup_of b ea w' = ca \<and> config_of b ea w' = ga
    \<and> backup_of a eb w' = cb \<and> config_of a eb w' = gb"
proof -
  obtain w1 where "and_then (write_or_clear_creds b ea ca) (and_then (write_or_clear_config b ea ga)
      (and_then (write_or_clear_creds a eb cb) (and_then (write_or_clear_config a eb gb) (write_sequence d)))) w1 = (None, w')"
    using assms(1) by (auto simp: swap_run_def split: prod.splits sum.splits)
  from crossed_writes [OF this assms(2-4)] show ?thesis .
qed

lemma touches_swap_run [frames]:
  assumes "touches R w w1" "slots_and_rest {a, b} w \<subseteq> R"
  shows "touches R w (snd (swap_run d a ea ca ga b eb cb gb w1))"
proof -
  have "slot_resources x e w \<subseteq> R" if "x \<in> {a, b}" for x e
    using that assms(2) slots_and_rest_mem(1) [of x "{a, b}" e w] by blast
  moreover have "\<forall>p. RStaging p \<in> R" "range RProfile \<subseteq> R" "RSeq \<in> R"
    using assms(2) by (auto simp: slots_and_rest_def)
  ultimately show ?thesis
    using assms(1) unfolding swap_run_def stage_overlap_material_def by (intro frames; simp)
qed

lemma discard_staging_keeps:
  "backup_of n e (discard_staging ps w) = backup_of n e w" "config_of n e (discard_staging ps w) = config_of n e w"
  "seq_file (discard_staging ps w) = seq_file w"
proof -
  have t: "touches (range RStaging) w (discard_staging ps w)" by (intro frames; simp)
  show "backup_of n e (discard_staging ps w) = backup_of n e w" "config_of n e (discard_staging ps w) = config_of n e w"
    "seq_file (discard_staging ps w) = seq_file w"
    using backup_of_touches [OF t] config_of_touches [OF t] touches_same [OF t, of RSeq] by auto
qed


lemma delete_files_keeps:
  assumes "is_digits n" "is_digits m" "n \<noteq> m \<or> e' \<noteq> e \<and> e' \<noteq> e @ ''.prev''"
  shows "backup_of n e' (ignoring (delete_account_files m e) w) = backup_of n e' w
    \<and> config_of n e' (ignoring (delete_account_files m e) w) = config_of n e' w
    \<and> seq_file (ignoring (delete_account_files m e) w) = seq_file w"
proof -
  have t: "touches (slot_resources m e w) w (ignoring (delete_account_files m e) w)" by (intro frames; simp)
  have "backup_of n e' (ignoring (delete_account_files m e) w) = backup_of n e' w
    \<and> config_of n e' (ignoring (delete_account_files m e) w) = config_of n e' w"
  proof (cases "n = m")
    case True
    then show ?thesis using same_slot_apart [OF t assms(2), of e'] assms(3) by simp
  next
    case False
    then show ?thesis using other_slot_kept [OF t, of "{m}" w n e'] assms(1,2) by simp
  qed
  moreover have "seq_file (ignoring (delete_account_files m e) w) = seq_file w"
    using touches_same [OF t, of RSeq] by (simp add: slot_resources_def backup_resources_def profile_resources_def)
  ultimately show ?thesis by simp
qed

lemma drop_prev_of_seq [simp]: "seq_file (drop_prev_of c n e w) = seq_file w"
  using touches_same [OF touches_delete_prev_only [of n e w], of RSeq] by (simp add: drop_prev_of_def)

lemma swap_finish_keeps:
  assumes "is_digits a" "is_digits b" "a \<noteq> b" "ea = eb \<or> ea \<noteq> eb @ ''.prev'' \<and> eb \<noteq> ea @ ''.prev''"
    "(n, e) \<in> {(b, ea), (a, eb)}"
  shows "backup_of n e (swap_finish a ea ca b eb cb st w) = backup_of n e w
    \<and> config_of n e (swap_finish a ea ca b eb cb st w) = config_of n e w
    \<and> seq_file (swap_finish a ea ca b eb cb st w) = seq_file w"
proof -
  have d: "is_digits n" using assms(1,2,5) by auto
  note del = delete_files_keeps [OF d assms(1), of e ea] delete_files_keeps [OF d assms(2), of e eb]
  have p: "(n = b \<and> e = ea \<or> is_digits n \<and> is_digits b \<and> n \<noteq> b)" "(n = a \<and> e = eb \<or> is_digits n \<and> is_digits a \<and> n \<noteq> a)"
    using assms by auto
  note prev = drop_prev_of_keeps [OF p(1)] drop_prev_of_keeps [OF p(2)]
  show ?thesis
  proof (cases "ea = eb")
    case True
    then show ?thesis using prev by (simp add: swap_finish_def discard_staging_keeps)
  next
    case False
    have "n \<noteq> a \<or> e \<noteq> ea \<and> e \<noteq> ea @ ''.prev''" "n \<noteq> b \<or> e \<noteq> eb \<and> e \<noteq> eb @ ''.prev''"
      using assms(3-5) False by auto
    with del False show ?thesis by (simp add: swap_finish_def discard_staging_keeps prev)
  qed
qed

text \<open>The four reads a swap starts with, in its order.\<close>

definition swap_reads :: "string \<Rightarrow> string \<Rightarrow> string \<Rightarrow> string \<Rightarrow> world \<Rightarrow> (string \<times> string \<times> jtext \<times> jtext) \<times> world" where
  "swap_reads a ea b eb w =
     (let (ca, w) = read_account_credentials a ea w; (cb, w) = read_account_credentials b eb w;
          (ga, w) = read_config_quiet a ea w; (gb, w) = read_config_quiet b eb w
      in ((ca, cb, ga, gb), w))"

lemma touches_swap_reads: "touches {} w (snd (swap_reads a ea b eb w))"
  unfolding swap_reads_def by (intro frames; simp)

text \<open>
  Property C25: a swap that succeeds has exchanged both accounts. If the four backups could be read, a
  successful swap leaves each account's credential and configuration under the other's number, commits
  the exchanged roster, and changes no third slot; the accounts may share an e-mail address. (The one
  exception is an address that is the other's with \<open>.prev\<close> appended: its Keychain name is the other's
  retained generation.)
\<close>

theorem swap_exchanges_backups:
  assumes "swap_resolved d a b raw_a raw_b w = (None, w')"
    "ea = str_field (decode_record raw_a) ''email''" "eb = str_field (decode_record raw_b) ''email''"
    "fst (swap_reads a ea b eb w) = (backup_of a ea w, backup_of b eb w, config_of a ea w, config_of b eb w)"
    "is_digits a" "is_digits b" "a \<noteq> b" "ea = eb \<or> ea \<noteq> eb @ ''.prev'' \<and> eb \<noteq> ea @ ''.prev''"
  shows "seq_file w' = SeqRoster (swap_roster (w_stamp w) a b raw_a raw_b d)
    \<and> backup_of b ea w' = backup_of a ea w \<and> config_of b ea w' = config_of a ea w
    \<and> backup_of a eb w' = backup_of b eb w \<and> config_of a eb w' = config_of b eb w
    \<and> (\<forall>n m. is_digits n \<and> n \<notin> {a, b} \<longrightarrow> backup_of n m w' = backup_of n m w \<and> config_of n m w' = config_of n m w)"
proof -
  obtain ca cb ga gb w1 where r: "swap_reads a ea b eb w = ((ca, cb, ga, gb), w1)"
    by (cases "swap_reads a ea b eb w") auto
  have t1: "touches {} w w1" using touches_swap_reads [of w a ea b eb] r by simp
  let ?d = "swap_roster (w_stamp w) a b raw_a raw_b d"
  obtain st w2 where run: "swap_run ?d a ea ca ga b eb cb gb w1 = ((None, st), w2)"
    and w': "w' = swap_finish a ea ca b eb cb st w2"
    using assms(1) r touches_facts(3) [OF t1] unfolding assms(2,3)
    by (auto simp: swap_resolved_def swap_reads_def Let_def split: option.splits prod.splits)
  let ?R = "slots_and_rest {a, b} w"
  have t2: "touches ?R w w2" by (rule touches_result [OF run]) (intro frames touches_mono [OF t1]; simp)
  have "touches ?R w w'"
    unfolding w' swap_finish_def using t2 slots_and_rest_mem(1) [of a "{a, b}" _ w] slots_and_rest_mem(1) [of b "{a, b}" _ w]
    by (intro frames) (auto simp: slot_resources_def)
  then have "is_digits n \<and> n \<notin> {a, b} \<Longrightarrow> backup_of n m w' = backup_of n m w \<and> config_of n m w' = config_of n m w" for n m
    using other_slot_kept [of ?R w w' "{a, b}" w n m] assms(5,6) by auto
  with swap_run_ok [OF run assms(5-7)] swap_finish_keeps [OF assms(5-8), of b ea ca cb st w2]
    swap_finish_keeps [OF assms(5-8), of a eb ca cb st w2] assms(4) r
  show ?thesis by (simp add: w')
qed

section \<open>Instances\<close>

text \<open>
  Two accounts with one e-mail address (a personal and an organization login) on Linux, each with a
  session profile.
\<close>

definition sample_pair :: seq_data where
  "sample_pair = \<lparr>active_num = Some 1, last_updated = [], seq_nums = [1, 2],
     accounts = [(''1'', JObj [(''email'', JStr ''a@x''), (''organizationUuid'', JStr [])]),
                 (''2'', JObj [(''email'', JStr ''a@x''), (''organizationUuid'', JStr ''o2'')])]\<rparr>"

definition sample_linux :: "fault list \<Rightarrow> (string \<Rightarrow> jtext option) \<Rightarrow> world" where
  "sample_linux fs staging =
     \<lparr>faults = fs, w_now = 0, w_stamp = ''t1'', macos = False, w_user = ''me'', w_nfc = id, w_digest = id,
      keychain = Map.empty, kc_cache = None, kc_disabled_until = None, last_backend = [],
      cred_files = [''.creds-1-a@x.enc'' \<mapsto> EncData ''CRED-1'', ''.creds-2-a@x.enc'' \<mapsto> EncData ''CRED-2''],
      config_files = [''.claude-config-1-a@x.json'' \<mapsto> TRaw ''CFG-1''],
      live_creds = None, live_config = None, seq_file = SeqRoster sample_pair, staging_files = staging,
      stash_entries = [], stash_manifest = [],
      profiles = [''1-a_x'' \<mapsto> \<lparr>prof_creds = Some ''C'', prof_config = None, prof_stale = False, prof_data = ''history-1''\<rparr>,
                  ''2-a_x'' \<mapsto> \<lparr>prof_creds = Some ''C'', prof_config = None, prof_stale = True, prof_data = ''history-2''\<rparr>],
      live_pids = (\<lambda>_. []), mapping_file = None, usage_file = None,
      settings_file = None, auto_file = None\<rparr>"

abbreviation sample_idle :: world where
  "sample_idle \<equiv> sample_linux [] Map.empty"

lemma move_carries_backups_witness:
  "backup_of ''7'' ''a@x'' (snd (relocate_locked sample_pair ''2'' ''7'' sample_idle)) = ''CRED-2''
   \<and> backup_of ''2'' ''a@x'' (snd (relocate_locked sample_pair ''2'' ''7'' sample_idle)) = []"
proof -
  let ?r = "relocate_locked sample_pair ''2'' ''7'' sample_idle"
  have "fst ?r = None" by code_simp
  then have r: "?r = (None, snd ?r)" by (simp add: prod_eq_iff)
  have raw: "map_of (accounts sample_pair) ''2'' = Some (JObj [(''email'', JStr ''a@x''), (''organizationUuid'', JStr ''o2'')])"
    by (simp add: sample_pair_def)
  have e: "''a@x'' = str_field (decode_record (JObj [(''email'', JStr ''a@x''), (''organizationUuid'', JStr ''o2'')])) ''email''"
    by code_simp
  have t: "truthful_reads ''2'' ''a@x'' sample_idle" by code_simp
  have "is_digits ''2''" "is_digits ''7''" "''2'' \<noteq> ''7''" by code_simp+
  note h = move_carries_backups [OF r raw e t this]
  have "faults sample_idle = []" by (simp add: sample_linux_def)
  with h have "backup_of ''7'' ''a@x'' (snd ?r) = backup_of ''2'' ''a@x'' sample_idle" "backup_of ''2'' ''a@x'' (snd ?r) = []"
    by blast+
  moreover have "backup_of ''2'' ''a@x'' sample_idle = ''CRED-2''" by code_simp
  ultimately show ?thesis by simp
qed

lemma failed_move_harmless_witness:
  "\<exists>w'. relocate_locked sample_pair ''2'' ''7'' (sample_linux [NoFault, NoFault, OtherFail True] Map.empty) = (Some OsErr, w')
     \<and> backup_of ''2'' ''a@x'' w' = ''CRED-2'' \<and> backup_of ''7'' ''a@x'' w' = [] \<and> seq_file w' = SeqRoster sample_pair"
proof -
  let ?w = "sample_linux [NoFault, NoFault, OtherFail True] Map.empty"
  let ?m = "move_attempt sample_pair ''2'' ''7'' ?w"
  have "(case ?m of (email, x, v) \<Rightarrow> email = ''a@x'' \<and> x = Some OsErr \<and> faults v = [])" by code_simp
  then obtain v where v: "?m = (''a@x'', Some OsErr, v)" "faults v = []" by (auto split: prod.splits)
  have raw: "map_of (accounts sample_pair) ''2'' = Some (JObj [(''email'', JStr ''a@x''), (''organizationUuid'', JStr ''o2'')])"
    "map_of (accounts sample_pair) ''7'' = None" by (simp_all add: sample_pair_def)
  have l: "live_session_pids_for ''2'' ''a@x'' ?w = []" by code_simp
  obtain w' where r: "relocate_locked sample_pair ''2'' ''7'' ?w = (Some OsErr, w')"
    using relocate_locked_attempt [OF raw l v(1)] by blast
  have n: "is_digits ''2''" "is_digits ''7''" "''2'' \<noteq> ''7''" by code_simp+
  note h = failed_move_harmless [OF r n(2)]
  have s: "seq_file w' = seq_file ?w" "backup_of ''2'' ''a@x'' w' = backup_of ''2'' ''a@x'' ?w"
    using h n by blast+
  have t: "backup_of ''7'' ''a@x'' ?w = []" by code_simp
  from h have "w' = w \<or> backup_of ''7'' ''a@x'' w' = []" if "w = ?w" for w
    using v that by auto
  with t have "backup_of ''7'' ''a@x'' w' = []" by blast
  moreover have "backup_of ''2'' ''a@x'' ?w = ''CRED-2''" by code_simp
  moreover have "seq_file ?w = SeqRoster sample_pair" by (simp add: sample_linux_def)
  ultimately show ?thesis using r s by metis
qed

lemma swap_exchanges_backups_witness:
  "backup_of ''2'' ''a@x'' (snd (swap_resolved sample_pair ''1'' ''2''
      (the (map_of (accounts sample_pair) ''1'')) (the (map_of (accounts sample_pair) ''2'')) sample_idle)) = ''CRED-1''"
proof -
  let ?a = "the (map_of (accounts sample_pair) ''1'')" and ?b = "the (map_of (accounts sample_pair) ''2'')"
  let ?r = "swap_resolved sample_pair ''1'' ''2'' ?a ?b sample_idle"
  have "fst ?r = None" by code_simp
  then have r: "?r = (None, snd ?r)" by (simp add: prod_eq_iff)
  have e: "''a@x'' = str_field (decode_record ?a) ''email''" "''a@x'' = str_field (decode_record ?b) ''email''" by code_simp+
  have t: "fst (swap_reads ''1'' ''a@x'' ''2'' ''a@x'' sample_idle)
    = (backup_of ''1'' ''a@x'' sample_idle, backup_of ''2'' ''a@x'' sample_idle,
       config_of ''1'' ''a@x'' sample_idle, config_of ''2'' ''a@x'' sample_idle)" by code_simp
  have "is_digits ''1''" "is_digits ''2''" "''1'' \<noteq> ''2''" by code_simp+
  from swap_exchanges_backups [OF r e t this]
  have "backup_of ''2'' ''a@x'' (snd ?r) = backup_of ''1'' ''a@x'' sample_idle" by simp
  also have "\<dots> = ''CRED-1''" by code_simp
  finally show ?thesis .
qed


section \<open>Where the code falls short\<close>

lemma config_ops_idle:
  assumes "faults w = []"
  shows "fst (write_or_clear_config num email g w) = None"
  using assms
  by (simp add: write_or_clear_config_def write_or_clear_def write_account_config_def and_then_def
      os_call_quiet put_config_file_def take_fault_def delete_config_backup_def remove_config_file_def Let_def)

lemma relocate_run_idle_clear:
  assumes "faults w = []"
  shows "\<exists>w'. relocate_run d a b target email [] g w = (None, w')"
proof -
  have f0: "faults (move_dir a b w) = []"
    using assms touches_move_dir [of UNIV w w a b] touches_refl touches_idle by blast
  obtain w1 where 1: "write_or_clear_creds target email [] (move_dir a b w) = (None, w1)"
    using delete_backup_strict_idle [OF f0, of target email]
    by (cases "delete_backup_strict target email (move_dir a b w)") (auto simp: write_or_clear_creds_def write_or_clear_def)
  have "touches UNIV (move_dir a b w) w1" by (rule touches_result [OF 1]) (intro frames; simp)
  then have f1: "faults w1 = []" using f0 by (rule touches_idle)
  obtain w2 where 2: "write_or_clear_config target email g w1 = (None, w2)"
    using config_ops_idle [OF f1, of target email g] by (cases "write_or_clear_config target email g w1") auto
  have "touches UNIV w1 w2" by (rule touches_result [OF 2]) (intro frames; simp)
  then have "faults w2 = []" using f1 by (rule touches_idle)
  then show ?thesis using 1 2 by (simp add: relocate_run_def and_then_def write_sequence_def os_atomic_quiet)
qed

text \<open>
  Property C26: a move can lose a credential it could not read. \<open>ReadBackup\<close> reports an unreadable
  backup as an empty one, and the move takes that for "no credential": it clears the target, commits,
  and deletes the source. When the source slot has a credential backup, its read comes back empty all
  the same and every later call succeeds, the move reports success and the credential is in the backup
  of neither number. (The statement is about the two backup stores: a session profile, or the live login
  if the account is the active one, may still hold a copy of its own.)
\<close>

theorem move_loses_unread_backup:
  assumes "map_of (accounts d) src = Some raw" "map_of (accounts d) target = None"
    "email = str_field (decode_record raw) ''email''" "live_session_pids_for src email w = []"
    "backup_of src email w \<noteq> []" "fst (read_account_credentials src email w) = []" "faults (snd (read_account_credentials src email w)) = []"
    "is_digits src" "is_digits target" "src \<noteq> target"
  shows "\<exists>w'. relocate_locked d src target w = (None, w') \<and> backup_of src email w' = [] \<and> backup_of target email w' = []"
proof -
  obtain w1 where c: "read_account_credentials src email w = ([], w1)" using assms(6) by (cases "read_account_credentials src email w") auto
  obtain g w2 where g: "read_config_quiet src email w1 = (g, w2)" by fastforce
  have t1: "touches {} w w1" by (rule touches_result [OF c]) (intro frames; simp)
  have t2: "touches {} w w2" by (rule touches_result [OF g]) (intro frames t1)
  have "touches {} w1 w2" by (rule touches_result [OF g]) (intro frames; simp)
  then have f2: "faults w2 = []" using assms(7) c by (auto dest: touches_idle)
  let ?d = "relocate_roster (w_stamp w) src target raw d"
  obtain w3 where r: "relocate_run ?d (session_dir src email w) (session_dir target email w) target email [] g w2 = (None, w3)"
    using relocate_run_idle_clear [OF f2] by blast
  let ?w = "ignoring (delete_account_files src email) w3"
  have e: "relocate_locked d src target w = (None, ?w)"
    using assms(1-4) c g r touches_names(1) [OF t2] touches_facts(3) [OF t2]
    by (simp add: relocate_locked_def Let_def ensure_no_live_session_def)
  have "touches (slots_and_rest {src, target} w) w w3"
    by (rule touches_result [OF r]) (intro frames touches_mono [OF t2]; simp)
  then have "live_session_pids_for src email w3 = []" using assms(4) by (simp add: touches_names)
  moreover have "touches UNIV w2 w3" by (rule touches_result [OF r]) (intro frames; simp)
  then have "faults w3 = []" using f2 by (rule touches_idle)
  ultimately have "backup_of src email ?w = []" using delete_account_files_idle [of w3 src email] assms(8) by simp
  moreover have "backup_of target email ?w = backup_of target email w3"
    using delete_files_keeps [OF assms(9,8), of email email w3] assms(10) by simp
  ultimately show ?thesis using e relocate_run_ok [OF r] by metis
qed


lemma move_loses_unread_backup_witness:
  "\<exists>w'. relocate_locked sample_pair ''2'' ''7'' (sample_linux [OtherFail False] Map.empty) = (None, w')
     \<and> backup_of ''2'' ''a@x'' w' = [] \<and> backup_of ''7'' ''a@x'' w' = []"
proof -
  let ?w = "sample_linux [OtherFail False] Map.empty"
  let ?raw = "JObj [(''email'', JStr ''a@x''), (''organizationUuid'', JStr ''o2'')]"
  have raw: "map_of (accounts sample_pair) ''2'' = Some ?raw" "map_of (accounts sample_pair) ''7'' = None"
    by (simp_all add: sample_pair_def)
  have e: "''a@x'' = str_field (decode_record ?raw) ''email''" by code_simp
  have l: "live_session_pids_for ''2'' ''a@x'' ?w = []" by code_simp
  have b: "backup_of ''2'' ''a@x'' ?w \<noteq> []" by code_simp
  have c: "fst (read_account_credentials ''2'' ''a@x'' ?w) = []" by code_simp
  have f: "faults (snd (read_account_credentials ''2'' ''a@x'' ?w)) = []" by code_simp
  have n: "is_digits ''2''" "is_digits ''7''" "''2'' \<noteq> ''7''" by code_simp+
  show ?thesis by (rule move_loses_unread_backup [OF raw e l b c f n])
qed

text \<open>
  A refused swap is not harmless. With a leftover staging file in place the swap of two
  accounts that share an address is refused before anything was exchanged, but the rollback exchanges
  the two session directories all the same: each account ends up with the other one's session history,
  while the roster and both credential backups are as they were.
\<close>

theorem refused_swap_exchanges_profiles:
  "let w = sample_linux [] (\<lambda>p. Some empty_text); r = swap_accounts ''1'' ''2'' w in
     fst r = Inl (Err KindConfig ''Found leftover staging from an interrupted swap'')
     \<and> seq_file (snd r) = seq_file w
     \<and> (backup_of ''1'' ''a@x'' (snd r), backup_of ''2'' ''a@x'' (snd r)) = (''CRED-1'', ''CRED-2'')
     \<and> map_option prof_data (profiles w ''1-a_x'') = Some ''history-1''
     \<and> map_option prof_data (profiles (snd r) ''1-a_x'') = Some ''history-2''
     \<and> map_option prof_data (profiles (snd r) ''2-a_x'') = Some ''history-1''"
proof -
  let ?w = "sample_linux [] (\<lambda>p. Some empty_text)"
  let ?r = "swap_accounts ''1'' ''2'' ?w"
  have 1: "fst ?r = Inl (Err KindConfig ''Found leftover staging from an interrupted swap'')" by code_simp
  have 2: "seq_file (snd ?r) = SeqRoster sample_pair" by code_simp
  have 3: "(backup_of ''1'' ''a@x'' (snd ?r), backup_of ''2'' ''a@x'' (snd ?r)) = (''CRED-1'', ''CRED-2'')" by code_simp
  have 4: "map_option prof_data (profiles ?w ''1-a_x'') = Some ''history-1''" by code_simp
  have 5: "map_option prof_data (profiles (snd ?r) ''1-a_x'') = Some ''history-2''" by code_simp
  have 6: "map_option prof_data (profiles (snd ?r) ''2-a_x'') = Some ''history-1''" by code_simp
  have 7: "seq_file ?w = SeqRoster sample_pair" by code_simp
  show ?thesis unfolding Let_def using 1 2 3 4 5 6 7 by presburger
qed

end
