(* ===== verification/Mappings.thy ===== *)
theory Mappings
  imports MoveSwap
begin

text \<open>
  internal/mappings/mappings.go: which account a directory belongs to. The path normalization consults
  the file system (symbolic links, the home directory) and is the parameter \<open>norm_path\<close>; its
  results are clean absolute paths with \<open>/\<close> separators.
\<close>

section \<open>The mapping file\<close>

record mapping =
  map_email :: string
  map_org :: string
  map_added :: string

definition decode_mapping :: "json \<Rightarrow> mapping option" where
  "decode_mapping v =
     map_option (\<lambda>m. \<lparr>map_email = str_field m ''email'', map_org = str_field m ''organizationUuid'',
                       map_added = str_field m ''added''\<rparr>) (as_map v)"

text \<open>Entries that are not objects are skipped; anything else wrong with the file is no mappings.\<close>

definition decode_mappings :: "jtext \<Rightarrow> mapping gomap" where
  "decode_mappings t =
     (case t of
        TRaw _ \<Rightarrow> []
      | TJson v \<Rightarrow>
          (case Option.bind (as_map v) (\<lambda>root. as_map (mget root ''mappings'')) of
             None \<Rightarrow> []
           | Some mm \<Rightarrow> List.map_filter (\<lambda>(k, e). map_option (Pair k) (decode_mapping e)) mm))"

definition load_mappings :: "world \<Rightarrow> mapping gomap \<times> world" where
  "load_mappings w =
     (case mapping_file w of
        None \<Rightarrow> ([], w)
      | Some t \<Rightarrow> (case os_call (\<lambda>w. w) w of (Some _, w) \<Rightarrow> ([], w) | (None, w) \<Rightarrow> (decode_mappings t, w)))"

definition encode_mapping :: "mapping \<Rightarrow> json" where
  "encode_mapping e =
     JObj [(''email'', JStr (map_email e)), (''organizationUuid'', JStr (map_org e)), (''added'', JStr (map_added e))]"

definition write_mappings :: "mapping gomap \<Rightarrow> world \<Rightarrow> go_err option \<times> world" where
  "write_mappings m =
     os_atomic (\<lambda>w. w\<lparr>mapping_file := Some (TJson (JObj [(''schemaVersion'', JNum 1),
       (''mappings'', JObj (map (\<lambda>(k, e). (k, encode_mapping e)) m))]))\<rparr>)"

section \<open>The store's operations\<close>

definition get_mapping :: "(string \<Rightarrow> string) \<Rightarrow> string \<Rightarrow> world \<Rightarrow> mapping option \<times> world" where
  "get_mapping norm_path path w = (let (m, w) = load_mappings w in (map_of m (norm_path path), w))"

definition set_mapping ::
  "(string \<Rightarrow> string) \<Rightarrow> string \<Rightarrow> string \<Rightarrow> string \<Rightarrow> world \<Rightarrow> go_err option \<times> world" where
  "set_mapping norm_path path email org w =
     (let (m, w) = load_mappings w
      in write_mappings (gm_put (norm_path path) \<lparr>map_email = email, map_org = org, map_added = w_stamp w\<rparr> m) w)"

definition remove_mapping :: "(string \<Rightarrow> string) \<Rightarrow> string \<Rightarrow> world \<Rightarrow> (go_err + bool) \<times> world" where
  "remove_mapping norm_path path w =
     (let (m, w) = load_mappings w
      in if map_of m (norm_path path) = None then (Inr False, w)
         else (case write_mappings (gm_del (norm_path path) m) w of
                 (Some e, w) \<Rightarrow> (Inl e, w) | (None, w) \<Rightarrow> (Inr True, w)))"

definition belongs_to :: "string \<Rightarrow> string \<Rightarrow> mapping \<Rightarrow> bool" where
  "belongs_to email org e \<longleftrightarrow> map_email e = email \<and> map_org e = org"

definition prune_account :: "string \<Rightarrow> string \<Rightarrow> world \<Rightarrow> (go_err + nat) \<times> world" where
  "prune_account email org w =
     (let (m, w) = load_mappings w;
          kept = filter (\<lambda>(k, e). \<not> belongs_to email org e) m;
          removed = length m - length kept
      in if removed = 0 then (Inr 0, w)
         else (case write_mappings kept w of (Some e, w) \<Rightarrow> (Inl e, w) | (None, w) \<Rightarrow> (Inr removed, w)))"

section \<open>Nearest ancestor\<close>

text \<open>\<open>filepath.Dir\<close> on a clean path.\<close>

definition parent_dir :: "string \<Rightarrow> string" where
  "parent_dir p =
     (case dropWhile (\<lambda>c. c \<noteq> CHR ''/'') (rev p) of
        [] \<Rightarrow> ''.'' | c # d \<Rightarrow> if d = [] then ''/'' else rev d)"

lemma parent_dir_shorter:
  assumes "parent_dir p \<noteq> p"
  shows "length (parent_dir p) < length p \<or> parent_dir p = ''.''"
proof (cases "dropWhile (\<lambda>c. c \<noteq> CHR ''/'') (rev p)")
  case (Cons c d)
  have p: "p = rev (c # d) @ rev (takeWhile (\<lambda>c. c \<noteq> CHR ''/'') (rev p))"
    by (metis Cons rev_append rev_rev_ident takeWhile_dropWhile_id)
  then have l: "length p = Suc (length d) + length (takeWhile (\<lambda>c. c \<noteq> CHR ''/'') (rev p))"
    by (metis length_append length_rev length_Cons)
  have c: "c = CHR ''/''" using Cons by (metis (full_types) hd_dropWhile list.distinct(1) list.sel(1))
  show ?thesis
  proof (cases "d = []")
    case True
    then have "takeWhile (\<lambda>c. c \<noteq> CHR ''/'') (rev p) \<noteq> []" using assms p c Cons by (auto simp: parent_dir_def)
    then show ?thesis using True l Cons by (simp add: parent_dir_def)
  qed (use l Cons in \<open>simp add: parent_dir_def\<close>)
next
  case Nil
  then show ?thesis unfolding parent_dir_def by (simp only: list.case) simp
qed

function is_ancestor_from :: "string \<Rightarrow> string \<Rightarrow> bool" where
  "is_ancestor_from candidate dir =
     (if dir = candidate then True
      else if parent_dir dir = dir then False
      else is_ancestor_from candidate (parent_dir dir))"
  by pat_completeness auto
termination
proof (relation "measure (\<lambda>(_, dir). if dir = ''.'' then 0 else Suc (length dir))", simp)
  fix candidate dir :: string
  assume "parent_dir dir \<noteq> dir"
  then show "((candidate, parent_dir dir), candidate, dir) \<in> measure (\<lambda>(_, dir). if dir = ''.'' then 0 else Suc (length dir))"
    using parent_dir_shorter [of dir] by (auto simp: parent_dir_def)
qed

declare is_ancestor_from.simps [simp del]

definition is_ancestor :: "string \<Rightarrow> string \<Rightarrow> bool" where
  "is_ancestor candidate target = is_ancestor_from candidate (parent_dir target)"

definition matches_dir :: "string \<Rightarrow> string \<Rightarrow> bool" where
  "matches_dir target k \<longleftrightarrow> k = target \<or> is_ancestor k target"

text \<open>The loop of \<open>Resolve\<close> over the (unordered) mappings, with its best match so far.\<close>

fun deepest :: "string \<Rightarrow> mapping gomap \<Rightarrow> (string \<times> mapping) option \<Rightarrow> (string \<times> mapping) option" where
  "deepest target [] best = best"
| "deepest target ((k, e) # m) best =
     deepest target m
       (if matches_dir target k \<and> (case best of None \<Rightarrow> True | Some (k', _) \<Rightarrow> length k' < length k)
        then Some (k, e) else best)"

definition resolve_mapping :: "(string \<Rightarrow> string) \<Rightarrow> string \<Rightarrow> world \<Rightarrow> (string \<times> mapping) option \<times> world" where
  "resolve_mapping norm_path cwd w = (let (m, w) = load_mappings w in (deepest (norm_path cwd) m None, w))"


section \<open>The file is read back\<close>

lemma decode_encode_mapping: "decode_mapping (encode_mapping e) = Some e"
  by (simp add: decode_mapping_def encode_mapping_def obj_map_def str_field_def mget_def)

lemma decode_encode_mappings:
  assumes "distinct (gm_keys m)"
  shows "decode_mappings (TJson (JObj [(''schemaVersion'', JNum 1),
       (''mappings'', JObj (map (\<lambda>(k, e). (k, encode_mapping e)) m))])) = m"
proof -
  have "gm_keys (map (\<lambda>(k, e). (k, encode_mapping e)) m) = gm_keys m" by (induction m) (auto simp: gm_keys_def)
  then have id: "obj_map (map (\<lambda>(k, e). (k, encode_mapping e)) m) = map (\<lambda>(k, e). (k, encode_mapping e)) m"
    using assms by (intro obj_map_id) simp
  have "List.map_filter (\<lambda>(k, e). map_option (Pair k) (decode_mapping e)) (map (\<lambda>(k, e). (k, encode_mapping e)) m) = m"
    by (induction m) (auto simp: List.map_filter_simps decode_encode_mapping)
  then show ?thesis using id by (simp add: decode_mappings_def obj_map_id gm_keys_def mget_def)
qed

definition mappings_of :: "world \<Rightarrow> mapping gomap" where
  "mappings_of w = (case mapping_file w of None \<Rightarrow> [] | Some t \<Rightarrow> decode_mappings t)"

lemma distinct_decode_mappings: "distinct (gm_keys (decode_mappings t))"
proof -
  have sub: "set (gm_keys (List.map_filter (\<lambda>(k, e). map_option (Pair k) (decode_mapping e)) mm)) \<subseteq> set (gm_keys mm)" for mm
    by (induction mm) (auto simp: List.map_filter_simps gm_keys_def split: option.splits)
  have "distinct (gm_keys (List.map_filter (\<lambda>(k, e). map_option (Pair k) (decode_mapping e)) mm))"
    if "distinct (gm_keys mm)" for mm using that
  proof (induction mm)
    case (Cons a mm)
    then show ?case using sub [of mm]
      by (cases a) (auto simp: List.map_filter_simps gm_keys_def split: option.splits)
  qed (simp add: List.map_filter_simps gm_keys_def)
  then show ?thesis
    by (auto simp: decode_mappings_def gm_keys_def [of "[]"] bind_eq_Some_conv distinct_obj_map
        split: jtext.splits option.splits elim!: as_map.elims)
qed

lemma distinct_mappings_of: "distinct (gm_keys (mappings_of w))"
  by (simp add: mappings_of_def distinct_decode_mappings gm_keys_def [of "[]"] split: option.split)

lemma write_mappings_ok:
  assumes "write_mappings m w = (None, w')" "distinct (gm_keys m)"
  shows "mappings_of w' = m"
  using assms(1) decode_encode_mappings [OF assms(2)]
  by (auto simp: write_mappings_def mappings_of_def dest!: os_atomic_None)

lemma load_mappings_idle: "faults w = [] \<Longrightarrow> load_mappings w = (mappings_of w, w)"
  by (simp add: load_mappings_def mappings_of_def os_call_quiet split: option.split)

lemma touches_load_mappings [frames]: "touches R w w1 \<Longrightarrow> touches R w (snd (load_mappings w1))"
  unfolding load_mappings_def by (intro frames; simp)

lemma touches_write_mappings [frames]:
  "touches R w w1 \<Longrightarrow> RMappings \<in> R \<Longrightarrow> touches R w (snd (write_mappings m w1))"
  unfolding write_mappings_def by (intro frames; simp)

lemma touches_prune_account [frames]:
  "touches R w w1 \<Longrightarrow> RMappings \<in> R \<Longrightarrow> touches R w (snd (prune_account email org w1))"
  unfolding prune_account_def Let_def by (intro frames; simp)

section \<open>The nearest mapped ancestor\<close>

text \<open>
  A clean absolute path is its list of names; the directories at or above it are the paths of the list's
  prefixes. In these terms, and without the walk of the code, a directory that only shares a string prefix
  with the path is none of them.
\<close>

definition path_of :: "string list \<Rightarrow> string" where
  "path_of cs = (if cs = [] then ''/'' else concat (map (\<lambda>c. CHR ''/'' # c) cs))"

definition file_name :: "string \<Rightarrow> bool" where
  "file_name c \<longleftrightarrow> c \<noteq> [] \<and> CHR ''/'' \<notin> set c"

lemma path_of_snoc: "path_of (cs @ [c]) = (if cs = [] then [] else path_of cs) @ CHR ''/'' # c"
  by (simp add: path_of_def)

lemma parent_dir_path:
  assumes "file_name c"
  shows "parent_dir (path_of (cs @ [c])) = path_of cs"
proof -
  have "dropWhile (\<lambda>x. x \<noteq> CHR ''/'') (rev c @ CHR ''/'' # ys) = CHR ''/'' # ys" for ys
    using assms by (subst dropWhile_append2) (auto simp: file_name_def)
  then have "dropWhile (\<lambda>x. x \<noteq> CHR ''/'') (rev (path_of (cs @ [c]))) = CHR ''/'' # rev (if cs = [] then [] else path_of cs)"
    by (simp add: path_of_snoc)
  moreover have "cs \<noteq> [] \<Longrightarrow> path_of cs \<noteq> []" by (cases cs) (simp_all add: path_of_def)
  ultimately show ?thesis by (simp add: parent_dir_def) (simp add: path_of_def)
qed

lemma path_of_longer:
  assumes "file_name c"
  shows "length (path_of cs) < length (path_of (cs @ [c]))"
  using assms by (cases c) (auto simp: path_of_snoc path_of_def [of "[]"] file_name_def)

lemma ancestor_path:
  assumes "list_all file_name cs"
  shows "is_ancestor_from k (path_of cs) \<longleftrightarrow> (\<exists>n \<le> length cs. k = path_of (take n cs))"
  using assms
proof (induction cs rule: rev_induct)
  case Nil
  have "parent_dir (path_of []) = path_of []" by code_simp
  then show ?case by (auto simp: is_ancestor_from.simps [of k "path_of []"])
next
  case (snoc c cs)
  then have c: "file_name c" "list_all file_name cs" by simp_all
  have "path_of cs \<noteq> path_of (cs @ [c])" using path_of_longer [OF c(1), of cs] by auto
  then have "is_ancestor_from k (path_of (cs @ [c])) \<longleftrightarrow> k = path_of (cs @ [c]) \<or> is_ancestor_from k (path_of cs)"
    by (auto simp: is_ancestor_from.simps [of k "path_of (cs @ [c])"] parent_dir_path [OF c(1)])
  also have "\<dots> \<longleftrightarrow> k = path_of (cs @ [c]) \<or> (\<exists>n \<le> length cs. k = path_of (take n cs))" using snoc.IH c(2) by simp
  also have "\<dots> \<longleftrightarrow> (\<exists>n \<le> length (cs @ [c]). k = path_of (take n (cs @ [c])))" by (auto simp: le_Suc_eq)
  finally show ?case .
qed

lemma matches_path:
  assumes "list_all file_name cs"
  shows "matches_dir (path_of cs) k \<longleftrightarrow> (\<exists>n \<le> length cs. k = path_of (take n cs))"
proof (cases cs rule: rev_cases)
  case Nil
  have "parent_dir (path_of []) = path_of []" by code_simp
  then show ?thesis using ancestor_path [of "[]" k] Nil by (simp add: matches_dir_def is_ancestor_def)
next
  case (snoc ds c)
  then have c: "file_name c" "list_all file_name ds" using assms by simp_all
  have "matches_dir (path_of cs) k \<longleftrightarrow> k = path_of cs \<or> (\<exists>n \<le> length ds. k = path_of (take n ds))"
    unfolding matches_dir_def is_ancestor_def snoc parent_dir_path [OF c(1)] ancestor_path [OF c(2)] ..
  also have "\<dots> \<longleftrightarrow> (\<exists>n \<le> length cs. k = path_of (take n cs))" unfolding snoc by (auto simp: le_Suc_eq)
  finally show ?thesis .
qed

lemma deeper_longer:
  assumes "list_all file_name cs" "n < i" "i \<le> length cs"
  shows "length (path_of (take n cs)) < length (path_of (take i cs))"
  using assms(2,3)
proof (induction i)
  case (Suc i)
  have s: "take (Suc i) cs = take i cs @ [cs ! i]" using Suc.prems by (simp add: take_Suc_conv_app_nth)
  have "file_name (cs ! i)" using assms(1) Suc.prems(2) by (simp add: list_all_length)
  then have "length (path_of (take i cs)) < length (path_of (take (Suc i) cs))" unfolding s by (rule path_of_longer)
  then show ?case using Suc by (cases "n = i") auto
qed simp

lemma deepest_spec:
  "deepest target m best = r \<Longrightarrow> (case best of None \<Rightarrow> True | Some (k, _) \<Rightarrow> matches_dir target k) \<Longrightarrow>
   (case r of
      None \<Rightarrow> best = None \<and> (\<forall>(k, e) \<in> set m. \<not> matches_dir target k)
    | Some (k, e) \<Rightarrow> (best = Some (k, e) \<or> (k, e) \<in> set m) \<and> matches_dir target k
        \<and> (\<forall>(k', e') \<in> set m. matches_dir target k' \<longrightarrow> length k' \<le> length k)
        \<and> (case best of None \<Rightarrow> True | Some (k', _) \<Rightarrow> length k' \<le> length k))"
proof (induction m arbitrary: best)
  case (Cons a m)
  obtain k e where a: "a = (k, e)" by (cases a)
  show ?case
    using Cons.prems(1) Cons.IH [OF Cons.prems(1) [unfolded a deepest.simps]] Cons.prems(2)
    by (auto simp: a split: option.splits if_splits)
qed (auto split: option.splits)

text \<open>
  Property C27: \<open>Resolve\<close> finds the deepest mapped directory at or above the given one, whatever order
  the mappings are visited in, and finds nothing only when no directory on the way to the root is mapped.
  "At or above" is by whole names: /foo/bar is not above /foo/barbaz. (The normalized directory is a clean
  absolute path, as \<open>NormalizePath\<close> returns on POSIX, and the mapping file can be read; a failed read finds
  nothing.)
\<close>

theorem resolve_deepest:
  assumes "norm_path cwd = path_of cs" "list_all file_name cs" "faults w = []"
  shows "(case fst (resolve_mapping norm_path cwd w) of
      None \<Rightarrow> \<forall>n \<le> length cs. map_of (mappings_of w) (path_of (take n cs)) = None
    | Some (k, e) \<Rightarrow> \<exists>n \<le> length cs. k = path_of (take n cs) \<and> map_of (mappings_of w) k = Some e
        \<and> (\<forall>i. n < i \<and> i \<le> length cs \<longrightarrow> map_of (mappings_of w) (path_of (take i cs)) = None))"
proof -
  let ?m = "mappings_of w" and ?t = "path_of cs"
  have r: "fst (resolve_mapping norm_path cwd w) = deepest ?t ?m None"
    by (simp add: resolve_mapping_def load_mappings_idle assms)
  have mem: "map_of ?m k = Some e \<longleftrightarrow> (k, e) \<in> set ?m" for k e
    using distinct_mappings_of [of w] by (simp add: gm_keys_def)
  have unmapped: "map_of ?m k = None" if "\<And>e. (k, e) \<notin> set ?m" for k
    using that mem by (cases "map_of ?m k") auto
  note spec = deepest_spec [of ?t ?m None, OF refl]
  show ?thesis
  proof (cases "deepest ?t ?m None")
    case None
    then have "\<not> matches_dir ?t k" if "(k, e) \<in> set ?m" for k e using spec that by auto
    then show ?thesis using None r matches_path [OF assms(2)] by (auto intro!: unmapped)
  next
    case (Some p)
    obtain k e where p: "p = (k, e)" by (cases p)
    have s: "(k, e) \<in> set ?m" "matches_dir ?t k" "\<And>k' e'. (k', e') \<in> set ?m \<Longrightarrow> matches_dir ?t k' \<Longrightarrow> length k' \<le> length k"
      using spec Some p by auto
    obtain n where n: "n \<le> length cs" "k = path_of (take n cs)" using s(2) matches_path [OF assms(2)] by blast
    have "map_of ?m (path_of (take i cs)) = None" if i: "n < i \<and> i \<le> length cs" for i
    proof (rule unmapped)
      show "(path_of (take i cs), e') \<notin> set ?m" for e'
        using s(3) [of "path_of (take i cs)" e'] i n(2) deeper_longer [OF assms(2), of n i] matches_path [OF assms(2)] by force
    qed
    then show ?thesis using Some p r mem s(1) n by auto
  qed
qed

definition sample_mapped :: world where
  "sample_mapped = sample_idle\<lparr>mapping_file := Some (TJson (JObj [(''mappings'',
     JObj [(''/home/me'', encode_mapping \<lparr>map_email = ''a@x'', map_org = [], map_added = ''t0''\<rparr>),
           (''/home/me/src'', encode_mapping \<lparr>map_email = ''b@x'', map_org = [], map_added = ''t0''\<rparr>)])]))\<rparr>"

lemma resolve_deepest_witness:
  "map_option fst (fst (resolve_mapping id ''/home/me/src/app'' sample_mapped)) = Some ''/home/me/src''
   \<and> map_of (mappings_of sample_mapped) ''/home/me/src/app'' = None"
proof -
  let ?cs = "[''home'', ''me'', ''src'', ''app'']"
  have a: "id ''/home/me/src/app'' = path_of ?cs" "list_all file_name ?cs" by code_simp+
  have f: "faults sample_mapped = []" by (simp add: sample_mapped_def sample_linux_def)
  have r: "map_option fst (fst (resolve_mapping id ''/home/me/src/app'' sample_mapped)) = Some ''/home/me/src''" by code_simp
  then obtain e where e: "fst (resolve_mapping id ''/home/me/src/app'' sample_mapped) = Some (''/home/me/src'', e)" by auto
  obtain n where n: "n \<le> length ?cs" "''/home/me/src'' = path_of (take n ?cs)"
    "\<forall>i. n < i \<and> i \<le> length ?cs \<longrightarrow> map_of (mappings_of sample_mapped) (path_of (take i ?cs)) = None"
    using resolve_deepest [where norm_path = id, OF a f, unfolded e option.case prod.case] by blast
  have p: "path_of (take (length ?cs) ?cs) = ''/home/me/src/app''" by code_simp
  then have "n \<noteq> length ?cs" using n(2) by auto
  with n(1) have "n < length ?cs" by linarith
  then have "map_of (mappings_of sample_mapped) (path_of (take (length ?cs) ?cs)) = None" using n(3) by blast
  then show ?thesis using r unfolding p by blast
qed

section \<open>Updates\<close>

text \<open>
  Pruning an account removes exactly its own mappings and reports how many there were;
  when the rewrite fails, or nothing is reported removed, the file is unchanged, whatever calls fail.
\<close>

theorem prune_exact:
  "(case prune_account email org w of
      (Inr n, w') \<Rightarrow>
        (if n = 0 then mapping_file w' = mapping_file w
         else mappings_of w' = filter (\<lambda>(k, e). \<not> belongs_to email org e) (mappings_of w)
           \<and> n = length (filter (\<lambda>(k, e). belongs_to email org e) (mappings_of w)))
    | (Inl _, w') \<Rightarrow> mapping_file w' = mapping_file w)"
proof -
  obtain m w1 where l: "load_mappings w = (m, w1)" by fastforce
  have f: "mapping_file w1 = mapping_file w" "m = mappings_of w \<or> m = []"
  proof -
    have "touches {} w w1" by (rule touches_result [OF l]) (intro frames)
    then show "mapping_file w1 = mapping_file w" using touches_same [of "{}" w w1 RMappings] by simp
    show "m = mappings_of w \<or> m = []"
      using l by (auto simp: load_mappings_def mappings_of_def split: option.splits prod.splits)
  qed
  let ?kept = "filter (\<lambda>(k, e). \<not> belongs_to email org e) m"
  have n: "length m - length ?kept = length (filter (\<lambda>(k, e). belongs_to email org e) m)"
    using sum_length_filter_compl [of "\<lambda>(k, e). belongs_to email org e" m] by (simp add: case_prod_unfold)
  show ?thesis
  proof (cases "length m - length ?kept = 0")
    case True
    then show ?thesis using f l by (simp add: prune_account_def)
  next
    case False
    then have m: "m = mappings_of w" using f by auto
    have d: "distinct (gm_keys ?kept)" using distinct_mappings_of [of w] unfolding m gm_keys_def by (rule distinct_map_filter)
    obtain r w2 where wr: "write_mappings ?kept w1 = (r, w2)" by fastforce
    show ?thesis
    proof (cases r)
      case None
      then show ?thesis using write_mappings_ok [OF wr [unfolded None] d] False l wr n m
        by (auto simp: prune_account_def)
    next
      case (Some e)
      then have "touches {} w1 w2" using wr unfolding write_mappings_def by (auto dest: os_atomic_Some)
      then have "mapping_file w2 = mapping_file w1" using touches_same [of "{}" w1 w2 RMappings] by simp
      then show ?thesis using Some False l wr f by (auto simp: prune_account_def)
    qed
  qed
qed

end
