(* ===== verification/Lifecycle.thy ===== *)
theory Lifecycle
  imports Mappings
begin

text \<open>
  internal/lifecycle: aliases (alias.go), holding a slot out of rotation (disable.go) and removing an
  account (remove.go). What the user answers is an argument (\<open>None\<close>: no input), and so is what other
  processes do to the machine while a question is open. Console output and logging are not modelled.
\<close>

section \<open>Names\<close>

definition is_letter :: "char \<Rightarrow> bool" where
  "is_letter c \<longleftrightarrow> (let l = lower_char c in CHR ''a'' \<le> l \<and> l \<le> CHR ''z'')"

definition is_word :: "(char \<Rightarrow> bool) \<Rightarrow> string \<Rightarrow> bool" where
  "is_word p s \<longleftrightarrow> s \<noteq> [] \<and> list_all p s"

text \<open>\<open>emailRE\<close>: one \<open>@\<close>, and a domain that ends in a dot and at least two letters.\<close>

definition validate_email :: "string \<Rightarrow> bool" where
  "validate_email s \<longleftrightarrow>
     (let user = takeWhile (\<lambda>c. c \<noteq> CHR ''@'') s; domain = drop (Suc (length user)) s;
          tld = rev (takeWhile (\<lambda>c. c \<noteq> CHR ''.'') (rev domain));
          host = take (length domain - Suc (length tld)) domain
      in is_word (\<lambda>c. is_letter c \<or> is_digit c \<or> c \<in> set ''._%+-'') user
         \<and> is_word (\<lambda>c. is_letter c \<or> is_digit c \<or> c \<in> set ''.-'') host
         \<and> length tld < length domain \<and> 2 \<le> length tld \<and> list_all is_letter tld)"

definition alias_char :: "char \<Rightarrow> bool" where
  "alias_char c \<longleftrightarrow> CHR ''a'' \<le> c \<and> c \<le> CHR ''z'' \<or> is_digit c \<or> c \<in> set ''_.-''"

definition normalize_alias :: "string \<Rightarrow> go_err + string" where
  "normalize_alias name =
     (let n = go_lower (trim_space name)
      in if n = [] then Inl (Err KindValidation ''alias cannot be empty'')
         else if is_digits n then Inl (Err KindValidation ''alias cannot be purely numeric'')
         else if has_prefix n ''-'' then Inl (Err KindValidation ''alias cannot start with a dash'')
         else if \<not> list_all alias_char n then Inl (Err KindValidation ''alias may only contain letters, digits, dash, underscore and dot'')
         else Inr n)"

section \<open>Records in the roster\<close>

text \<open>\<open>putRecord\<close>: the record is encoded in its own key order.\<close>

definition put_record :: "string \<Rightarrow> json gomap \<Rightarrow> seq_data \<Rightarrow> seq_data" where
  "put_record num rec d = d\<lparr>accounts := gm_put num (JObj rec) (accounts d)\<rparr>"

definition remove_int :: "int \<Rightarrow> int list \<Rightarrow> int list" where
  "remove_int v xs = filter (\<lambda>x. x \<noteq> v) xs"

definition drop_slot :: "string \<Rightarrow> seq_data \<Rightarrow> seq_data" where
  "drop_slot num d =
     d\<lparr>accounts := gm_del num (accounts d),
       seq_nums := (case parse_slot num of None \<Rightarrow> seq_nums d | Some n \<Rightarrow> remove_int n (seq_nums d))\<rparr>"

definition stamp_roster :: "world \<Rightarrow> seq_data \<Rightarrow> seq_data" where
  "stamp_roster w d = d\<lparr>last_updated := w_stamp w\<rparr>"

definition edit_record ::
  "string \<Rightarrow> seq_data \<Rightarrow> (string \<Rightarrow> json gomap \<Rightarrow> world \<Rightarrow> (go_err + 'a) \<times> world) \<Rightarrow> world \<Rightarrow> (go_err + 'a) \<times> world" where
  "edit_record identifier d f w =
     (case resolve_account identifier w of
        (Inl e, w) \<Rightarrow> (Inl e, w)
      | (Inr (num, _, _), w) \<Rightarrow>
          (case map_of (accounts d) num of
             None \<Rightarrow> (Inl (not_found num), w)
           | Some raw \<Rightarrow> f num (decode_record raw) w))"

definition commit_record :: "string \<Rightarrow> json gomap \<Rightarrow> seq_data \<Rightarrow> world \<Rightarrow> (go_err + string) \<times> world" where
  "commit_record num rec d w =
     (case write_sequence (stamp_roster w (put_record num rec d)) w of
        (Some e, w) \<Rightarrow> (Inl e, w) | (None, w) \<Rightarrow> (Inr num, w))"

section \<open>Aliases\<close>

definition set_alias_body :: "string \<Rightarrow> string \<Rightarrow> seq_data \<Rightarrow> world \<Rightarrow> (go_err + string) \<times> world" where
  "set_alias_body identifier alias d =
     edit_record identifier d (\<lambda>num rec w.
       let conflict = alias_in_use (Some d) alias num
       in if conflict \<noteq> [] then (Inl (Err KindConfig (''Alias '' @ alias @ '' is already used by account '' @ conflict)), w)
          else commit_record num (gm_put ''alias'' (JStr alias) rec) d w)"

definition set_alias :: "string \<Rightarrow> string \<Rightarrow> world \<Rightarrow> (go_err + string \<times> string) \<times> world" where
  "set_alias identifier alias w =
     (case normalize_alias alias of
        Inl e \<Rightarrow> (Inl e, w)
      | Inr normalized \<Rightarrow>
          if seq_file w = SeqMissing then (Inl no_accounts, w)
          else (case with_roster_locked (set_alias_body identifier normalized) w of
                  (Inl e, w) \<Rightarrow> (Inl e, w) | (Inr num, w) \<Rightarrow> (Inr (num, normalized), w)))"

definition unset_alias_body :: "string \<Rightarrow> seq_data \<Rightarrow> world \<Rightarrow> (go_err + string) \<times> world" where
  "unset_alias_body identifier d =
     edit_record identifier d (\<lambda>num rec w.
       if map_of rec ''alias'' = None then (Inr num, w) else commit_record num (gm_del ''alias'' rec) d w)"

definition unset_alias :: "string \<Rightarrow> world \<Rightarrow> (go_err + string) \<times> world" where
  "unset_alias identifier w =
     (if seq_file w = SeqMissing then (Inl no_accounts, w) else with_roster_locked (unset_alias_body identifier) w)"

definition list_aliases :: "world \<Rightarrow> (go_err + (string \<times> string \<times> string) list) \<times> world" where
  "list_aliases w =
     (case sequence_migrated w of
        (Inl e, w) \<Rightarrow> (Inl e, w)
      | (Inr None, w) \<Rightarrow> (Inr [], w)
      | (Inr (Some d), w) \<Rightarrow>
          (Inr (sort_stable (\<lambda>a b. slot_int (fst a) < slot_int (fst b))
             (map (\<lambda>num. (num, rec_alias d num, rec_email d num))
               (filter (\<lambda>num. rec_alias d num \<noteq> []) (gm_keys (accounts d))))), w))"

section \<open>Holding a slot out of rotation\<close>

text \<open>
  The result: the slot, whether anything was written, and whether the hint that nothing is left in
  rotation was given.
\<close>

definition set_disabled_body ::
  "string \<Rightarrow> bool \<Rightarrow> seq_data \<Rightarrow> world \<Rightarrow> (go_err + string \<times> bool \<times> bool) \<times> world" where
  "set_disabled_body identifier disabled d =
     edit_record identifier d (\<lambda>num rec w.
       if bool_field rec ''disabled'' = disabled then (Inr (num, False, False), w)
       else (case commit_record num (if disabled then gm_put ''disabled'' (JBool True) rec else gm_del ''disabled'' rec) d w of
               (Inl e, w) \<Rightarrow> (Inl e, w)
             | (Inr _, w) \<Rightarrow>
                 if disabled then (let (left, w) = switchable_account_numbers w in (Inr (num, True, left = []), w))
                 else (Inr (num, True, False), w)))"

definition set_account_disabled :: "string \<Rightarrow> bool \<Rightarrow> world \<Rightarrow> (go_err + string \<times> bool \<times> bool) \<times> world" where
  "set_account_disabled identifier disabled w =
     (if seq_file w = SeqMissing then (Inl no_accounts, w)
      else with_roster_locked (set_disabled_body identifier disabled) w)"

section \<open>Removing an account\<close>

datatype removal = Cancelled | AlreadyGone | Removed

text \<open>The slot keys in numeric order, keys that are no numbers by their text.\<close>

definition sorted_slots :: "seq_data \<Rightarrow> string list" where
  "sorted_slots d =
     sort_stable (\<lambda>a b. case (parse_slot a, parse_slot b) of (Some m, Some n) \<Rightarrow> m < n | _ \<Rightarrow> a < b) (gm_keys (accounts d))"

text \<open>The identifier gate: the identifier to resolve, or \<open>None\<close> when the user cancels the choice.\<close>

definition remove_gate :: "seq_data \<Rightarrow> string \<Rightarrow> string option \<Rightarrow> go_err + string option" where
  "remove_gate d identifier choice =
     (if is_digits identifier \<or> alias_in_use (Some d) identifier [] \<noteq> [] then Inr (Some identifier)
      else if \<not> validate_email identifier then Inl (Err KindValidation (''Invalid account identifier: '' @ identifier))
      else (let matches = filter (\<lambda>num. rec_email d num = identifier) (sorted_slots d)
            in if length matches \<le> 1 then Inr (Some identifier)
               else (case map_option trim_space choice of
                       None \<Rightarrow> Inr None
                     | Some c \<Rightarrow> Inr (if is_digits c \<and> c \<in> set matches then Some c else None))))"

text \<open>What is asked before the lock is taken: the account the user confirmed, \<open>None\<close> when cancelled.\<close>

definition remove_question ::
  "string \<Rightarrow> bool \<Rightarrow> string option \<Rightarrow> string option \<Rightarrow> world \<Rightarrow> (go_err + (string \<times> string \<times> string) option) \<times> world" where
  "remove_question identifier assume_yes choice confirm w =
     (if seq_file w = SeqMissing then (Inl no_accounts, w)
      else (case migrated_sequence_for_update w of
              (Inl e, w) \<Rightarrow> (Inl e, w)
            | (Inr d, w) \<Rightarrow>
                (case remove_gate d identifier choice of
                   Inl e \<Rightarrow> (Inl e, w)
                 | Inr None \<Rightarrow> (Inr None, w)
                 | Inr (Some ident) \<Rightarrow>
                     (case resolve_account ident w of
                        (Inl e, w) \<Rightarrow> (Inl e, w)
                      | (Inr (num, email, org), w) \<Rightarrow>
                          (case ensure_no_live_session num email ''--remove-account'' w of
                             Some e \<Rightarrow> (Inl e, w)
                           | None \<Rightarrow>
                               if assume_yes \<or> map_option go_lower confirm = Some ''y''
                               then (Inr (Some (num, email, org)), w) else (Inr None, w))))))"

text \<open>The commit span, on the roster read under the lock.\<close>

definition remove_body ::
  "string \<Rightarrow> string \<Rightarrow> string \<Rightarrow> seq_data \<Rightarrow> world \<Rightarrow> (go_err + removal) \<times> world" where
  "remove_body num email org d w =
     (case map_of (accounts d) num of
        None \<Rightarrow>
          (let moved = find_account_slot (Some d) email org
           in if moved \<noteq> [] then (Inl (Err KindConfig (''Account-'' @ num @ '' moved to slot '' @ moved)), w)
              else (Inr AlreadyGone, w))
      | Some raw \<Rightarrow>
          (let rec = decode_record raw
           in if str_field rec ''email'' \<noteq> email \<or> str_field rec ''organizationUuid'' \<noteq> org
              then (Inl (Err KindConfig (''Slot '' @ num @ '' changed while the confirmation was open'')), w)
              else (case ensure_no_live_session num email ''--remove-account'' w of
                      Some e \<Rightarrow> (Inl e, w)
                    | None \<Rightarrow>
                        (case and_then (delete_account_files num email)
                                (write_sequence (stamp_roster w (drop_slot num d))) w of
                           (Some e, w) \<Rightarrow> (Inl e, w) | (None, w) \<Rightarrow> (Inr Removed, w)))))"

definition remove_commit :: "string \<times> string \<times> string \<Rightarrow> world \<Rightarrow> (go_err + removal) \<times> world" where
  "remove_commit = (\<lambda>(num, email, org) w.
     case with_roster_locked (remove_body num email org) w of
       (Inl e, w) \<Rightarrow> (Inl e, w)
     | (Inr r, w) \<Rightarrow> (Inr r, if r = Removed then snd (prune_account email org w) else w))"

definition remove_account ::
  "string \<Rightarrow> bool \<Rightarrow> string option \<Rightarrow> string option \<Rightarrow> (world \<Rightarrow> world) \<Rightarrow> world \<Rightarrow> (go_err + removal) \<times> world" where
  "remove_account identifier assume_yes choice confirm meanwhile w =
     (case remove_question identifier assume_yes choice confirm w of
        (Inl e, w) \<Rightarrow> (Inl e, w)
      | (Inr None, w) \<Rightarrow> (Inr Cancelled, w)
      | (Inr (Some asked), w) \<Rightarrow> remove_commit asked (meanwhile w))"

section \<open>Aliases: what holds\<close>

lemma lower_char_idem: "lower_char (lower_char c) = lower_char c"
proof (cases "CHR ''A'' \<le> c \<and> c \<le> CHR ''Z''")
  case True
  then have "65 \<le> (of_char c :: nat)" "of_char c \<le> (90 :: nat)" by (simp_all add: less_eq_char_def)
  then have "\<not> char_of (of_char c + 32 :: nat) \<le> CHR ''Z''" by (simp add: less_eq_char_def)
  with True show ?thesis by (simp add: lower_char_def)
next
  case False
  then have "lower_char c = c" by (auto simp: lower_char_def)
  then show ?thesis by simp
qed

lemma go_lower_idem: "go_lower (go_lower s) = go_lower s"
  by (simp add: go_lower_def lower_char_idem)

lemma alias_char_lower: "alias_char c \<Longrightarrow> lower_char c = c \<and> \<not> is_space c"
  by (auto simp: alias_char_def lower_char_def is_space_def is_digit_def less_eq_char_def Let_def)

lemma trim_space_id: "list_all (\<lambda>c. \<not> is_space c) s \<Longrightarrow> trim_space s = s"
proof -
  assume a: "list_all (\<lambda>c. \<not> is_space c) s"
  have "dropWhile is_space xs = xs" if "list_all (\<lambda>c. \<not> is_space c) xs" for xs
    using that by (cases xs) simp_all
  with a show ?thesis by (simp add: trim_space_def)
qed

lemma normalize_alias_ok:
  assumes "normalize_alias name = Inr n"
  shows "n \<noteq> []" "\<not> is_digits n" "hd n \<noteq> CHR ''-''" "list_all alias_char n" "go_lower n = n" "trim_space n = n"
proof -
  show n: "n \<noteq> []" "\<not> is_digits n" "list_all alias_char n"
    using assms by (auto simp: normalize_alias_def Let_def split: if_splits)
  have "\<not> has_prefix n ''-''" using assms by (auto simp: normalize_alias_def Let_def split: if_splits)
  then show "hd n \<noteq> CHR ''-''" using n(1) by (cases n) (auto simp: has_prefix_def)
  show "go_lower n = n" using n(3) by (induction n) (auto simp: go_lower_def alias_char_lower)
  show "trim_space n = n" using n(3) by (intro trim_space_id) (auto simp: list_all_iff alias_char_lower)
qed

text \<open>
  Property C28: a normalized alias is well formed. It is a non-empty word of lower-case letters, digits,
  dot, dash and underscore that is no slot number and does not look like a flag; and normalizing it again
  changes nothing, so an alias read back from the roster is found by its own spelling.
\<close>

theorem normalized_alias_wellformed:
  assumes "normalize_alias name = Inr n"
  shows "n \<noteq> [] \<and> list_all alias_char n \<and> \<not> is_digits n \<and> hd n \<noteq> CHR ''-'' \<and> go_lower n = n \<and> normalize_alias n = Inr n"
proof -
  note n = normalize_alias_ok [OF assms]
  have "\<not> has_prefix n ''-''" using n(1,3) by (cases n) (auto simp: has_prefix_def)
  then show ?thesis using n by (simp add: normalize_alias_def)
qed

lemma normalized_alias_wellformed_witness: "normalize_alias ''Work-1'' = Inr ''work-1'' \<and> go_lower ''work-1'' = ''work-1''"
proof -
  have "normalize_alias ''Work-1'' = Inr ''work-1''" by code_simp
  with normalized_alias_wellformed [OF this] show ?thesis by simp
qed

section \<open>Locked edits\<close>

lemma resolve_account_locked:
  assumes "resolve_account ident w = (r, w')" "seq_file w = SeqRoster d" "\<not> needs_org_backfill d"
  shows "w' = w" "r = Inr (num, e, org) \<Longrightarrow> num \<noteq> [] \<and> (\<exists>raw. map_of (accounts d) num = Some raw)"
  using assms
  by (auto simp: resolve_account_def sequence_migrated_def classified_roster_def read_sequence_state_def read_sequence_def
      record_for_def split: sum.splits option.splits if_splits)

lemma commit_record_ok:
  assumes "commit_record num rec d w = (Inr n, w')"
  shows "n = num" "seq_file w' = SeqRoster (stamp_roster w (put_record num rec d))" "touches {RSeq} w w'"
proof -
  obtain r w1 where c: "write_sequence (stamp_roster w (put_record num rec d)) w = (r, w1)" by fastforce
  with assms have r: "r = None" "w1 = w'" "n = num" by (auto simp: commit_record_def split: option.splits)
  show "n = num" by (rule r(3))
  show "seq_file w' = SeqRoster (stamp_roster w (put_record num rec d))" using c r write_sequence_ok by blast
  show "touches {RSeq} w w'" unfolding r(2) [symmetric] by (rule touches_result [OF c]) (intro frames; simp)
qed

text \<open>A locked edit that succeeds ran on the file's own roster, on a record that is there.\<close>

lemma locked_edit:
  assumes "with_roster_locked (\<lambda>d. edit_record ident d (f d)) w = (Inr r, w')"
  obtains d w1 num raw where "seq_file w1 = SeqRoster d" "touches {RSeq} w w1" "num \<noteq> []"
    "map_of (accounts d) num = Some raw" "f d num (decode_record raw) w1 = (Inr r, w')"
proof (cases rule: with_roster_locked_cases [of "\<lambda>d. edit_record ident d (f d)" w])
  case (run d w1)
  obtain q w2 where q: "resolve_account ident w1 = (q, w2)" by fastforce
  with run(1) assms obtain num e org where i: "q = Inr (num, e, org)"
    by (cases q) (auto simp: edit_record_def)
  have "seq_file w1 = SeqRoster d"
  proof (rule ccontr)
    assume "seq_file w1 \<noteq> SeqRoster d"
    with run(4) have "seq_file w1 = SeqMissing" by blast
    with q i show False
      by (auto simp: resolve_account_def sequence_migrated_def classified_roster_def read_sequence_state_def
          read_sequence_def record_for_def split: sum.splits if_splits)
  qed
  with resolve_account_locked [OF q _ run(3)] i assms run q that show ?thesis
    by (fastforce simp: edit_record_def)
qed (use assms in simp)

lemma rec_at_put [simp]:
  "distinct (gm_keys rec) \<Longrightarrow> rec_at (put_record num rec d) n = (if n = num then rec else rec_at d n)"
  by (simp add: rec_at_def put_record_def decode_record_def obj_map_id)

lemma rec_at_stamp [simp]: "rec_at (stamp_roster w d) n = rec_at d n"
  by (simp add: rec_at_def stamp_roster_def)

lemma gm_keys_put_old: "map_of m k \<noteq> None \<Longrightarrow> gm_keys (gm_put k v m) = gm_keys m"
  by (induction m) (auto simp: gm_keys_def split: if_splits)

lemma sorted_keys_put:
  "map_of (accounts d) num \<noteq> None \<Longrightarrow> sorted_slot_keys (stamp_roster w (put_record num rec d)) = sorted_slot_keys d"
  by (simp add: sorted_slot_keys_def stamp_roster_def put_record_def gm_keys_put_old)

lemma hd_filter_or:
  "num \<in> set ks \<Longrightarrow> \<forall>n \<in> set ks. p' n \<longleftrightarrow> p n \<or> n = num \<Longrightarrow> filter p ks = [] \<or> hd (filter p ks) = num \<Longrightarrow>
   filter p' ks \<noteq> [] \<and> hd (filter p' ks) = num"
  by (induction ks) (auto split: if_splits)

lemma first_slot_or:
  assumes "first_slot p d = [] \<or> first_slot p d = num" "num \<in> set (sorted_slot_keys d)" "[] \<notin> set (sorted_slot_keys d)"
    "\<forall>n \<in> set (sorted_slot_keys d). p' n \<longleftrightarrow> p n \<or> n = num" "sorted_slot_keys d' = sorted_slot_keys d"
  shows "first_slot p' d' = num"
proof -
  have "filter p (sorted_slot_keys d) = [] \<or> hd (filter p (sorted_slot_keys d)) = num"
  proof (cases "filter p (sorted_slot_keys d)")
    case (Cons n ns)
    then have "n \<in> set (sorted_slot_keys d)" by (metis filter_is_subset list.set_intros(1) subsetD)
    then show ?thesis using Cons assms(1,3) by (auto simp: first_slot_def)
  qed simp
  from hd_filter_or [OF assms(2,4) this] show ?thesis
    using assms(5) by (cases "filter p' (sorted_slot_keys d)") (auto simp: first_slot_def)
qed

lemma set_alias_ok:
  assumes "set_alias ident name w = (Inr (num, alias), w')"
  shows "with_roster_locked (set_alias_body ident alias) w = (Inr num, w')" "normalize_alias name = Inr alias"
proof -
  obtain n where n: "normalize_alias name = Inr n" using assms by (cases "normalize_alias name") (simp_all add: set_alias_def)
  obtain q w2 where q: "with_roster_locked (set_alias_body ident n) w = (q, w2)" by fastforce
  have "q = Inr num \<and> n = alias \<and> w2 = w'"
    using assms n q by (cases q) (simp_all add: set_alias_def split: if_splits)
  then show "with_roster_locked (set_alias_body ident alias) w = (Inr num, w')" "normalize_alias name = Inr alias"
    using n q by simp_all
qed

lemma is_digits_lower: "is_digits s \<Longrightarrow> go_lower s = s"
  by (induction s) (auto simp: is_digits_def go_lower_def lower_char_def is_digit_def less_eq_char_def)

text \<open>
  An alias that has been set is found. After \<open>cswap alias\<close> succeeds, the alias it reports
  resolves to exactly the slot it reports, whatever case it is typed in.
\<close>

theorem alias_resolves:
  assumes "set_alias ident name w = (Inr (num, alias), w')" "seq_file w' = SeqRoster d'"
    "[] \<notin> set (gm_keys (accounts d'))" "go_lower typed = alias"
  shows "resolve_identifier (Some d') typed = Inr num \<and> rec_alias d' num = alias"
proof -
  note r = set_alias_ok(1) [OF assms(1)] and n = set_alias_ok(2) [OF assms(1)]
  define f where "f d = (\<lambda>num rec w. let conflict = alias_in_use (Some d) alias num
       in if conflict \<noteq> [] then (Inl (Err KindConfig (''Alias '' @ alias @ '' is already used by account '' @ conflict)), w)
          else commit_record num (gm_put ''alias'' (JStr alias) rec) d w)" for d
  have "set_alias_body ident alias = (\<lambda>d. edit_record ident d (f d))" by (rule ext) (simp only: set_alias_body_def f_def)
  note r = r [unfolded this]
  obtain d w1 num1 raw where e: "seq_file w1 = SeqRoster d" "touches {RSeq} w w1" "num1 \<noteq> []"
    "map_of (accounts d) num1 = Some raw" "f d num1 (decode_record raw) w1 = (Inr num, w')"
    by (rule locked_edit [OF r])
  let ?rec = "gm_put ''alias'' (JStr alias) (decode_record raw)"
  have c: "alias_in_use (Some d) alias num1 = []" "commit_record num1 ?rec d w1 = (Inr num, w')"
    using e(5) by (auto simp: f_def Let_def split: if_splits)
  have num: "num = num1" and d': "d' = stamp_roster w1 (put_record num ?rec d)"
    using commit_record_ok(1,2) [OF c(2)] assms(2) by auto
  have dist: "distinct (gm_keys ?rec)" by (intro distinct_gm_put distinct_decode_record)
  have al: "rec_alias d' n = (if n = num then alias else rec_alias d n)" for n
    by (simp add: rec_alias_def d' dist num)
  have keys: "sorted_slot_keys d' = sorted_slot_keys d" using e(4) by (simp add: d' sorted_keys_put num)
  have mem: "num \<in> set (sorted_slot_keys d)" "[] \<notin> set (sorted_slot_keys d)"
    using e(4) num assms(3) keys sorted_slot_keys_set [of d'] by (auto simp: set_gm_keys)
  note wf = normalize_alias_ok [OF n]
  have typed: "typed \<noteq> []" "\<not> is_digits typed" "go_lower typed = go_lower alias"
    using assms(4) wf(1,2,5) is_digits_lower by (auto simp: go_lower_def)
  have "find_account_by_alias (Some d') typed = num"
    unfolding find_account_by_alias_def option.case if_not_P [OF typed(1)]
  proof (rule first_slot_or [OF _ mem _ keys])
    show "first_slot (\<lambda>n. go_lower (rec_alias d n) = go_lower typed) d = []
      \<or> first_slot (\<lambda>n. go_lower (rec_alias d n) = go_lower typed) d = num"
      using c(1) wf(1) unfolding typed(3) num by (auto simp: alias_in_use_def find_account_by_alias_def Let_def split: if_splits)
    show "\<forall>n \<in> set (sorted_slot_keys d). go_lower (rec_alias d' n) = go_lower typed \<longleftrightarrow> go_lower (rec_alias d n) = go_lower typed \<or> n = num"
      using typed(3) by (auto simp: al)
  qed
  then show ?thesis using typed(2) e(3) num al [of num] by (simp add: resolve_identifier_def)
qed

lemma alias_resolves_witness:
  "\<exists>d'. seq_file (snd (set_alias ''2'' ''Work'' sample_idle)) = SeqRoster d' \<and> resolve_identifier (Some d') ''WORK'' = Inr ''2''"
proof -
  let ?r = "set_alias ''2'' ''Work'' sample_idle"
  define d' where "d' = (case seq_file (snd ?r) of SeqRoster d \<Rightarrow> d | _ \<Rightarrow> sample_pair)"
  have "fst ?r = Inr (''2'', ''work'')" by code_simp
  then have r: "?r = (Inr (''2'', ''work''), snd ?r)" by (simp add: prod_eq_iff)
  have d: "seq_file (snd ?r) = SeqRoster d'" unfolding d'_def by code_simp
  have k: "[] \<notin> set (gm_keys (accounts d'))" unfolding d'_def by code_simp
  have "go_lower ''WORK'' = ''work''" by code_simp
  from alias_resolves [OF r d k this] d show ?thesis by blast
qed

section \<open>Holding out of rotation: what holds\<close>

lemma locked_edit_steady:
  assumes "with_roster_locked (\<lambda>d. edit_record ident d (f d)) w = (Inr r, w')"
    "seq_file w = SeqRoster d" "\<not> needs_org_backfill d"
  obtains w1 num raw where "seq_file w1 = SeqRoster d" "touches {} w w1" "map_of (accounts d) num = Some raw"
    "f d num (decode_record raw) w1 = (Inr r, w')"
proof -
  obtain l w1 where l: "acquire_lock w = (l, w1)" by fastforce
  have t: "touches {} w w1" by (rule touches_result [OF l]) (intro frames; simp)
  then have s: "seq_file w1 = SeqRoster d" using touches_same [OF t, of RSeq] assms(2) by simp
  have "l = None" using assms(1) l by (cases l) (simp_all add: with_roster_locked_def)
  then have e: "edit_record ident d (f d) w1 = (Inr r, w')"
    using assms(1) l s assms(3)
    by (simp add: with_roster_locked_def migrated_sequence_for_update_def sequence_migrated_def classified_roster_def
        read_sequence_state_def)
  obtain q w2 where q: "resolve_account ident w1 = (q, w2)" by fastforce
  with e obtain num em org where i: "q = Inr (num, em, org)" by (cases q) (auto simp: edit_record_def)
  have "w2 = w1" "\<exists>raw. map_of (accounts d) num = Some raw"
    using resolve_account_locked [OF q s assms(3)] i by auto
  with that s t e q i show ?thesis by (auto simp: edit_record_def)
qed

lemma disabled_put:
  "distinct (gm_keys rec) \<Longrightarrow>
   disabled_from_data (Some (stamp_roster w (put_record num rec d))) n = (if n = num then bool_field rec ''disabled'' else disabled_from_data (Some d) n)"
  by (simp add: disabled_from_data_def record_for_def stamp_roster_def put_record_def decode_record_def obj_map_id)

lemma touches_switchable_numbers [frames]: "touches R w w1 \<Longrightarrow> touches R w (snd (switchable_account_numbers w1))"
  unfolding switchable_account_numbers_def by (intro frames; simp)

lemma switchable_enabled:
  assumes "w_roster w = Some d" "num \<in> set (fst (switchable_account_numbers w))"
  shows "\<not> disabled_from_data (Some d) num"
  using eligible_in_order_facts [OF assms(1), of "seq_nums d"] assms
  by (auto simp: switchable_account_numbers_def eligible_def)

text \<open>
  Holding a slot takes it out of automatic rotation, and releasing it ends that. After
  the command succeeds the slot's record says so, no other slot's flag has changed, the rotation order
  is the same, and a held slot is not offered to rotation whatever reads fail.
\<close>

theorem disabling_effective:
  assumes "set_account_disabled ident dis w = (Inr (num, changed, hint), w')"
    "seq_file w = SeqRoster d" "\<not> needs_org_backfill d"
  shows "\<exists>d'. seq_file w' = SeqRoster d' \<and> disabled_from_data (Some d') num = dis \<and> seq_nums d' = seq_nums d
     \<and> (\<forall>n. n \<noteq> num \<longrightarrow> disabled_from_data (Some d') n = disabled_from_data (Some d) n)
     \<and> (dis \<longrightarrow> num \<notin> set (fst (switchable_account_numbers w')))"
proof -
  define f where "f d = (\<lambda>num rec w.
       if bool_field rec ''disabled'' = dis then (Inr (num, False, False), w)
       else (case commit_record num (if dis then gm_put ''disabled'' (JBool True) rec else gm_del ''disabled'' rec) d w of
               (Inl e, w) \<Rightarrow> (Inl e, w)
             | (Inr _, w) \<Rightarrow>
                 if dis then (let (left, w) = switchable_account_numbers w in (Inr (num, True, left = []), w))
                 else (Inr (num, True, False), w)))" for d
  have f: "set_disabled_body ident dis = (\<lambda>d. edit_record ident d (f d))" by (rule ext) (simp only: set_disabled_body_def f_def)
  have r: "with_roster_locked (\<lambda>d. edit_record ident d (f d)) w = (Inr (num, changed, hint), w')"
    using assms(1,2) unfolding set_account_disabled_def f by simp
  obtain w1 n1 raw where e: "seq_file w1 = SeqRoster d" "touches {} w w1" "map_of (accounts d) n1 = Some raw"
    "f d n1 (decode_record raw) w1 = (Inr (num, changed, hint), w')"
    by (rule locked_edit_steady [OF r assms(2,3)])
  define rec where "rec = decode_record raw"
  have held: "num \<notin> set (fst (switchable_account_numbers w'))"
    if "seq_file w' = SeqRoster d'" "disabled_from_data (Some d') num" for d'
    using that switchable_enabled [of w' d' num]
    by (auto simp: w_roster_def seq_or_nil_def read_sequence_def read_sequence_state_def)
  show ?thesis
  proof (cases "bool_field rec ''disabled'' = dis")
    case True
    then have "num = n1" "w' = w1" using e(4) by (auto simp: f_def rec_def)
    moreover have "disabled_from_data (Some d) n1 = dis"
      using True e(3) by (simp add: disabled_from_data_def record_for_def rec_def)
    ultimately show ?thesis using e(1) held by blast
  next
    case False
    define new where "new = (if dis then gm_put ''disabled'' (JBool True) rec else gm_del ''disabled'' rec)"
    obtain q w2 where q: "commit_record n1 new d w1 = (q, w2)" by fastforce
    with e(4) False have ok: "q = Inr n1" "num = n1" "if dis then w' = snd (switchable_account_numbers w2) else w' = w2"
      using commit_record_ok(1) [of n1 new d w1]
      by (auto simp: f_def rec_def new_def split: sum.splits if_splits prod.splits)
    have s2: "seq_file w2 = SeqRoster (stamp_roster w1 (put_record n1 new d))" using commit_record_ok(2) q ok(1) by blast
    have "touches {} w2 (snd (switchable_account_numbers w2))" by (intro frames; simp)
    then have s': "seq_file w' = SeqRoster (stamp_roster w1 (put_record n1 new d))"
      using ok(3) s2 touches_same [of "{}" w2 _ RSeq] by (auto split: if_splits)
    have "distinct (gm_keys rec)" unfolding rec_def by (rule distinct_decode_record)
    then have dist: "distinct (gm_keys new)" by (auto simp: new_def distinct_gm_put distinct_gm_del)
    have "bool_field new ''disabled'' = dis" by (simp add: new_def)
    moreover have "seq_nums (stamp_roster w1 (put_record n1 new d)) = seq_nums d" by (simp add: stamp_roster_def put_record_def)
    ultimately show ?thesis using s' held ok(2) disabled_put [OF dist, of w1 n1 d]
      by (intro exI [of _ "stamp_roster w1 (put_record n1 new d)"]) auto
  qed
qed

lemma disabling_effective_witness:
  "\<exists>d'. seq_file (snd (set_account_disabled ''2'' True sample_idle)) = SeqRoster d' \<and> disabled_from_data (Some d') ''2''"
proof -
  let ?r = "set_account_disabled ''2'' True sample_idle"
  have "fst ?r = Inr (''2'', True, False)" by code_simp
  then have r: "?r = (Inr (''2'', True, False), snd ?r)" by (simp add: prod_eq_iff)
  have s: "seq_file sample_idle = SeqRoster sample_pair" by (simp add: sample_linux_def)
  have "\<not> needs_org_backfill sample_pair" by code_simp
  from disabling_effective [OF r s this] show ?thesis by auto
qed

section \<open>Removal: what holds\<close>

lemma touches_remove_body:
  "touches R w w1 \<Longrightarrow> slot_resources num email w \<subseteq> R \<Longrightarrow> RSeq \<in> R \<Longrightarrow> touches R w (snd (remove_body num email org d w1))"
  unfolding remove_body_def Let_def by (intro frames; simp)

lemma locked_steady:
  assumes "seq_file w = SeqRoster d" "\<not> needs_org_backfill d"
  obtains e w1 where "with_roster_locked fn w = (Inl e, w1)" "touches {} w w1"
  | w1 where "with_roster_locked fn w = fn d w1" "touches {} w w1"
proof -
  obtain l w1 where l: "acquire_lock w = (l, w1)" by fastforce
  have t: "touches {} w w1" by (rule touches_result [OF l]) (intro frames; simp)
  then have s: "seq_file w1 = SeqRoster d" using touches_same [OF t, of RSeq] assms(1) by simp
  show ?thesis
  proof (cases l)
    case (Some e)
    then show ?thesis using l t that(1) by (simp add: with_roster_locked_def)
  next
    case None
    then show ?thesis using l t s assms(2) that(2)
      by (simp add: with_roster_locked_def migrated_sequence_for_update_def sequence_migrated_def classified_roster_def
          read_sequence_state_def)
  qed
qed

lemma remove_body_removed:
  assumes "remove_body num email org d w = (Inr Removed, w')"
  obtains raw where "map_of (accounts d) num = Some raw" "str_field (decode_record raw) ''email'' = email"
    "str_field (decode_record raw) ''organizationUuid'' = org" "seq_file w' = SeqRoster (stamp_roster w (drop_slot num d))"
proof -
  obtain raw where raw: "map_of (accounts d) num = Some raw"
    using assms by (cases "map_of (accounts d) num") (auto simp: remove_body_def Let_def split: if_splits)
  obtain q w1 where q: "and_then (delete_account_files num email) (write_sequence (stamp_roster w (drop_slot num d))) w = (q, w1)"
    by fastforce
  have i: "str_field (decode_record raw) ''email'' = email" "str_field (decode_record raw) ''organizationUuid'' = org" "q = None" "w1 = w'"
    using assms raw q by (auto simp: remove_body_def Let_def split: if_splits option.splits)
  then obtain w2 where "write_sequence (stamp_roster w (drop_slot num d)) w2 = (None, w')"
    using q by (auto simp: and_then_None)
  then have "seq_file w' = SeqRoster (stamp_roster w (drop_slot num d))" by (rule write_sequence_ok)
  with raw i that show ?thesis by blast
qed

text \<open>
  Property C32: only the account the user confirmed is removed. Whatever other processes did while the
  question was open and whatever calls fail, a removal that is reported happened to a slot that, in the
  roster read under the lock, still carried the confirmed e-mail and organization; that roster minus the slot is what is
  committed, and no other slot's backup, configuration or profile and no login has been touched.
\<close>

theorem removal_only_confirmed:
  assumes "remove_account ident yes choice confirm meanwhile w = (Inr Removed, w')"
  shows "\<exists>num email org w1 d raw. remove_question ident yes choice confirm w = (Inr (Some (num, email, org)), w1)
     \<and> touches ({RSeq, RMappings} \<union> slot_resources num email (meanwhile w1)) (meanwhile w1) w'
     \<and> (\<forall>d0. seq_file (meanwhile w1) = SeqRoster d0 \<and> \<not> needs_org_backfill d0 \<longrightarrow> d = d0)
     \<and> map_of (accounts d) num = Some raw
     \<and> str_field (decode_record raw) ''email'' = email \<and> str_field (decode_record raw) ''organizationUuid'' = org
     \<and> seq_file w' = SeqRoster (stamp_roster w' (drop_slot num d))"
proof -
  obtain a w1 where a: "remove_question ident yes choice confirm w = (a, w1)" by fastforce
  with assms obtain asked where asked: "a = Inr (Some asked)" "remove_commit asked (meanwhile w1) = (Inr Removed, w')"
    by (auto simp: remove_account_def split: sum.splits option.splits)
  obtain num email org where "asked = (num, email, org)" by (cases asked)
  with a asked have q: "remove_question ident yes choice confirm w = (Inr (Some (num, email, org)), w1)"
    and c: "remove_commit (num, email, org) (meanwhile w1) = (Inr Removed, w')" by simp_all
  let ?w = "meanwhile w1" and ?R = "{RSeq, RMappings} \<union> slot_resources num email (meanwhile w1)"
  obtain r w2 where l: "with_roster_locked (remove_body num email org) ?w = (r, w2)" by fastforce
  with c have r: "r = Inr Removed" "w' = snd (prune_account email org w2)"
    by (auto simp: remove_commit_def split: sum.splits if_splits)
  obtain d w3 where b: "remove_body num email org d w3 = (Inr Removed, w2)" "touches {RSeq} ?w w3"
    and d: "\<forall>d0. seq_file ?w = SeqRoster d0 \<and> \<not> needs_org_backfill d0 \<longrightarrow> d = d0"
  proof (cases "\<exists>d0. seq_file ?w = SeqRoster d0 \<and> \<not> needs_org_backfill d0")
    case True
    then obtain d0 where d0: "seq_file ?w = SeqRoster d0" "\<not> needs_org_backfill d0" by blast
    show ?thesis
    proof (cases rule: locked_steady [OF d0, of "remove_body num email org"])
      case (2 w3)
      have "touches {RSeq} ?w w3" using 2(2) by (rule touches_mono) simp
      then show ?thesis using 2(1) l r(1) d0(1) by (intro that [of d0 w3]) simp_all
    qed (use l r in simp)
  next
    case False
    show ?thesis
    proof (cases rule: with_roster_locked_cases [of "remove_body num email org" ?w])
      case (run d w3)
      then show ?thesis using l r(1) False by (intro that [of d w3]) auto
    qed (use l r in simp)
  qed
  have t3: "touches ?R ?w w3" using b(2) by (rule touches_mono) simp
  have t2: "touches ?R ?w w2" by (rule touches_result [OF b(1)]) (rule touches_remove_body [OF t3]; auto)
  have t: "touches ?R ?w w'" unfolding r(2) by (intro frames t2) simp
  have "touches {RMappings} w2 w'" unfolding r(2) by (intro frames; simp)
  then have s': "seq_file w' = seq_file w2" using touches_same [of "{RMappings}" w2 w' RSeq] by simp
  have "stamp_roster w3 x = stamp_roster w' x" for x
    using touches_facts(3) [OF t] touches_facts(3) [OF t3] by (simp add: stamp_roster_def)
  with s' remove_body_removed [OF b(1)] obtain raw where raw: "map_of (accounts d) num = Some raw"
    "str_field (decode_record raw) ''email'' = email" "str_field (decode_record raw) ''organizationUuid'' = org"
    "seq_file w' = SeqRoster (stamp_roster w' (drop_slot num d))" by metis
  then show ?thesis using q t d by blast
qed

text \<open>The user confirms; meanwhile another process has held slot 1 out of rotation.\<close>

lemma removal_only_confirmed_witness:
  "\<exists>d. map_of (accounts d) ''2'' \<noteq> None
     \<and> seq_file (snd (remove_account ''2'' False None (Some ''Y'') (\<lambda>w. snd (set_account_disabled ''1'' True w)) sample_idle))
       = SeqRoster (d\<lparr>accounts := gm_del ''2'' (accounts d), seq_nums := remove_int 2 (seq_nums d), last_updated := ''t1''\<rparr>)"
proof -
  let ?m = "\<lambda>w. snd (set_account_disabled ''1'' True w)"
  let ?r = "remove_account ''2'' False None (Some ''Y'') ?m sample_idle"
  have "fst ?r = Inr Removed" by code_simp
  then have r: "?r = (Inr Removed, snd ?r)" by (simp add: prod_eq_iff)
  have q: "map_sum id (map_option fst) (fst (remove_question ''2'' False None (Some ''Y'') sample_idle)) = Inr (Some ''2'')" by code_simp
  have st: "w_stamp (snd ?r) = ''t1''" by code_simp
  have p: "parse_slot ''2'' = Some 2" by code_simp
  from removal_only_confirmed [OF r] q obtain d raw where "map_of (accounts d) ''2'' = Some raw"
    "seq_file (snd ?r) = SeqRoster (stamp_roster (snd ?r) (drop_slot ''2'' d))" by auto
  then show ?thesis using st p by (intro exI [of _ d]) (simp add: stamp_roster_def drop_slot_def)
qed

end
