(* ===== verification/GoTime.thy ===== *)
theory GoTime
  imports Prelude "HOL-Library.Monad_Syntax"
begin

text \<open>
  \<open>time.Parse\<close> with the layouts \<open>time.RFC3339Nano\<close> and \<open>time.RFC3339\<close>, to the extent
  the program uses it: the instant as epoch seconds, \<open>float64(t.UnixNano()) / 1e9\<close>. The
  leniencies of Go's parser are kept: one hour digit is enough, a comma may stand for the
  decimal point, digits after the ninth are dropped, offsets up to 24 hours and 60 minutes pass.
\<close>

type_synonym 'a parser = "string \<Rightarrow> ('a \<times> string) option"

definition get_num :: "bool \<Rightarrow> int parser" where
  "get_num fixed s =
     (case s of
        a # b # rest \<Rightarrow>
          if \<not> is_digit a then None
          else if is_digit b then Some (digit_val a * 10 + digit_val b, rest)
          else if fixed then None else Some (digit_val a, b # rest)
      | [a] \<Rightarrow> if is_digit a \<and> \<not> fixed then Some (digit_val a, []) else None
      | [] \<Rightarrow> None)"

definition get_year :: "int parser" where
  "get_year s = (if 4 \<le> length s \<and> list_all is_digit (take 4 s)
                 then Some (dec_val (take 4 s), drop 4 s) else None)"

definition expect :: "char \<Rightarrow> string \<Rightarrow> string option" where
  "expect c s = (case s of a # rest \<Rightarrow> if a = c then Some rest else None | [] \<Rightarrow> None)"

definition leap_year :: "int \<Rightarrow> bool" where
  "leap_year y \<longleftrightarrow> y mod 4 = 0 \<and> (y mod 100 \<noteq> 0 \<or> y mod 400 = 0)"

definition days_in :: "int \<Rightarrow> int \<Rightarrow> int" where
  "days_in m y = (if m = 2 then (if leap_year y then 29 else 28)
                  else if m \<in> {4, 6, 9, 11} then 30 else 31)"

definition days_before :: "int \<Rightarrow> int \<Rightarrow> int" where
  "days_before m y = sum_list (map (\<lambda>k. days_in k y) [1..m - 1])"

text \<open>Days from 1970-01-01; 719162 days separate it from 0001-01-01.\<close>

definition days_from_civil :: "int \<Rightarrow> int \<Rightarrow> int \<Rightarrow> int" where
  "days_from_civil y m d =
     365 * (y - 1) + (y - 1) div 4 - (y - 1) div 100 + (y - 1) div 400
       + days_before m y + (d - 1) - 719162"

definition get_fraction :: "string \<Rightarrow> int \<times> string" where
  "get_fraction s =
     (case s of
        c # d # rest \<Rightarrow>
          if (c = CHR ''.'' \<or> c = CHR '','') \<and> is_digit d then
            let ds = takeWhile is_digit (d # rest); ds9 = take 9 ds
            in (dec_val ds9 * 10 ^ (9 - length ds9), dropWhile is_digit (d # rest))
          else (0, s)
      | _ \<Rightarrow> (0, s))"

definition get_offset :: "int parser" where
  "get_offset s =
     (case s of
        [] \<Rightarrow> None
      | c # rest \<Rightarrow>
          if c = CHR ''Z'' then Some (0, rest)
          else if length s < 6 \<or> s ! 3 \<noteq> CHR '':'' then None
          else (case (get_num True (take 2 (drop 1 s)), get_num True (take 2 (drop 4 s))) of
                  (Some (h, _), Some (m, _)) \<Rightarrow>
                    if 24 < h \<or> 60 < m then None
                    else if c = CHR ''+'' then Some ((h * 60 + m) * 60, drop 6 s)
                    else if c = CHR ''-'' then Some (- ((h * 60 + m) * 60), drop 6 s)
                    else None
                | _ \<Rightarrow> None))"

definition parse_date :: "(int \<times> int \<times> int) parser" where
  "parse_date s = do {
     (y, s) \<leftarrow> get_year s; s \<leftarrow> expect CHR ''-'' s;
     (m, s) \<leftarrow> get_num True s; s \<leftarrow> expect CHR ''-'' s;
     (d, s) \<leftarrow> get_num True s;
     if 1 \<le> m \<and> m \<le> 12 then Some ((y, m, d), s) else None }"

definition parse_clock :: "int parser" where
  "parse_clock s = do {
     (h, s) \<leftarrow> get_num False s; s \<leftarrow> expect CHR '':'' s;
     (mi, s) \<leftarrow> get_num True s; s \<leftarrow> expect CHR '':'' s;
     (sec, s) \<leftarrow> get_num True s;
     if h < 24 \<and> mi < 60 \<and> sec < 60 then Some (h * 3600 + mi * 60 + sec, s) else None }"

text \<open>\<open>UnixNano\<close> is an \<open>int64\<close>.\<close>

definition unix_nano :: "string \<Rightarrow> int option" where
  "unix_nano s = do {
     ((y, m, d), s) \<leftarrow> parse_date s;
     s \<leftarrow> expect CHR ''T'' s;
     (clk, s) \<leftarrow> parse_clock s;
     (let (ns, s) = get_fraction s in do {
       (off, s) \<leftarrow> get_offset s;
       if s = [] \<and> 1 \<le> d \<and> d \<le> days_in m y
       then Some (wrap64 ((days_from_civil y m d * 86400 + clk - off) * 1000000000 + ns))
       else None }) }"

text \<open>\<open>parseResetTS\<close> (usage, autoswitch) and \<open>parseRenewalTS\<close> (oauth): three copies of one function.\<close>

definition parse_reset_ts :: "string \<Rightarrow> rat option" where
  "parse_reset_ts s =
     (if s = [] then None else map_option (\<lambda>n. rat_of_int n / 1000000000) (unix_nano s))"

lemma parse_reset_ts_Nil [simp]: "parse_reset_ts [] = None"
  by (simp add: parse_reset_ts_def)

end
