(* ===== verification/Windows.thy ===== *)
theory Windows
  imports Json GoTime
begin

text \<open>
  internal/oauth/windows.go: the typed projection of a normalized usage map and the decision
  questions asked of it (which windows gate an account, how much headroom is left, when the
  weekly scope renews). Percentages are exact rationals.
\<close>

section \<open>The projection\<close>

record window =
  win_pct :: rat
  win_resets :: string
  win_countdown :: string
  win_clock :: string

record scoped_window = window +
  win_name :: string

record spend =
  sp_used :: rat
  sp_limit :: rat
  sp_pct :: rat
  sp_currency :: string
  sp_resets :: string
  sp_countdown :: string
  sp_clock :: string

record usage =
  five_hour :: "window option"
  seven_day :: "window option"
  u_spend :: "spend option"
  scoped :: "scoped_window list"

text \<open>\<open>numFloat\<close> / \<open>pctFloat\<close>: a JSON number, never a string or a bool.\<close>

definition num_float :: "json \<Rightarrow> rat option" where
  "num_float v = as_num v"

definition pct_float :: "json \<Rightarrow> rat option" where
  "pct_float v = num_float v"

definition project_window :: "json \<Rightarrow> window option" where
  "project_window v =
     (case as_map v of
        None \<Rightarrow> None
      | Some m \<Rightarrow>
          (case pct_float (mget m ''pct'') of
             None \<Rightarrow> None
           | Some p \<Rightarrow> Some \<lparr>win_pct = p, win_resets = str_field m ''resets_at'',
                              win_countdown = str_field m ''countdown'',
                              win_clock = str_field m ''clock''\<rparr>))"

definition num_or_zero :: "json \<Rightarrow> rat" where
  "num_or_zero v = (case num_float v of None \<Rightarrow> 0 | Some r \<Rightarrow> r)"

definition project_spend :: "json \<Rightarrow> spend option" where
  "project_spend v =
     map_option (\<lambda>m. \<lparr>sp_used = num_or_zero (mget m ''used''),
                      sp_limit = num_or_zero (mget m ''limit''),
                      sp_pct = num_or_zero (mget m ''pct''),
                      sp_currency = str_field m ''currency'',
                      sp_resets = str_field m ''resets_at'',
                      sp_countdown = str_field m ''countdown'',
                      sp_clock = str_field m ''clock''\<rparr>) (as_map v)"

definition project_scoped :: "json \<Rightarrow> scoped_window option" where
  "project_scoped item =
     (case as_map item of
        None \<Rightarrow> None
      | Some m \<Rightarrow>
          (case (as_str (mget m ''name''), pct_float (mget m ''pct'')) of
             (Some nm, Some p) \<Rightarrow>
               if nm = [] then None
               else Some \<lparr>win_pct = p, win_resets = str_field m ''resets_at'',
                          win_countdown = str_field m ''countdown'',
                          win_clock = str_field m ''clock'', win_name = nm\<rparr>
           | _ \<Rightarrow> None))"

definition new_usage :: "json gomap \<Rightarrow> usage option" where
  "new_usage normalized =
     (if normalized = [] then None
      else Some \<lparr>five_hour = project_window (mget normalized ''five_hour''),
                 seven_day = project_window (mget normalized ''seven_day''),
                 u_spend = project_spend (mget normalized ''spend''),
                 scoped = (case as_arr (mget normalized ''scoped'') of
                             None \<Rightarrow> []
                           | Some raw \<Rightarrow> List.map_filter project_scoped raw)\<rparr>)"

section \<open>Decision windows\<close>

record relevant_window =
  rw_label :: string
  rw_pct :: rat
  rw_resets :: string

definition rw_of :: "string \<Rightarrow> 'a window_scheme \<Rightarrow> relevant_window" where
  "rw_of label w = \<lparr>rw_label = label, rw_pct = win_pct w, rw_resets = win_resets w\<rparr>"

text \<open>A configured model matches a scoped window by name, case-insensitively; "all" matches every one.\<close>

definition model_matches :: "string list \<Rightarrow> string \<Rightarrow> bool" where
  "model_matches models nm \<longleftrightarrow>
     ''all'' \<in> set (map go_lower models) \<or> go_lower nm \<in> set (map go_lower models)"

definition relevant_windows :: "usage option \<Rightarrow> string list \<Rightarrow> relevant_window list" where
  "relevant_windows u models =
     (case u of
        None \<Rightarrow> []
      | Some u \<Rightarrow>
          (case five_hour u of None \<Rightarrow> [] | Some w \<Rightarrow> [rw_of ''5h'' w])
          @ (case seven_day u of None \<Rightarrow> [] | Some w \<Rightarrow> [rw_of ''7d'' w])
          @ (if models = [] then []
             else map (\<lambda>s. rw_of (win_name s) s)
                      (filter (\<lambda>s. model_matches models (win_name s)) (scoped u))))"

text \<open>The scan for the binding window: the running maximum over the tail.\<close>

definition max_pct :: "rat \<Rightarrow> relevant_window list \<Rightarrow> rat" where
  "max_pct p ws = foldl (\<lambda>m w. if rw_pct w > m then rw_pct w else m) p ws"

definition account_headroom :: "usage option \<Rightarrow> string list \<Rightarrow> rat option" where
  "account_headroom u models =
     (case relevant_windows u models of
        [] \<Rightarrow> None
      | w # ws \<Rightarrow> Some (100 - max_pct (rw_pct w) ws))"

definition later :: "rat option \<Rightarrow> rat option \<Rightarrow> rat option" where
  "later latest ts =
     (case ts of
        None \<Rightarrow> latest
      | Some t \<Rightarrow> (case latest of None \<Rightarrow> ts | Some l \<Rightarrow> if t > l then ts else latest))"

definition renewal_ts :: "usage option \<Rightarrow> string list \<Rightarrow> rat option" where
  "renewal_ts u models =
     foldl (\<lambda>latest w. if rw_label w = ''5h'' then latest
                        else later latest (parse_reset_ts (rw_resets w)))
           None (relevant_windows u models)"

section \<open>Facts about the folds\<close>

lemma max_pct_Max: "max_pct p ws = Max (insert p (rw_pct ` set ws))"
proof (induction ws arbitrary: p)
  case (Cons w ws)
  have "max_pct p (w # ws) = max_pct (max p (rw_pct w)) ws"
    by (simp add: max_pct_def max_def)
  also have "\<dots> = Max (insert (max p (rw_pct w)) (rw_pct ` set ws))" by (rule Cons.IH)
  also have "\<dots> = Max (insert p (insert (rw_pct w) (rw_pct ` set ws)))"
    by (cases "set ws = {}") (simp_all add: max.assoc)
  finally show ?case by simp
qed (simp add: max_pct_def)

lemma account_headroom_None: "account_headroom u models = None \<longleftrightarrow> relevant_windows u models = []"
  by (simp add: account_headroom_def split: list.splits)

lemma account_headroom_Some:
  "account_headroom u models = Some h \<longleftrightarrow>
     relevant_windows u models \<noteq> [] \<and> h = 100 - Max (rw_pct ` set (relevant_windows u models))"
  by (auto simp: account_headroom_def max_pct_Max split: list.splits)

text \<open>\<open>later\<close> folded over a list of optional times is the maximum of the times present.\<close>

definition opt_le :: "rat option \<Rightarrow> rat option \<Rightarrow> bool" where
  "opt_le a b = (case a of None \<Rightarrow> True | Some x \<Rightarrow> (case b of None \<Rightarrow> False | Some y \<Rightarrow> x \<le> y))"

lemma opt_le_refl [simp]: "opt_le a a"
  by (simp add: opt_le_def split: option.splits)

lemma opt_le_trans: "opt_le a b \<Longrightarrow> opt_le b c \<Longrightarrow> opt_le a c"
  by (auto simp: opt_le_def split: option.splits)

lemma opt_le_later: "opt_le a (later a b) \<and> opt_le b (later a b)"
  by (auto simp: opt_le_def later_def split: option.splits)

lemma later_cases: "later a b = a \<or> later a b = b"
  by (auto simp: later_def split: option.splits)

definition latest_of :: "rat option list \<Rightarrow> rat option" where
  "latest_of ts = foldl later None ts"

lemma foldl_later_bounds:
  "opt_le a (foldl later a ts) \<and> (\<forall>t\<in>set ts. opt_le t (foldl later a ts))"
proof (induction ts arbitrary: a)
  case (Cons t ts)
  have "opt_le (later a t) (foldl later (later a t) ts)" using Cons.IH by blast
  then show ?case using Cons.IH [of "later a t"] opt_le_later [of a t]
    by (auto intro: opt_le_trans)
qed simp

lemma foldl_later_mem: "foldl later a ts = a \<or> foldl later a ts \<in> set ts"
proof (induction ts arbitrary: a)
  case (Cons t ts)
  have "foldl later a (t # ts) = later a t \<or> foldl later a (t # ts) \<in> set ts"
    using Cons.IH [of "later a t"] by simp
  then show ?case using later_cases [of a t] by (metis list.set_intros)
qed simp

lemma latest_of_mem: "latest_of ts = Some t \<Longrightarrow> Some t \<in> set ts"
  unfolding latest_of_def using foldl_later_mem [of None ts] by auto

lemma latest_of_ge: "Some t \<in> set ts \<Longrightarrow> \<exists>l. latest_of ts = Some l \<and> t \<le> l"
  using foldl_later_bounds [of None ts]
  by (auto simp: latest_of_def opt_le_def split: option.splits dest!: bspec)

lemma renewal_ts_latest:
  "renewal_ts u models =
     latest_of (map (\<lambda>w. parse_reset_ts (rw_resets w))
                    (filter (\<lambda>w. rw_label w \<noteq> ''5h'') (relevant_windows u models)))"
proof -
  have "foldl (\<lambda>l w. if rw_label w = ''5h'' then l else later l (parse_reset_ts (rw_resets w))) a ws
     = foldl later a (map (\<lambda>w. parse_reset_ts (rw_resets w)) (filter (\<lambda>w. rw_label w \<noteq> ''5h'') ws))"
    for a ws by (induction ws arbitrary: a) simp_all
  then show ?thesis by (simp add: renewal_ts_def latest_of_def)
qed

section \<open>Properties\<close>

text \<open>
  Headroom is the distance of the binding window from its limit. Every window that
  gates the account (5h, 7d, and the scoped windows of the configured models) is at or below
  \<open>100 - headroom\<close>, one of them is exactly there, and headroom is unknown only when no
  window gates the account.
\<close>

theorem headroom_binding:
  "case account_headroom u models of
     None \<Rightarrow> relevant_windows u models = []
   | Some h \<Rightarrow> list_all (\<lambda>w. rw_pct w \<le> 100 - h) (relevant_windows u models)
             \<and> list_ex (\<lambda>w. rw_pct w = 100 - h) (relevant_windows u models)"
proof (cases "account_headroom u models")
  case None
  then have "relevant_windows u models = []" by (simp add: account_headroom_None)
  with None show ?thesis by simp
next
  case (Some h)
  let ?ws = "relevant_windows u models"
  from Some have ne: "?ws \<noteq> []" and h: "100 - h = Max (rw_pct ` set ?ws)"
    by (auto simp: account_headroom_Some)
  from ne have "Max (rw_pct ` set ?ws) \<in> rw_pct ` set ?ws" by (intro Max_in) auto
  with Some h show ?thesis by (auto simp: list_all_iff list_ex_iff)
qed

end
