(* ===== verification/PollPolicy.thy ===== *)
theory PollPolicy
  imports Windows
begin

text \<open>
  internal/usage/pollpolicy.go and consts.go: the adaptive polling cadence. The package keeps its
  own copy of the decision windows, read straight from the normalized usage map.
  Times are seconds as exact rationals; \<open>rng\<close> is the value in [0, 1) the generator returned.
\<close>

section \<open>Constants\<close>

definition min_interval_s :: rat where "min_interval_s = 180"
definition urgent_interval_s :: rat where "urgent_interval_s = 60"
definition active_max_interval_s :: rat where "active_max_interval_s = 300"
definition candidate_default_interval_s :: rat where "candidate_default_interval_s = 300"
definition candidate_max_interval_s :: rat where "candidate_max_interval_s = 600"
definition movement_delta_pct :: rat where "movement_delta_pct = 1"
definition jitter_frac :: rat where "jitter_frac = 1 / 10"
definition post_429_min_interval_s :: rat where "post_429_min_interval_s = 360"
definition escalation_margin_pct :: rat where "escalation_margin_pct = 15"
definition reset_slack_s :: rat where "reset_slack_s = 60"

lemmas poll_consts =
  min_interval_s_def urgent_interval_s_def active_max_interval_s_def
  candidate_default_interval_s_def candidate_max_interval_s_def movement_delta_pct_def
  jitter_frac_def post_429_min_interval_s_def escalation_margin_pct_def reset_slack_s_def

section \<open>Windows of a usage map\<close>

definition num_ptr :: "json \<Rightarrow> rat option" where
  "num_ptr v = as_num v"

definition uw_field :: "json gomap \<Rightarrow> string \<Rightarrow> string \<Rightarrow> relevant_window list" where
  "uw_field usage field label =
     (case as_map (mget usage field) of
        None \<Rightarrow> []
      | Some w \<Rightarrow>
          (case num_ptr (mget w ''pct'') of
             None \<Rightarrow> []
           | Some p \<Rightarrow> [\<lparr>rw_label = label, rw_pct = p, rw_resets = str_field w ''resets_at''\<rparr>]))"

definition uw_scoped :: "string list \<Rightarrow> json \<Rightarrow> relevant_window option" where
  "uw_scoped models sv =
     (case as_map sv of
        None \<Rightarrow> None
      | Some s \<Rightarrow>
          (case (num_ptr (mget s ''pct''), as_str (mget s ''name'')) of
             (Some p, Some nm) \<Rightarrow>
               if model_matches models nm
               then Some \<lparr>rw_label = nm, rw_pct = p, rw_resets = str_field s ''resets_at''\<rparr>
               else None
           | _ \<Rightarrow> None))"

definition uw_windows :: "json gomap \<Rightarrow> string list \<Rightarrow> relevant_window list" where
  "uw_windows usage models =
     uw_field usage ''five_hour'' ''5h'' @ uw_field usage ''seven_day'' ''7d''
     @ (if models = [] then []
        else (case as_arr (mget usage ''scoped'') of
                None \<Rightarrow> []
              | Some xs \<Rightarrow> List.map_filter (uw_scoped models) xs))"

definition uw_headroom :: "json gomap \<Rightarrow> string list \<Rightarrow> rat option" where
  "uw_headroom usage models =
     (case uw_windows usage models of
        [] \<Rightarrow> None
      | w # ws \<Rightarrow> Some (100 - max_pct (rw_pct w) ws))"

definition binding_pct :: "json gomap \<Rightarrow> string list \<Rightarrow> rat option" where
  "binding_pct usage models = map_option (\<lambda>h. 100 - h) (uw_headroom usage models)"

definition limiting_reset_ts :: "json gomap \<Rightarrow> string list \<Rightarrow> rat option" where
  "limiting_reset_ts usage models =
     foldl (\<lambda>latest w. if rw_pct w < 100 then latest
                        else later latest (parse_reset_ts (rw_resets w)))
           None (uw_windows usage models)"

definition earlier_future :: "rat \<Rightarrow> rat option \<Rightarrow> rat option \<Rightarrow> rat option" where
  "earlier_future now earliest ts =
     (case ts of
        None \<Rightarrow> earliest
      | Some t \<Rightarrow>
          if now < t \<and> (case earliest of None \<Rightarrow> True | Some e \<Rightarrow> t < e) then ts else earliest)"

definition earliest_future_reset_ts :: "json gomap \<Rightarrow> rat \<Rightarrow> string list \<Rightarrow> rat option" where
  "earliest_future_reset_ts usage now models =
     foldl (\<lambda>e w. earlier_future now e (parse_reset_ts (rw_resets w))) None (uw_windows usage models)"

section \<open>The plan after a successful fetch\<close>

record plan_input =
  prev_interval_s :: "rat option"
  prev_usage :: "json gomap"
  cur_usage :: "json gomap"
  is_active :: bool
  threshold :: rat
  plan_models :: "string list"
  recent_429 :: bool
  plan_now :: rat
  plan_rng :: rat

definition plan_default :: "plan_input \<Rightarrow> rat" where
  "plan_default inp = (if is_active inp then min_interval_s else candidate_default_interval_s)"

definition plan_ceiling :: "plan_input \<Rightarrow> rat" where
  "plan_ceiling inp = (if is_active inp then active_max_interval_s else candidate_max_interval_s)"

definition plan_base :: "plan_input \<Rightarrow> rat" where
  "plan_base inp =
     (case prev_interval_s inp of None \<Rightarrow> plan_default inp
      | Some p \<Rightarrow> if p \<noteq> 0 then p else plan_default inp)"

text \<open>The switch on movement: (interval, moving).\<close>

definition plan_cadence :: "plan_input \<Rightarrow> rat \<times> bool" where
  "plan_cadence inp =
     (case (binding_pct (prev_usage inp) (plan_models inp), binding_pct (cur_usage inp) (plan_models inp)) of
        (Some p, Some n) \<Rightarrow>
          if \<bar>n - p\<bar> \<ge> movement_delta_pct
          then (max min_interval_s (plan_base inp / 2), True)
          else (min (plan_ceiling inp) (max min_interval_s (plan_base inp * (3 / 2))), False)
      | _ \<Rightarrow> (plan_default inp, False))"

definition plan_interval :: "plan_input \<Rightarrow> rat" where
  "plan_interval inp =
     (let (i0, moving) = plan_cadence inp;
          urgent = (is_active inp \<and> moving \<and> \<not> recent_429 inp \<and>
                    (case binding_pct (cur_usage inp) (plan_models inp) of
                       None \<Rightarrow> False | Some n \<Rightarrow> n \<ge> threshold inp - escalation_margin_pct));
          i1 = (if urgent then urgent_interval_s else i0)
      in if recent_429 inp then max i1 post_429_min_interval_s else i1)"

definition at_limit_now :: "plan_input \<Rightarrow> bool" where
  "at_limit_now inp = (case uw_headroom (cur_usage inp) (plan_models inp) of
                         None \<Rightarrow> False | Some h \<Rightarrow> h \<le> 0)"

definition plan_after_fetch :: "plan_input \<Rightarrow> rat \<times> rat" where
  "plan_after_fetch inp =
     (let interval = plan_interval inp;
          next0 = plan_now inp + interval * (1 + jitter_frac * (2 * plan_rng inp - 1));
          next1 = (if at_limit_now inp
                   then (case limiting_reset_ts (cur_usage inp) (plan_models inp) of
                           Some t \<Rightarrow> if t > next0 then t else next0 | None \<Rightarrow> next0)
                   else (case earliest_future_reset_ts (cur_usage inp) (plan_now inp) (plan_models inp) of
                           Some t \<Rightarrow> min next0 (t + reset_slack_s) | None \<Rightarrow> next0))
      in (next1, interval))"

section \<open>The two copies of the decision windows\<close>

text \<open>A scoped entry whose name is the empty string: the one place where the copies part.\<close>

definition unnamed_scope :: "json gomap \<Rightarrow> bool" where
  "unnamed_scope usage =
     (case as_arr (mget usage ''scoped'') of
        None \<Rightarrow> False
      | Some xs \<Rightarrow> list_ex (\<lambda>sv. case as_map sv of None \<Rightarrow> False
                                  | Some s \<Rightarrow> mget s ''name'' = JStr []) xs)"

lemma as_str_eq: "as_str v = Some s \<longleftrightarrow> v = JStr s"
  by (cases v) auto

lemma scoped_agree:
  "\<not> list_ex (\<lambda>sv. case as_map sv of None \<Rightarrow> False | Some s \<Rightarrow> mget s ''name'' = JStr []) xs \<Longrightarrow>
   map (\<lambda>s. rw_of (win_name s) s)
       (filter (\<lambda>s. model_matches models (win_name s)) (List.map_filter project_scoped xs))
     = List.map_filter (uw_scoped models) xs"
proof (induction xs)
  case (Cons v xs)
  then show ?case
    by (cases "as_map v"; cases "as_str (mget (the (as_map v)) ''name'')";
        cases "as_num (mget (the (as_map v)) ''pct'')")
      (auto simp: project_scoped_def uw_scoped_def num_ptr_def pct_float_def num_float_def rw_of_def
         as_str_eq map_filter_simps)
qed (simp add: map_filter_simps)

lemma field_agree:
  "(case project_window (mget usage f) of None \<Rightarrow> [] | Some w \<Rightarrow> [rw_of label w]) = uw_field usage f label"
  by (auto simp: project_window_def uw_field_def pct_float_def num_float_def num_ptr_def rw_of_def
           split: option.splits)

text \<open>
  Property C17: the poll policy and the switching decision read the same windows. As long as no
  scoped entry has an empty name, the usage package's own scan of the usage map yields exactly
  the windows of oauth's typed projection, so the two packages agree on every headroom.
\<close>

theorem windows_agree:
  assumes "\<not> unnamed_scope usage"
  shows "relevant_windows (new_usage usage) models = uw_windows usage models
       \<and> account_headroom (new_usage usage) models = uw_headroom usage models"
proof -
  have "relevant_windows (new_usage usage) models = uw_windows usage models"
  proof (cases "usage = []")
    case True
    then show ?thesis
      by (simp add: new_usage_def relevant_windows_def uw_windows_def uw_field_def mget_def)
  next
    case False
    then show ?thesis using assms field_agree
      by (auto simp: new_usage_def relevant_windows_def uw_windows_def unnamed_scope_def
            scoped_agree map_filter_simps split: option.splits)
  qed
  then show ?thesis by (simp add: account_headroom_def uw_headroom_def)
qed

definition sample_usage :: "json gomap" where
  "sample_usage =
     [(''five_hour'', JObj [(''pct'', JNum 42)]),
      (''seven_day'', JObj [(''pct'', JNum 97), (''resets_at'', JStr ''2026-01-02T00:00:00Z'')]),
      (''scoped'', JArr [JObj [(''name'', JStr ''Opus''), (''pct'', JNum 99)]])]"

lemma windows_agree_witness:
  "\<not> unnamed_scope sample_usage \<and>
   account_headroom (new_usage sample_usage) [''opus''] = uw_headroom sample_usage [''opus''] \<and>
   uw_headroom sample_usage [''opus''] = Some 1"
proof -
  have h: "\<not> unnamed_scope sample_usage" by code_simp
  moreover have "uw_headroom sample_usage [''opus''] = Some 1" by code_simp
  ultimately show ?thesis using windows_agree [OF h, of "[''opus'']"] by simp
qed

text \<open>
  Where the copies part. With the sentinel model "all", a scoped window whose name is
  empty counts for the poll policy and not for the switching decision: on this usage map the poll
  policy sees an account at its limit while the engine sees 90% headroom.
\<close>

theorem unnamed_scope_diverges:
  "let usage = [(''five_hour'', JObj [(''pct'', JNum 10)]),
                (''scoped'', JArr [JObj [(''name'', JStr []), (''pct'', JNum 100)]])]
   in account_headroom (new_usage usage) [''all''] = Some 90 \<and> uw_headroom usage [''all''] = Some 0"
  by code_simp

section \<open>Bounds of the plan\<close>

lemma plan_cadence_bounds:
  assumes "case prev_interval_s inp of None \<Rightarrow> True | Some p \<Rightarrow> 0 \<le> p \<and> p \<le> 600"
  shows "180 \<le> fst (plan_cadence inp) \<and> fst (plan_cadence inp) \<le> plan_ceiling inp"
  using assms
  by (auto simp: plan_cadence_def plan_base_def plan_default_def plan_ceiling_def poll_consts
           split: option.splits if_splits)

lemma plan_interval_lower:
  assumes "case prev_interval_s inp of None \<Rightarrow> True | Some p \<Rightarrow> 0 \<le> p \<and> p \<le> 600"
  shows "60 \<le> plan_interval inp"
  using plan_cadence_bounds [OF assms]
  by (auto simp: plan_interval_def poll_consts max_def Let_def split: prod.splits)

text \<open>
  The cadence stays in its band. From a previous interval of at most ten minutes (or
  none), the next interval is between one and ten minutes; with a recent 429 it is at least six
  minutes, so urgent polling is suppressed; the active account without a recent 429 is never
  planned further out than five minutes.
\<close>

theorem plan_interval_bounds:
  assumes "case prev_interval_s inp of None \<Rightarrow> True | Some p \<Rightarrow> 0 \<le> p \<and> p \<le> 600"
  shows "60 \<le> plan_interval inp \<and> plan_interval inp \<le> 600
       \<and> (recent_429 inp \<longrightarrow> 360 \<le> plan_interval inp)
       \<and> (is_active inp \<and> \<not> recent_429 inp \<longrightarrow> plan_interval inp \<le> 300)"
proof -
  obtain i moving where c: "plan_cadence inp = (i, moving)" by fastforce
  with plan_cadence_bounds [OF assms] have i: "180 \<le> i" "i \<le> plan_ceiling inp" by simp_all
  have "plan_interval inp \<in> {i, 60, max i 360, max 60 360}"
    by (simp add: plan_interval_def c poll_consts)
  then show ?thesis using i
    by (auto simp: plan_interval_def c plan_ceiling_def poll_consts max_def split: if_splits)
qed

definition sample_plan :: plan_input where
  "sample_plan = \<lparr>prev_interval_s = Some 600, prev_usage = [(''five_hour'', JObj [(''pct'', JNum 80)])],
     cur_usage = [(''five_hour'', JObj [(''pct'', JNum 90)])], is_active = True, threshold = 95,
     plan_models = [], recent_429 = False, plan_now = 1000, plan_rng = 1 / 2\<rparr>"

lemma plan_interval_bounds_witness:
  "plan_interval sample_plan = 60 \<and> 60 \<le> plan_interval sample_plan"
proof -
  have "plan_interval sample_plan = 60" by code_simp
  moreover have "case prev_interval_s sample_plan of None \<Rightarrow> True | Some p \<Rightarrow> 0 \<le> p \<and> p \<le> 600"
    by (simp add: sample_plan_def)
  ultimately show ?thesis using plan_interval_bounds [of sample_plan] by simp
qed

lemma latest_of_limiting:
  "limiting_reset_ts usage models =
     latest_of (map (\<lambda>w. parse_reset_ts (rw_resets w))
                    (filter (\<lambda>w. 100 \<le> rw_pct w) (uw_windows usage models)))"
proof -
  have "foldl (\<lambda>l w. if rw_pct w < 100 then l else later l (parse_reset_ts (rw_resets w))) a ws
     = foldl later a (map (\<lambda>w. parse_reset_ts (rw_resets w)) (filter (\<lambda>w. 100 \<le> rw_pct w) ws))"
    for a ws by (induction ws arbitrary: a) (simp_all add: not_less)
  then show ?thesis by (simp add: limiting_reset_ts_def latest_of_def)
qed

lemma earliest_future_fold:
  "case foldl (\<lambda>e w. earlier_future now e (parse_reset_ts (rw_resets w))) e0 ws of
     None \<Rightarrow> e0 = None \<and> (\<forall>w\<in>set ws. \<forall>t. parse_reset_ts (rw_resets w) = Some t \<longrightarrow> t \<le> now)
   | Some e \<Rightarrow> (now < e \<or> e0 = Some e) \<and> (\<forall>t. e0 = Some t \<longrightarrow> e \<le> t)
             \<and> (\<forall>w\<in>set ws. \<forall>t. parse_reset_ts (rw_resets w) = Some t \<and> now < t \<longrightarrow> e \<le> t)"
proof (induction ws arbitrary: e0)
  case Nil
  show ?case by (simp split: option.splits)
next
  case (Cons w ws)
  let ?e1 = "earlier_future now e0 (parse_reset_ts (rw_resets w))"
  show ?case using Cons.IH [of ?e1]
    by (auto simp: earlier_future_def not_less split: option.splits if_splits)
qed

lemma earliest_future_Some:
  assumes "earliest_future_reset_ts usage now models = Some e"
  shows "now < e" and
    "w \<in> set (uw_windows usage models) \<Longrightarrow> parse_reset_ts (rw_resets w) = Some t \<Longrightarrow> now < t \<Longrightarrow> e \<le> t"
  using earliest_future_fold [where now = now and ?e0.0 = None and ws = "uw_windows usage models"] assms
  by (auto simp: earliest_future_reset_ts_def)

lemma earliest_future_None:
  assumes "earliest_future_reset_ts usage now models = None"
    "w \<in> set (uw_windows usage models)" "parse_reset_ts (rw_resets w) = Some t"
  shows "t \<le> now"
  using earliest_future_fold [where now = now and ?e0.0 = None and ws = "uw_windows usage models"] assms
  by (auto simp: earliest_future_reset_ts_def)

lemma plan_after_fetch_parts:
  assumes "case prev_interval_s inp of None \<Rightarrow> True | Some p \<Rightarrow> 0 \<le> p \<and> p \<le> 600"
    and rng: "0 \<le> plan_rng inp" "plan_rng inp < 1"
    and plan: "plan_after_fetch inp = (next_poll, interval)"
  shows "plan_now inp < next_poll"
    and "\<not> at_limit_now inp \<Longrightarrow> next_poll \<le> plan_now inp + interval * (11 / 10)"
    and "at_limit_now inp \<Longrightarrow>
           limiting_reset_ts (cur_usage inp) (plan_models inp) = Some t \<Longrightarrow> t \<le> next_poll"
    and "\<not> at_limit_now inp \<Longrightarrow>
           earliest_future_reset_ts (cur_usage inp) (plan_now inp) (plan_models inp) = Some t \<Longrightarrow>
           next_poll \<le> t + 60"
proof -
  let ?next0 = "plan_now inp + interval * (1 + jitter_frac * (2 * plan_rng inp - 1))"
  let ?lim = "limiting_reset_ts (cur_usage inp) (plan_models inp)"
  let ?fut = "earliest_future_reset_ts (cur_usage inp) (plan_now inp) (plan_models inp)"
  have "interval = plan_interval inp" using plan by (auto simp: plan_after_fetch_def Let_def)
  with plan_interval_lower [OF assms(1)] have "60 \<le> interval" by simp
  moreover have "9 / 10 \<le> 1 + jitter_frac * (2 * plan_rng inp - 1)"
                "1 + jitter_frac * (2 * plan_rng inp - 1) \<le> 11 / 10"
    using rng by (simp_all add: jitter_frac_def field_simps)
  ultimately have n0: "plan_now inp < ?next0" "?next0 \<le> plan_now inp + interval * (11 / 10)"
    by (auto intro!: mult_pos_pos mult_left_mono)
  have lim: "at_limit_now inp \<Longrightarrow>
      next_poll = (case ?lim of Some t \<Rightarrow> if t > ?next0 then t else ?next0 | None \<Rightarrow> ?next0)"
    and fut: "\<not> at_limit_now inp \<Longrightarrow>
      next_poll = (case ?fut of Some t \<Rightarrow> min ?next0 (t + reset_slack_s) | None \<Rightarrow> ?next0)"
    using plan by (auto simp: plan_after_fetch_def Let_def)
  show "plan_now inp < next_poll"
    using n0 lim fut earliest_future_Some(1)
    by (cases "at_limit_now inp")
       (fastforce simp: not_less reset_slack_s_def split: option.splits if_splits)+
  show "\<not> at_limit_now inp \<Longrightarrow> next_poll \<le> plan_now inp + interval * (11 / 10)"
    using n0 fut by (auto split: option.splits)
  show "at_limit_now inp \<Longrightarrow> ?lim = Some t \<Longrightarrow> t \<le> next_poll"
    using lim by auto
  show "\<not> at_limit_now inp \<Longrightarrow> ?fut = Some t \<Longrightarrow> next_poll \<le> t + 60"
    using fut by (auto simp: reset_slack_s_def)
qed

text \<open>
  A plan always moves forward and honours the resets. For a generator value in [0, 1),
  the next poll is strictly after now. If the account is at its limit, the poll is not before any
  reset that a blocked window names; otherwise it is no later than the interval plus ten per cent,
  and no later than a minute after any window's future reset.
\<close>

theorem plan_schedule:
  assumes "case prev_interval_s inp of None \<Rightarrow> True | Some p \<Rightarrow> 0 \<le> p \<and> p \<le> 600"
    and "0 \<le> plan_rng inp" "plan_rng inp < 1"
    and "plan_after_fetch inp = (next_poll, interval)"
  shows "plan_now inp < next_poll \<and>
    (\<not> at_limit_now inp \<longrightarrow> next_poll \<le> plan_now inp + interval * (11 / 10)) \<and>
    (\<forall>w \<in> set (uw_windows (cur_usage inp) (plan_models inp)). \<forall>t.
       parse_reset_ts (rw_resets w) = Some t \<longrightarrow>
       (if at_limit_now inp then 100 \<le> rw_pct w \<longrightarrow> t \<le> next_poll
        else plan_now inp < t \<longrightarrow> next_poll \<le> t + 60))"
proof (intro conjI impI ballI allI)
  note parts = plan_after_fetch_parts [OF assms]
  show "plan_now inp < next_poll" by (rule parts)
  show "\<not> at_limit_now inp \<Longrightarrow> next_poll \<le> plan_now inp + interval * (11 / 10)" by (rule parts)
  fix w t
  assume w: "w \<in> set (uw_windows (cur_usage inp) (plan_models inp))"
    and t: "parse_reset_ts (rw_resets w) = Some t"
  show "if at_limit_now inp then 100 \<le> rw_pct w \<longrightarrow> t \<le> next_poll
        else plan_now inp < t \<longrightarrow> next_poll \<le> t + 60"
  proof (cases "at_limit_now inp")
    case True
    have "t \<le> next_poll" if "100 \<le> rw_pct w"
    proof -
      have "Some t \<in> set (map (\<lambda>w. parse_reset_ts (rw_resets w))
               (filter (\<lambda>w. 100 \<le> rw_pct w) (uw_windows (cur_usage inp) (plan_models inp))))"
        using w t that by force
      then show ?thesis using latest_of_ge parts(3) [OF True] latest_of_limiting order_trans by metis
    qed
    with True show ?thesis by simp
  next
    case False
    have "next_poll \<le> t + 60" if "plan_now inp < t"
    proof -
      have "earliest_future_reset_ts (cur_usage inp) (plan_now inp) (plan_models inp) \<noteq> None"
        using earliest_future_None [OF _ w t] that by force
      then obtain e where
        e: "earliest_future_reset_ts (cur_usage inp) (plan_now inp) (plan_models inp) = Some e" by auto
      then have "e \<le> t" using earliest_future_Some(2) [OF e w t that] by simp
      then show ?thesis using parts(4) [OF False e] by simp
    qed
    with False show ?thesis by simp
  qed
qed

lemma plan_schedule_witness:
  "plan_after_fetch sample_plan = (1060, 60) \<and> plan_now sample_plan < 1060"
proof -
  have p: "plan_after_fetch sample_plan = (1060, 60)" by code_simp
  have "case prev_interval_s sample_plan of None \<Rightarrow> True | Some p \<Rightarrow> 0 \<le> p \<and> p \<le> 600"
    "0 \<le> plan_rng sample_plan" "plan_rng sample_plan < 1" by (simp_all add: sample_plan_def)
  then show ?thesis using plan_schedule [of sample_plan, OF _ _ _ p] p by simp
qed

end
