(* ===== verification/UsageStore.thy ===== *)
theory UsageStore
  imports Lifecycle PollPolicy
begin

text \<open>
  internal/usage/store.go, entry.go and cache.go: the table of per-account usage rows that several
  cswap processes share, the read model of a row, and the choice of the next slot to fetch. Times are
  exact rationals. A read that fails is an empty table, as in the code.
\<close>

section \<open>Constants\<close>

definition stale_ok_s :: rat where "stale_ok_s = 300"
definition claim_ttl_s :: rat where "claim_ttl_s = 10"
definition trust_max_age_s :: rat where "trust_max_age_s = 3600"
definition backoff_base_s :: rat where "backoff_base_s = 30"
definition backoff_cap_s :: rat where "backoff_cap_s = 600"
definition retry_after_cap_s :: rat where "retry_after_cap_s = 900"
definition auth_dead_strikes :: int where "auth_dead_strikes = 1"
definition serve_ttl_s :: rat where "serve_ttl_s = 180"
definition edge_backoff_s :: rat where "edge_backoff_s = 300"

lemmas usage_consts = stale_ok_s_def claim_ttl_s_def trust_max_age_s_def backoff_base_s_def backoff_cap_s_def
  retry_after_cap_s_def auth_dead_strikes_def serve_ttl_s_def edge_backoff_s_def

definition permanent_auth_error :: "string \<Rightarrow> bool" where
  "permanent_auth_error e \<longleftrightarrow> e = ''invalid_grant''"

section \<open>Rows\<close>

type_synonym identity = "string \<times> string"

definition int_of_json :: "json \<Rightarrow> int" where
  "int_of_json v = (case num_ptr v of None \<Rightarrow> 0 | Some r \<Rightarrow> if 0 \<le> r then \<lfloor>r\<rfloor> else \<lceil>r\<rceil>)"

definition num_json :: "rat option \<Rightarrow> json" where
  "num_json p = (case p of None \<Rightarrow> JNull | Some r \<Rightarrow> JNum r)"

definition row_matches :: "json \<Rightarrow> identity \<Rightarrow> bool" where
  "row_matches row ident \<longleftrightarrow>
     (case as_map row of
        None \<Rightarrow> False
      | Some m \<Rightarrow>
          mget m ''email'' = JStr (fst ident)
          \<and> (if map_of m ''organizationUuid'' = None then snd ident = [] else mget m ''organizationUuid'' = JStr (snd ident)))"

definition fresh_row :: "identity \<Rightarrow> json gomap" where
  "fresh_row ident = [(''email'', JStr (fst ident)), (''organizationUuid'', JStr (snd ident))]"

text \<open>The row to mutate: the stored one when it is this account's, a fresh one otherwise.\<close>

definition own_row :: "json gomap \<Rightarrow> string \<Rightarrow> identity \<Rightarrow> json gomap" where
  "own_row rows num ident = (if row_matches (mget rows num) ident then decode_record (mget rows num) else fresh_row ident)"

definition decode_rows :: "jtext \<Rightarrow> json gomap" where
  "decode_rows t =
     (case t of
        TRaw _ \<Rightarrow> []
      | TJson v \<Rightarrow>
          (case as_map v of
             None \<Rightarrow> []
           | Some doc \<Rightarrow>
               if num_ptr (mget doc ''schemaVersion'') = Some 2
               then (case as_map (mget doc ''accounts'') of None \<Rightarrow> [] | Some rows \<Rightarrow> rows) else []))"

definition read_rows :: "world \<Rightarrow> json gomap \<times> world" where
  "read_rows w =
     (case usage_file w of
        None \<Rightarrow> ([], w)
      | Some t \<Rightarrow> (case os_call (\<lambda>w. w) w of (Some _, w) \<Rightarrow> ([], w) | (None, w) \<Rightarrow> (decode_rows t, w)))"

definition write_rows :: "json gomap \<Rightarrow> world \<Rightarrow> go_err option \<times> world" where
  "write_rows rows =
     os_atomic (\<lambda>w. w\<lparr>usage_file := Some (TJson (JObj [(''accounts'', JObj rows), (''schemaVersion'', JNum 2)]))\<rparr>)"

section \<open>Locked updates\<close>

definition mutate_rows ::
  "(string \<Rightarrow> identity) \<Rightarrow> string list \<Rightarrow> (string \<Rightarrow> json gomap \<Rightarrow> json gomap) \<Rightarrow> json gomap \<Rightarrow> json gomap" where
  "mutate_rows ids nums f rows =
     foldl (\<lambda>rows num. gm_put num (JObj (f num (own_row rows num (ids num)))) rows) rows nums"

definition mutate ::
  "(string \<Rightarrow> identity) \<Rightarrow> string list \<Rightarrow> (string \<Rightarrow> json gomap \<Rightarrow> json gomap) \<Rightarrow> world \<Rightarrow> go_err option \<times> world" where
  "mutate ids nums f =
     and_then acquire_lock (\<lambda>w. let (rows, w) = read_rows w in write_rows (mutate_rows ids nums f rows) w)"

definition claim :: "string list \<Rightarrow> (string \<Rightarrow> identity) \<Rightarrow> world \<Rightarrow> go_err option \<times> world" where
  "claim nums ids w =
     (if nums = [] then (None, w)
      else mutate ids nums (\<lambda>_ row. gm_put ''lastAttemptAt'' (JNum (w_now w)) row) w)"

text \<open>\<open>rowEligible\<close>\<close>

definition not_before :: "rat \<Rightarrow> json \<Rightarrow> bool" where
  "not_before now v \<longleftrightarrow> (case num_ptr v of None \<Rightarrow> True | Some t \<Rightarrow> t \<le> now)"

definition row_eligible :: "json gomap \<Rightarrow> rat \<Rightarrow> bool \<Rightarrow> bool" where
  "row_eligible row now respect_plans \<longleftrightarrow>
     (if auth_dead_strikes \<le> int_of_json (mget row ''authDeadStrikes'') then False
      else if \<not> not_before now (mget row ''backoffUntil'') then False
      else if (case num_ptr (mget row ''lastAttemptAt'') of None \<Rightarrow> False | Some la \<Rightarrow> now - la < claim_ttl_s) then False
      else (let stale = (case num_ptr (mget row ''fetchedAt'') of None \<Rightarrow> True | Some f \<Rightarrow> serve_ttl_s < now - f);
                next = num_ptr (mget row ''nextPollAt'');
                poll_due = (case next of None \<Rightarrow> False | Some t \<Rightarrow> t \<le> now)
            in if respect_plans then stale \<and> (poll_due \<or> next = None) else poll_due \<or> stale))"

fun reserve_rows ::
  "(string \<Rightarrow> identity) \<Rightarrow> rat \<Rightarrow> bool \<Rightarrow> string list \<Rightarrow> json gomap \<Rightarrow> string list \<times> json gomap" where
  "reserve_rows ids now rp [] rows = ([], rows)"
| "reserve_rows ids now rp (num # nums) rows =
     (if row_matches (mget rows num) (ids num) \<and> \<not> row_eligible (decode_record (mget rows num)) now rp
      then reserve_rows ids now rp nums rows
      else (let (won, rows) = reserve_rows ids now rp nums
                  (gm_put num (JObj (gm_put ''lastAttemptAt'' (JNum now) (own_row rows num (ids num)))) rows)
            in (num # won, rows)))"

definition reserve ::
  "string list \<Rightarrow> (string \<Rightarrow> identity) \<Rightarrow> bool \<Rightarrow> world \<Rightarrow> (go_err + string list) \<times> world" where
  "reserve nums ids respect_plans w =
     (if nums = [] then (Inr [], w)
      else (let now = w_now w
            in (case acquire_lock w of
                  (Some e, w) \<Rightarrow> (Inl e, w)
                | (None, w) \<Rightarrow>
                    (let (rows, w) = read_rows w; (won, rows) = reserve_rows ids now respect_plans nums rows
                     in if won = [] then (Inr [], w)
                        else (case write_rows rows w of (Some e, w) \<Rightarrow> (Inl e, w) | (None, w) \<Rightarrow> (Inr won, w))))))"

section \<open>Fetch outcomes\<close>

definition failure_backoff_s :: "int \<Rightarrow> rat option \<Rightarrow> rat" where
  "failure_backoff_s failures retry_after =
     (let computed = min (backoff_base_s * 2 ^ nat (failures - 1)) backoff_cap_s
      in (case retry_after of
            None \<Rightarrow> computed
          | Some r \<Rightarrow> if r = 0 then min (max computed edge_backoff_s) backoff_cap_s
                      else max (min r retry_after_cap_s) computed))"

record fetch_record =
  fr_usage :: "json gomap option"
  fr_error :: string
  fr_retry_after :: "rat option"
  fr_sentinel :: string

definition record_row :: "fetch_record \<Rightarrow> rat \<Rightarrow> json gomap \<Rightarrow> json gomap" where
  "record_row rec now row =
     (let row = gm_put ''lastAttemptAt'' (JNum now) row
      in if fr_error rec = [] then
           gm_put ''authDeadStrikes'' (JNum 0) (gm_put ''backoffUntil'' JNull (gm_put ''lastError'' JNull
             (gm_put ''consecutiveFailures'' (JNum 0) (gm_put ''fetchedAt'' (JNum now)
               (gm_put ''lastGood'' (case fr_usage rec of None \<Rightarrow> JNull | Some u \<Rightarrow> JObj u) row)))))
         else (let failures = int_of_json (mget row ''consecutiveFailures'') + 1;
                   row = gm_put ''lastError'' (JStr (fr_error rec)) (gm_put ''consecutiveFailures'' (JNum (of_int failures)) row);
                   row = (if fr_error rec = ''http-429'' then gm_put ''last429At'' (JNum now) row else row);
                   row = gm_put ''backoffUntil'' (JNum (now + failure_backoff_s failures (fr_retry_after rec))) row
               in if permanent_auth_error (fr_error rec)
                  then gm_put ''authDeadStrikes'' (JNum (of_int (int_of_json (mget row ''authDeadStrikes'') + 1))) row else row))"

definition record_outcomes ::
  "(string \<times> fetch_record) list \<Rightarrow> (string \<Rightarrow> identity) \<Rightarrow> world \<Rightarrow> go_err option \<times> world" where
  "record_outcomes outcomes ids w =
     (let effective = filter (\<lambda>(_, r). fr_sentinel r = []) outcomes
      in if effective = [] then (None, w)
         else mutate ids (map fst effective)
                (\<lambda>num row. case map_of effective num of None \<Rightarrow> row | Some r \<Rightarrow> record_row r (w_now w) row) w)"

type_synonym poll_plan = "rat option \<times> rat option"

definition set_poll_plan ::
  "(string \<times> poll_plan) list \<Rightarrow> (string \<Rightarrow> identity) \<Rightarrow> world \<Rightarrow> go_err option \<times> world" where
  "set_poll_plan plans ids w =
     (if plans = [] then (None, w)
      else mutate ids (map fst plans)
             (\<lambda>num row. case map_of plans num of
                None \<Rightarrow> row
              | Some (next, interval) \<Rightarrow>
                  gm_put ''pollIntervalS'' (num_json interval) (gm_put ''nextPollAt'' (num_json next) row)) w)"

definition clear_row :: "json gomap \<Rightarrow> json gomap" where
  "clear_row row =
     gm_put ''backoffUntil'' JNull (gm_put ''lastError'' JNull
       (gm_put ''consecutiveFailures'' (JNum 0) (gm_put ''authDeadStrikes'' (JNum 0) row)))"

definition clear_dead_token :: "string list \<Rightarrow> (string \<Rightarrow> identity) \<Rightarrow> world \<Rightarrow> go_err option \<times> world" where
  "clear_dead_token nums ids w = (if nums = [] then (None, w) else mutate ids nums (\<lambda>_. clear_row) w)"

section \<open>The read model\<close>

record usage_entry =
  u_sentinel :: string
  u_last_good :: "json gomap option"
  u_fetched_at :: "rat option"
  u_age_s :: "rat option"
  u_last_attempt :: "rat option"
  u_failures :: int
  u_last_error :: string
  u_backoff_until :: "rat option"
  u_next_poll :: "rat option"
  u_poll_interval :: "rat option"
  u_last_429 :: "rat option"
  u_dead_strikes :: int
  u_trust_extended :: bool

definition empty_entry :: usage_entry where
  "empty_entry = \<lparr>u_sentinel = [], u_last_good = None, u_fetched_at = None, u_age_s = None, u_last_attempt = None,
     u_failures = 0, u_last_error = [], u_backoff_until = None, u_next_poll = None, u_poll_interval = None,
     u_last_429 = None, u_dead_strikes = 0, u_trust_extended = False\<rparr>"

definition row_entry :: "rat \<Rightarrow> json gomap \<Rightarrow> usage_entry" where
  "row_entry now m =
     (let fetched = num_ptr (mget m ''fetchedAt''); age = map_option (\<lambda>f. now - f) fetched;
          failures = int_of_json (mget m ''consecutiveFailures''); next = num_ptr (mget m ''nextPollAt'');
          attempt = num_ptr (mget m ''lastAttemptAt'')
      in \<lparr>u_sentinel = [], u_last_good = as_map (mget m ''lastGood''), u_fetched_at = fetched, u_age_s = age,
          u_last_attempt = attempt, u_failures = failures, u_last_error = str_field m ''lastError'',
          u_backoff_until = num_ptr (mget m ''backoffUntil''), u_next_poll = next,
          u_poll_interval = num_ptr (mget m ''pollIntervalS''), u_last_429 = num_ptr (mget m ''last429At''),
          u_dead_strikes = int_of_json (mget m ''authDeadStrikes''),
          u_trust_extended =
            (case age of None \<Rightarrow> False | Some a \<Rightarrow> a \<le> trust_max_age_s)
            \<and> (0 < failures \<or> (case next of None \<Rightarrow> False | Some t \<Rightarrow> now < t)
               \<or> (case attempt of None \<Rightarrow> False | Some t \<Rightarrow> now - t < claim_ttl_s))\<rparr>)"

definition entry_for :: "rat \<Rightarrow> json gomap \<Rightarrow> string \<Rightarrow> identity \<Rightarrow> usage_entry" where
  "entry_for now rows num ident =
     (if row_matches (mget rows num) ident then row_entry now (decode_record (mget rows num)) else empty_entry)"

definition entries :: "(string \<times> identity) list \<Rightarrow> world \<Rightarrow> (string \<times> usage_entry) list \<times> world" where
  "entries ids w =
     (let now = w_now w; (rows, w) = read_rows w in (map (\<lambda>(num, ident). (num, entry_for now rows num ident)) ids, w))"

definition entry_fresh :: "usage_entry \<Rightarrow> rat \<Rightarrow> rat \<Rightarrow> bool" where
  "entry_fresh e now ttl \<longleftrightarrow> (case u_fetched_at e of None \<Rightarrow> False | Some f \<Rightarrow> now - f \<le> ttl)"

definition in_backoff :: "usage_entry \<Rightarrow> rat \<Rightarrow> bool" where
  "in_backoff e now \<longleftrightarrow> (case u_backoff_until e of None \<Rightarrow> False | Some t \<Rightarrow> now < t)"

definition claimed :: "usage_entry \<Rightarrow> rat \<Rightarrow> bool" where
  "claimed e now \<longleftrightarrow> (case u_last_attempt e of None \<Rightarrow> False | Some t \<Rightarrow> now - t < claim_ttl_s)"

definition token_dead :: "usage_entry \<Rightarrow> bool" where
  "token_dead e \<longleftrightarrow> auth_dead_strikes \<le> u_dead_strikes e"

datatype decision = DSentinel string | DUsage "json gomap" | DNone

definition decision_value :: "usage_entry \<Rightarrow> decision" where
  "decision_value e =
     (if u_sentinel e \<noteq> [] then DSentinel (u_sentinel e)
      else (case (u_last_good e, u_age_s e) of
              (Some u, Some a) \<Rightarrow> if a \<le> stale_ok_s \<or> u_trust_extended e then DUsage u else DNone
            | _ \<Rightarrow> DNone))"

definition with_sentinel :: "usage_entry \<Rightarrow> string \<Rightarrow> usage_entry" where
  "with_sentinel e s = (if s = [] then e else e\<lparr>u_sentinel := s\<rparr>)"

section \<open>The next slot to fetch\<close>

type_synonym due_row = "nat \<times> rat \<times> string"

definition due_row :: "(string \<Rightarrow> usage_entry option) \<Rightarrow> rat \<Rightarrow> string \<Rightarrow> due_row option" where
  "due_row es now num =
     (case es num of
        None \<Rightarrow> Some (0, 0, num)
      | Some e \<Rightarrow>
          if u_sentinel e \<noteq> [] then None else if token_dead e then None else if in_backoff e now then None
          else if (case u_next_poll e of None \<Rightarrow> False | Some t \<Rightarrow> now < t) then None
          else (case u_fetched_at e of None \<Rightarrow> Some (0, 0, num) | Some f \<Rightarrow> Some (1, f, num)))"

definition due_less :: "due_row \<Rightarrow> due_row \<Rightarrow> bool" where
  "due_less a b \<longleftrightarrow>
     (case (a, b) of ((r, f, n), (r', f', n')) \<Rightarrow>
        if r \<noteq> r' then r < r' else if f \<noteq> f' then f < f' else n < n')"

definition due_candidate :: "string list \<Rightarrow> (string \<Rightarrow> usage_entry option) \<Rightarrow> rat \<Rightarrow> string" where
  "due_candidate candidates es now =
     (case sort_stable due_less (List.map_filter (due_row es now) candidates) of [] \<Rightarrow> [] | (_, _, num) # _ \<Rightarrow> num)"

section \<open>The plain cache file\<close>

definition read_cache :: "jtext option \<Rightarrow> rat \<Rightarrow> rat \<Rightarrow> json option" where
  "read_cache t ttl now =
     (case t of
        Some (TJson v) \<Rightarrow>
          (case as_map v of
             None \<Rightarrow> None
           | Some m \<Rightarrow>
               (case num_ptr (mget m ''timestamp'') of
                  None \<Rightarrow> None
                | Some ts \<Rightarrow> if now - ts < ttl then map_of m ''data'' else None))
      | _ \<Rightarrow> None)"

definition write_cache :: "json \<Rightarrow> rat \<Rightarrow> jtext" where
  "write_cache data now = TJson (JObj [(''data'', data), (''timestamp'', JNum now)])"

section \<open>The backoff\<close>

lemma failure_backoff_le: "failure_backoff_s n ra \<le> 900"
  by (auto simp: failure_backoff_s_def usage_consts Let_def min_def max_def split: option.split)

text \<open>
  Property C37: the failure backoff is bounded and grows with the failures. It is always between 30 and
  900 seconds, at most 600 without a server-given delay, never shorter than a delay of up to 900 seconds
  the server asked for, and never shorter after more failures.
\<close>

theorem backoff_bounds:
  "30 \<le> failure_backoff_s n ra \<and> failure_backoff_s n ra \<le> 900
   \<and> failure_backoff_s n None \<le> 600
   \<and> (0 < r \<and> r \<le> 900 \<longrightarrow> r \<le> failure_backoff_s n (Some r))
   \<and> (n \<le> m \<longrightarrow> failure_backoff_s n ra \<le> failure_backoff_s m ra)"
proof -
  define c where "c n = min (30 * 2 ^ nat (n - 1)) (600 :: rat)" for n :: int
  have c: "30 \<le> c n" "c n \<le> 600" for n
    using one_le_power [of "2 :: rat" "nat (n - 1)"] by (auto simp: c_def)
  have mono: "c n \<le> c m" if "n \<le> m" for n m
  proof -
    have "(2 :: rat) ^ nat (n - 1) \<le> 2 ^ nat (m - 1)" using that by (intro power_increasing) auto
    then have "30 * (2 :: rat) ^ nat (n - 1) \<le> 30 * 2 ^ nat (m - 1)" by simp
    then show ?thesis unfolding c_def by (rule min.mono) simp
  qed
  have f: "failure_backoff_s n ra = (case ra of None \<Rightarrow> c n
      | Some r \<Rightarrow> if r = 0 then min (max (c n) 300) 600 else max (min r 900) (c n))" for n ra
    by (simp add: failure_backoff_s_def usage_consts c_def Let_def split: option.split)
  show ?thesis unfolding f using c [of n] c [of m] mono [of n m] by (auto split: option.split)
qed

lemma backoff_bounds_witness: "7 \<le> failure_backoff_s 1 (Some 7) \<and> failure_backoff_s 1 None \<le> failure_backoff_s 3 None"
  using backoff_bounds [of 1 None 7 3] by simp

section \<open>Rows after an update\<close>

definition table_of :: "world \<Rightarrow> json gomap" where
  "table_of w = (case usage_file w of None \<Rightarrow> [] | Some t \<Rightarrow> decode_rows t)"

definition good_row :: "identity \<Rightarrow> json gomap \<Rightarrow> bool" where
  "good_row ident row \<longleftrightarrow> distinct (gm_keys row) \<and> row_matches (JObj row) ident"

lemma row_matches_obj: "row_matches v ident \<Longrightarrow> \<exists>kvs. v = JObj kvs"
  by (cases v) (auto simp: row_matches_def)

lemma row_matches_decode: "row_matches v ident \<Longrightarrow> good_row ident (decode_record v)"
proof -
  assume m: "row_matches v ident"
  then obtain kvs where v: "v = JObj kvs" using row_matches_obj by blast
  have "distinct (gm_keys (obj_map kvs))" by (rule distinct_obj_map)
  with m v show ?thesis by (simp add: good_row_def row_matches_def decode_record_def obj_map_id)
qed

lemma good_row_decode: "good_row ident row \<Longrightarrow> decode_record (JObj row) = row"
  by (simp add: good_row_def decode_record_def obj_map_id)

lemma good_fresh_row: "good_row ident (fresh_row ident)"
  by (simp add: good_row_def fresh_row_def row_matches_def obj_map_id gm_keys_def mget_def)

lemma good_own_row: "good_row ident (own_row rows num ident)"
  by (simp add: own_row_def row_matches_decode good_fresh_row)

lemma good_row_put:
  assumes "good_row ident row" "k \<noteq> ''email''" "k \<noteq> ''organizationUuid''"
  shows "good_row ident (gm_put k v row)"
proof -
  have d: "distinct (gm_keys row)" using assms(1) by (simp add: good_row_def)
  have "obj_map row = row" "obj_map (gm_put k v row) = gm_put k v row"
    using d distinct_gm_put [OF d, of k v] by (simp_all add: obj_map_id)
  then show ?thesis using assms distinct_gm_put [OF d, of k v] by (simp add: good_row_def row_matches_def)
qed

lemma good_row_updates [intro]:
  assumes "good_row ident row"
  shows "good_row ident (record_row rec now row)" "good_row ident (clear_row row)"
    "good_row ident (gm_put ''lastAttemptAt'' v row)" "good_row ident (gm_put ''pollIntervalS'' v (gm_put ''nextPollAt'' u row))"
  using assms by (auto simp: record_row_def clear_row_def Let_def intro!: good_row_put)

lemma write_rows_ok:
  assumes "write_rows rows w = (None, w')" "distinct (gm_keys rows)"
  shows "table_of w' = rows"
  using assms by (auto simp: write_rows_def table_of_def decode_rows_def obj_map_id gm_keys_def mget_def num_ptr_def
      dest!: os_atomic_None)

lemma distinct_decode_rows: "distinct (gm_keys (decode_rows t))"
proof (cases t)
  case (TJson v)
  have "distinct (gm_keys m)" if "as_map u = Some m" for u m
    using that distinct_obj_map by (cases u) auto
  then show ?thesis using TJson by (auto simp: decode_rows_def gm_keys_def [of "[]"] split: option.split)
qed (simp add: decode_rows_def gm_keys_def)

lemma distinct_mutate_rows: "distinct (gm_keys rows) \<Longrightarrow> distinct (gm_keys (mutate_rows ids nums f rows))"
  unfolding mutate_rows_def by (induction nums arbitrary: rows) (simp_all add: distinct_gm_put)

text \<open>A property of one slot's row that every mutation keeps.\<close>

lemma mutate_rows_keeps:
  assumes "row_matches (mget rows n) ident" "P (decode_record (mget rows n))" "ids n = ident"
    "\<And>row. good_row ident row \<Longrightarrow> P row \<Longrightarrow> good_row ident (f n row) \<and> P (f n row)"
  shows "row_matches (mget (mutate_rows ids nums f rows) n) ident
    \<and> P (decode_record (mget (mutate_rows ids nums f rows) n))"
  using assms(1,2) unfolding mutate_rows_def
proof (induction nums arbitrary: rows)
  case (Cons num nums)
  show ?case
  proof (cases "num = n")
    case False
    then show ?thesis using Cons by simp
  next
    case True
    define row where "row = decode_record (mget rows n)"
    have own: "own_row rows num (ids num) = row" using Cons.prems(1) assms(3) True by (simp add: own_row_def row_def)
    have g: "good_row ident (f n row) \<and> P (f n row)"
      using assms(4) row_matches_decode [OF Cons.prems(1)] Cons.prems(2) unfolding row_def by blast
    then have "row_matches (JObj (f n row)) ident" "decode_record (JObj (f n row)) = f n row"
      using good_row_decode [of ident "f n row"] by (simp_all add: good_row_def)
    with g show ?thesis using Cons.IH [of "gm_put num (JObj (f num (own_row rows num (ids num)))) rows"] own True by simp
  qed
qed simp

lemma touches_usage [frames]:
  "touches R w w1 \<Longrightarrow> touches R w (snd (read_rows w1))"
  "touches R w w1 \<Longrightarrow> RUsage \<in> R \<Longrightarrow> touches R w (snd (write_rows rows w1))"
  unfolding read_rows_def write_rows_def by (intro frames; simp)+

lemma touches_mutate [frames]:
  "touches R w w1 \<Longrightarrow> RUsage \<in> R \<Longrightarrow> touches R w (snd (mutate ids nums f w1))"
  unfolding mutate_def Let_def by (intro frames; simp)

lemma touches_clear_dead_token [frames]:
  "touches R w w1 \<Longrightarrow> RUsage \<in> R \<Longrightarrow> touches R w (snd (clear_dead_token nums ids w1))"
  "touches R w w1 \<Longrightarrow> RUsage \<in> R \<Longrightarrow> touches R w (snd (set_poll_plan plans ids w1))"
  unfolding clear_dead_token_def set_poll_plan_def by (intro frames; simp)+

lemma read_rows_idle: "faults w = [] \<Longrightarrow> read_rows w = (table_of w, w)"
  by (simp add: read_rows_def table_of_def os_call_quiet split: option.split)

lemma read_rows_table:
  assumes "read_rows w = (rows, w1)"
  shows "usage_file w1 = usage_file w" "rows = table_of w \<or> rows = []" "distinct (gm_keys rows)" "faults w = [] \<Longrightarrow> rows = table_of w"
proof -
  have "touches {} w w1" by (rule touches_result [OF assms]) (intro frames; simp)
  then show "usage_file w1 = usage_file w" using touches_same [of "{}" w w1 RUsage] by simp
  show r: "rows = table_of w \<or> rows = []"
    using assms by (auto simp: read_rows_def table_of_def split: option.splits prod.splits)
  have "distinct (gm_keys (table_of w))"
    by (auto simp: table_of_def distinct_decode_rows gm_keys_def [of "[]"] split: option.split)
  with r show "distinct (gm_keys rows)" by (auto simp: gm_keys_def [of "[]"])
  show "faults w = [] \<Longrightarrow> rows = table_of w" using assms read_rows_idle [of w] by auto
qed

lemma acquire_lock_None: "acquire_lock w = (None, w') \<Longrightarrow> \<exists>fs. w' = w\<lparr>faults := fs\<rparr>"
  by (cases "take_fault w") (auto simp: acquire_lock_def dest!: take_fault_eq split: fault.splits)

lemma acquire_lock_idle: "faults w = [] \<Longrightarrow> acquire_lock w = (None, w)"
  by (simp add: acquire_lock_def take_fault_def)

lemma table_of_faults [simp]: "table_of (w\<lparr>faults := fs\<rparr>) = table_of w"
  by (simp add: table_of_def)

text \<open>A locked update that succeeds applies the mutation to the table it read.\<close>

lemma mutate_ok:
  assumes "mutate ids nums f w = (None, w')"
  shows "\<exists>rows. table_of w' = mutate_rows ids nums f rows \<and> (rows = table_of w \<or> rows = [])
    \<and> (faults w = [] \<longrightarrow> rows = table_of w)"
proof -
  obtain w1 where l: "acquire_lock w = (None, w1)"
    and m: "(let (rows, w) = read_rows w1 in write_rows (mutate_rows ids nums f rows) w) = (None, w')"
    using assms by (auto simp: mutate_def and_then_None)
  obtain rows w2 where r: "read_rows w1 = (rows, w2)" by fastforce
  have t: "table_of w1 = table_of w" "faults w = [] \<Longrightarrow> faults w1 = []"
    using acquire_lock_None [OF l] acquire_lock_idle [of w] l by auto
  have "table_of w' = mutate_rows ids nums f rows"
    using m r read_rows_table(3) [OF r] by (intro write_rows_ok distinct_mutate_rows) simp_all
  with read_rows_table(2,4) [OF r] t show ?thesis by auto
qed

section \<open>Reservations\<close>

definition held :: "json gomap \<Rightarrow> string \<Rightarrow> identity \<Rightarrow> rat \<Rightarrow> bool" where
  "held rows n ident now \<longleftrightarrow> row_matches (mget rows n) ident \<and> \<not> row_eligible (decode_record (mget rows n)) now False
     \<and> \<not> row_eligible (decode_record (mget rows n)) now True"

lemma reserve_rows_held:
  "held rows n (ids n) now \<Longrightarrow> reserve_rows ids now rp nums rows = (won, rows') \<Longrightarrow>
   n \<notin> set won \<and> mget rows' n = mget rows n"
proof (induction nums arbitrary: rows won)
  case (Cons num nums)
  show ?case
  proof (cases "row_matches (mget rows num) (ids num) \<and> \<not> row_eligible (decode_record (mget rows num)) now rp")
    case True
    then show ?thesis using Cons by simp
  next
    case False
    then have n: "num \<noteq> n" using Cons.prems(1) by (cases rp) (auto simp: held_def)
    define rows1 where "rows1 = gm_put num (JObj (gm_put ''lastAttemptAt'' (JNum now) (own_row rows num (ids num)))) rows"
    have m: "mget rows1 n = mget rows n" using n by (simp add: rows1_def)
    obtain won1 where r: "reserve_rows ids now rp nums rows1 = (won1, rows')" "won = num # won1"
      using Cons.prems(2) False by (auto simp: rows1_def split: prod.splits)
    have "held rows1 n (ids n) now" using Cons.prems(1) m by (simp add: held_def)
    from Cons.IH [OF this r(1)] m n r(2) show ?thesis by simp
  qed
qed simp

lemma recent_attempt_held:
  assumes "row_matches (mget rows n) ident" "num_ptr (mget (decode_record (mget rows n)) ''lastAttemptAt'') = Some t" "now - t < 10"
  shows "held rows n ident now"
  using assms by (simp add: held_def row_eligible_def claim_ttl_s_def)

lemma reserve_rows_won:
  "reserve_rows ids now rp nums rows = (won, rows') \<Longrightarrow> n \<in> set won \<Longrightarrow>
   row_matches (mget rows' n) (ids n) \<and> num_ptr (mget (decode_record (mget rows' n)) ''lastAttemptAt'') = Some now"
proof (induction nums arbitrary: rows won)
  case (Cons num nums)
  show ?case
  proof (cases "row_matches (mget rows num) (ids num) \<and> \<not> row_eligible (decode_record (mget rows num)) now rp")
    case True
    then show ?thesis using Cons by simp
  next
    case False
    define row where "row = gm_put ''lastAttemptAt'' (JNum now) (own_row rows num (ids num))"
    define rows1 where "rows1 = gm_put num (JObj row) rows"
    have g: "good_row (ids num) row" unfolding row_def by (intro good_row_updates good_own_row)
    obtain won1 where r: "reserve_rows ids now rp nums rows1 = (won1, rows')" "won = num # won1"
      using Cons.prems(1) False by (auto simp: rows1_def row_def split: prod.splits)
    show ?thesis
    proof (cases "n \<in> set won1")
      case True
      then show ?thesis using Cons.IH [OF r(1)] by blast
    next
      case False
      then have n: "n = num" using Cons.prems(2) r(2) by simp
      have "mget rows1 n = JObj row" by (simp add: rows1_def n)
      then have c: "row_matches (mget rows1 n) (ids n)" "num_ptr (mget (decode_record (mget rows1 n)) ''lastAttemptAt'') = Some now"
        using g good_row_decode [OF g] by (simp_all add: good_row_def n row_def num_ptr_def)
      then have "mget rows' n = mget rows1 n" using reserve_rows_held [of rows1 n ids now, OF recent_attempt_held r(1)] by simp
      with c show ?thesis by simp
    qed
  qed
qed simp

lemma distinct_reserve_rows:
  "distinct (gm_keys rows) \<Longrightarrow> distinct (gm_keys (snd (reserve_rows ids now rp nums rows)))"
  by (induction nums arbitrary: rows) (simp_all add: distinct_gm_put case_prod_unfold Let_def)

lemma reserve_ok:
  assumes "reserve nums ids rp w = (Inr won, w')" "won \<noteq> []"
  shows "\<exists>rows. reserve_rows ids (w_now w) rp nums rows = (won, table_of w')"
proof -
  have ne: "nums \<noteq> []" using assms by (auto simp: reserve_def)
  obtain l w1 where l: "acquire_lock w = (l, w1)" by fastforce
  then have ln: "l = None" using assms(1) ne by (cases l) (simp_all add: reserve_def)
  obtain rows w2 where r: "read_rows w1 = (rows, w2)" by fastforce
  obtain won1 rows1 where s: "reserve_rows ids (w_now w) rp nums rows = (won1, rows1)" by fastforce
  obtain e w3 where wr: "write_rows rows1 w2 = (e, w3)" by fastforce
  have "won1 = won \<and> e = None \<and> w3 = w'"
    using assms ne l ln r s wr by (cases e) (auto simp: reserve_def Let_def split: if_splits)
  then have "table_of w' = rows1" using wr s write_rows_ok distinct_reserve_rows [OF read_rows_table(3) [OF r], of ids "w_now w" rp nums] by simp
  with s \<open>won1 = won \<and> e = None \<and> w3 = w'\<close> show ?thesis by blast
qed

lemma reserve_idle:
  assumes "faults w = []" "reserve nums ids rp w = (Inr won, w')"
  shows "won = fst (reserve_rows ids (w_now w) rp nums (table_of w))"
proof (cases "nums = []")
  case False
  then show ?thesis using assms
    by (auto simp: reserve_def acquire_lock_idle read_rows_idle Let_def split: prod.splits option.splits if_splits)
qed (use assms in \<open>simp add: reserve_def\<close>)

lemma reserve_rows_other:
  "reserve_rows ids now rp nums rows = (won, rows') \<Longrightarrow> n \<notin> set won \<Longrightarrow> mget rows' n = mget rows n"
proof (induction nums arbitrary: rows won)
  case (Cons num nums)
  show ?case
  proof (cases "row_matches (mget rows num) (ids num) \<and> \<not> row_eligible (decode_record (mget rows num)) now rp")
    case True
    then show ?thesis using Cons by simp
  next
    case False
    define rows1 where "rows1 = gm_put num (JObj (gm_put ''lastAttemptAt'' (JNum now) (own_row rows num (ids num)))) rows"
    obtain won1 where r: "reserve_rows ids now rp nums rows1 = (won1, rows')" "won = num # won1"
      using Cons.prems(1) False by (auto simp: rows1_def split: prod.splits)
    then show ?thesis using Cons.IH [OF r(1)] Cons.prems(2) by (simp add: rows1_def)
  qed
qed simp

lemma reserve_table:
  assumes "faults w = []" "reserve nums ids rp w = (Inr won, w')"
  shows "mget (table_of w') n = mget (snd (reserve_rows ids (w_now w) rp nums (table_of w))) n"
proof -
  obtain won1 rows1 where s: "reserve_rows ids (w_now w) rp nums (table_of w) = (won1, rows1)" by fastforce
  have won1: "won1 = won" using reserve_idle [OF assms] s by simp
  show ?thesis
  proof (cases "won = []")
    case True
    then have "usage_file w' = usage_file w"
      using assms s won1 by (auto simp: reserve_def acquire_lock_idle read_rows_idle Let_def split: if_splits option.splits)
    then show ?thesis using reserve_rows_other [OF s, of n] s won1 True by (simp add: table_of_def)
  next
    case False
    obtain e w3 where wr: "write_rows rows1 w = (e, w3)" by fastforce
    then have "e = None \<and> w3 = w'"
      using assms s False won1 by (cases e) (auto simp: reserve_def acquire_lock_idle read_rows_idle Let_def split: if_splits)
    then show ?thesis
      using wr write_rows_ok distinct_reserve_rows [of "table_of w" ids "w_now w" rp nums] s read_rows_table(3) [OF read_rows_idle]
        assms(1) by auto
  qed
qed

lemma mutate_keeps_row:
  assumes "mutate ids nums f w = (None, w')" "faults w = []" "ids n = ident"
    "row_matches (mget (table_of w) n) ident" "P (decode_record (mget (table_of w) n))"
    "\<And>row. good_row ident row \<Longrightarrow> P row \<Longrightarrow> good_row ident (f n row) \<and> P (f n row)"
  shows "row_matches (mget (table_of w') n) ident \<and> P (decode_record (mget (table_of w') n))"
proof -
  have t: "table_of w' = mutate_rows ids nums f (table_of w)" using mutate_ok [OF assms(1)] assms(2) by auto
  show ?thesis unfolding t using assms(4,5,3,6) by (rule mutate_rows_keeps [where P = P])
qed

text \<open>
  What happens to the shared table while it can be read: any process claims, reserves, records, plans or
  clears any slots, \<open>n\<close> as well, with its own view of who is in which slot (but the same of slot \<open>n\<close>); or
  anything else happens that leaves the table alone, and time passes.
\<close>

inductive shared_step :: "string \<Rightarrow> identity \<Rightarrow> world \<Rightarrow> world \<Rightarrow> bool" for n ident where
  claim: "claim nums ids w = (None, w') \<Longrightarrow> faults w = [] \<Longrightarrow> ids n = ident \<Longrightarrow> shared_step n ident w w'"
| reserve: "reserve nums ids rp w = (Inr won, w') \<Longrightarrow> faults w = [] \<Longrightarrow> ids n = ident \<Longrightarrow> shared_step n ident w w'"
| fetch: "record_outcomes outs ids w = (None, w') \<Longrightarrow> faults w = [] \<Longrightarrow> ids n = ident \<Longrightarrow> shared_step n ident w w'"
| plan: "set_poll_plan plans ids w = (None, w') \<Longrightarrow> faults w = [] \<Longrightarrow> ids n = ident \<Longrightarrow> shared_step n ident w w'"
| clear: "clear_dead_token nums ids w = (None, w') \<Longrightarrow> faults w = [] \<Longrightarrow> ids n = ident \<Longrightarrow> shared_step n ident w w'"
| elsewhere: "usage_file w' = usage_file w \<Longrightarrow> w_now w \<le> w_now w' \<Longrightarrow> shared_step n ident w w'"

definition attempted_since :: "rat \<Rightarrow> json gomap \<Rightarrow> bool" where
  "attempted_since t row \<longleftrightarrow> (case num_ptr (mget row ''lastAttemptAt'') of None \<Rightarrow> False | Some la \<Rightarrow> t \<le> la)"

lemma attempted_since_put [simp]:
  "k \<noteq> ''lastAttemptAt'' \<Longrightarrow> attempted_since t (gm_put k v row) = attempted_since t row"
  "attempted_since t (gm_put ''lastAttemptAt'' (JNum la) row) \<longleftrightarrow> t \<le> la"
  by (simp_all add: attempted_since_def num_ptr_def)

lemma attempted_since_record: "t \<le> now \<Longrightarrow> attempted_since t (record_row r now row)"
  by (simp add: record_row_def Let_def)

definition reserved_since :: "rat \<Rightarrow> string \<Rightarrow> identity \<Rightarrow> world \<Rightarrow> bool" where
  "reserved_since t n ident w \<longleftrightarrow> t \<le> w_now w \<and> row_matches (mget (table_of w) n) ident
     \<and> attempted_since t (decode_record (mget (table_of w) n))"

lemma mutate_keeps_reserved:
  assumes "mutate ids nums f w = (None, w')" "faults w = []" "ids n = ident" "reserved_since t n ident w"
    "\<And>row. good_row ident row \<Longrightarrow> attempted_since t row \<Longrightarrow> good_row ident (f n row) \<and> attempted_since t (f n row)"
  shows "reserved_since t n ident w'"
proof -
  have "touches {RUsage} w w'" by (rule touches_result [OF assms(1)]) (intro frames; simp)
  then have "w_now w \<le> w_now w'" by (rule touches_clock)
  moreover have "row_matches (mget (table_of w') n) ident \<and> attempted_since t (decode_record (mget (table_of w') n))"
    using assms(4) by (intro mutate_keeps_row [OF assms(1-3)] assms(5)) (simp_all add: reserved_since_def)
  ultimately show ?thesis using assms(4) unfolding reserved_since_def by simp
qed

lemma touches_reserve [frames]: "touches R w w1 \<Longrightarrow> RUsage \<in> R \<Longrightarrow> touches R w (snd (reserve nums ids rp w1))"
  unfolding reserve_def Let_def by (intro frames; simp?) (subst case_prod_unfold, intro frames; simp)

lemma shared_step_reserved:
  assumes "shared_step n ident w w'" "reserved_since t n ident w"
  shows "reserved_since t n ident w'"
  using assms(1)
proof cases
  case (claim nums ids)
  have t: "t \<le> w_now w" using assms(2) by (simp add: reserved_since_def)
  show ?thesis
  proof (cases "nums = []")
    case False
    then have "mutate ids nums (\<lambda>_ row. gm_put ''lastAttemptAt'' (JNum (w_now w)) row) w = (None, w')"
      using claim(1) by (simp add: claim_def)
    then show ?thesis using claim(2,3) assms(2) by (rule mutate_keeps_reserved) (use t in auto)
  qed (use claim assms(2) in \<open>simp add: claim_def\<close>)
next
  case (reserve nums ids rp won)
  obtain won1 rows1 where s: "reserve_rows ids (w_now w) rp nums (table_of w) = (won1, rows1)" by fastforce
  have m: "mget (table_of w') n = mget rows1 n" using reserve_table [OF reserve(2,1)] s by simp
  have "touches {RUsage} w w'" by (rule touches_result [OF reserve(1)]) (intro frames; simp)
  then have "t \<le> w_now w'" "t \<le> w_now w"
    using assms(2) touches_clock [of "{RUsage}" w w'] by (simp_all add: reserved_since_def)
  then show ?thesis
    using assms(2) m reserve_rows_won [OF s, of n] reserve_rows_other [OF s, of n] reserve(3)
    by (cases "n \<in> set won1") (simp_all add: reserved_since_def attempted_since_def)
next
  case (fetch outs ids)
  have t: "t \<le> w_now w" using assms(2) by (simp add: reserved_since_def)
  show ?thesis
  proof (cases "filter (\<lambda>(_, r). fr_sentinel r = []) outs = []")
    case False
    then have "mutate ids (map fst (filter (\<lambda>(_, r). fr_sentinel r = []) outs))
        (\<lambda>num row. case map_of (filter (\<lambda>(_, r). fr_sentinel r = []) outs) num of
           None \<Rightarrow> row | Some r \<Rightarrow> record_row r (w_now w) row) w = (None, w')"
      using fetch(1) by (simp add: record_outcomes_def Let_def)
    then show ?thesis using fetch(2,3) assms(2)
      by (rule mutate_keeps_reserved) (use t in \<open>auto simp: attempted_since_record split: option.split\<close>)
  qed (use fetch assms(2) in \<open>simp add: record_outcomes_def\<close>)
next
  case (plan plans ids)
  show ?thesis
  proof (cases "plans = []")
    case False
    then have "mutate ids (map fst plans) (\<lambda>num row. case map_of plans num of None \<Rightarrow> row
        | Some (next, interval) \<Rightarrow> gm_put ''pollIntervalS'' (num_json interval) (gm_put ''nextPollAt'' (num_json next) row)) w = (None, w')"
      using plan(1) by (simp add: set_poll_plan_def)
    then show ?thesis using plan(2,3) assms(2) by (rule mutate_keeps_reserved) (auto split: option.split)
  qed (use plan assms(2) in \<open>simp add: set_poll_plan_def\<close>)
next
  case (clear nums ids)
  show ?thesis
  proof (cases "nums = []")
    case False
    then have "mutate ids nums (\<lambda>_. clear_row) w = (None, w')" using clear(1) by (simp add: clear_dead_token_def)
    then show ?thesis using clear(2,3) assms(2) by (rule mutate_keeps_reserved) (auto simp: clear_row_def good_row_put)
  qed (use clear assms(2) in \<open>simp add: clear_dead_token_def\<close>)
next
  case elsewhere
  then show ?thesis using assms(2) by (auto simp: reserved_since_def table_of_def)
qed

text \<open>
  Property C38: no two collectors fetch the same slot at once. A slot that one process has reserved cannot
  be reserved by another one for the next ten seconds, whichever of the two rules they use and whatever
  any process has done to the shared table in between, this slot's row included: claimed, reserved,
  recorded a fetch, planned or cleared a row. (As long as the table can be read and written when they do,
  the clock does not go back, and they agree on the account in this slot.)
\<close>

theorem reserve_exclusive:
  assumes "reserve nums ids rp w = (Inr won, w1)" "n \<in> set won" "(shared_step n (ids n))\<^sup>*\<^sup>* w1 w2"
    "faults w2 = []" "w_now w2 < w_now w + 10" "ids2 n = ids n" "reserve nums2 ids2 rp2 w2 = (Inr won2, w3)"
  shows "n \<notin> set won2"
proof -
  have "won \<noteq> []" using assms(2) by auto
  then obtain rows where r: "reserve_rows ids (w_now w) rp nums rows = (won, table_of w1)" using reserve_ok [OF assms(1)] by blast
  have "touches {RUsage} w w1" by (rule touches_result [OF assms(1)]) (intro frames; simp)
  then have "reserved_since (w_now w) n (ids n) w1"
    using reserve_rows_won [OF r assms(2)] touches_clock by (simp add: reserved_since_def attempted_since_def)
  with assms(3) have "reserved_since (w_now w) n (ids n) w2"
    by (induction rule: rtranclp_induct) (auto intro: shared_step_reserved)
  then obtain la where "row_matches (mget (table_of w2) n) (ids2 n)" "w_now w \<le> la"
      "num_ptr (mget (decode_record (mget (table_of w2) n)) ''lastAttemptAt'') = Some la"
    using assms(6) by (auto simp: reserved_since_def attempted_since_def split: option.splits)
  then have "held (table_of w2) n (ids2 n) (w_now w2)" using assms(5) by (intro recent_attempt_held) auto
  then show ?thesis
    using reserve_idle [OF assms(4,7)] reserve_rows_held [of "table_of w2" n ids2 "w_now w2" rp2 nums2]
    by (metis prod.collapse)
qed

text \<open>Between the two reservations the slot's row is cleared, and nine seconds pass.\<close>

lemma reserve_exclusive_witness:
  "fst (reserve [''2''] (\<lambda>_. (''a@x'', [])) False
     (snd (clear_dead_token [''2''] (\<lambda>_. (''a@x'', []))
        (snd (reserve [''2'', ''1''] (\<lambda>_. (''a@x'', [])) True sample_idle)))\<lparr>w_now := 9\<rparr>)) = Inr []"
proof -
  let ?ids = "\<lambda>_ :: string. (''a@x'', [] :: string)"
  let ?r = "reserve [''2'', ''1''] ?ids True sample_idle"
  let ?c = "clear_dead_token [''2''] ?ids (snd ?r)"
  let ?w = "(snd ?c)\<lparr>w_now := 9\<rparr>"
  let ?s = "reserve [''2''] ?ids False ?w"
  have "fst ?r = Inr [''2'', ''1'']" "fst ?c = None" by code_simp+
  then have r: "?r = (Inr [''2'', ''1''], snd ?r)" "?c = (None, snd ?c)" by (simp_all add: prod_eq_iff)
  have f: "faults (snd ?r) = []" "faults ?w = []" by code_simp+
  have "w_now (snd ?c) = 0" by code_simp
  then have "shared_step ''2'' (?ids ''2'') (snd ?c) ?w" by (intro shared_step.elsewhere) simp_all
  with shared_step.clear [where n = "''2''" and ident = "?ids ''2''", OF r(2) f(1) refl]
  have st: "(shared_step ''2'' (?ids ''2''))\<^sup>*\<^sup>* (snd ?r) ?w" by (meson r_into_rtranclp rtranclp_trans)
  have t: "w_now ?w < w_now sample_idle + 10" by (simp add: sample_linux_def)
  have e: "fst ?s = Inr []" by code_simp
  then have s: "?s = (Inr [], snd ?s)" by (simp add: prod_eq_iff)
  have "''2'' \<notin> set ([] :: string list)" by (rule reserve_exclusive [OF r(1) _ st f(2) t _ s]) simp_all
  with e show ?thesis by simp
qed

section \<open>Dead tokens\<close>

definition strikes :: "json gomap \<Rightarrow> int" where
  "strikes row = int_of_json (mget row ''authDeadStrikes'')"

definition dead :: "world \<Rightarrow> string \<Rightarrow> identity \<Rightarrow> bool" where
  "dead w n ident \<longleftrightarrow> row_matches (mget (table_of w) n) ident \<and> auth_dead_strikes \<le> strikes (decode_record (mget (table_of w) n))"

text \<open>
  What cswap processes can do to the shared table while it is readable, other than to clear slot
  \<open>n\<close> or to record a successful fetch for it.
\<close>

inductive usage_step :: "(string \<Rightarrow> identity) \<Rightarrow> string \<Rightarrow> world \<Rightarrow> world \<Rightarrow> bool" for ids n where
  claim: "claim nums ids w = (None, w') \<Longrightarrow> faults w = [] \<Longrightarrow> usage_step ids n w w'"
| reserve: "reserve nums ids rp w = (Inr won, w') \<Longrightarrow> faults w = [] \<Longrightarrow> usage_step ids n w w'"
| fetch: "record_outcomes outs ids w = (None, w') \<Longrightarrow> faults w = [] \<Longrightarrow>
    \<forall>(num, r) \<in> set outs. num = n \<longrightarrow> fr_error r \<noteq> [] \<or> fr_sentinel r \<noteq> [] \<Longrightarrow> usage_step ids n w w'"
| plan: "set_poll_plan plans ids w = (None, w') \<Longrightarrow> faults w = [] \<Longrightarrow> usage_step ids n w w'"
| clear: "clear_dead_token nums ids w = (None, w') \<Longrightarrow> faults w = [] \<Longrightarrow> n \<notin> set nums \<Longrightarrow> usage_step ids n w w'"
| time: "usage_step ids n w (w\<lparr>w_now := t\<rparr>)"

lemma int_of_json_int [simp]: "int_of_json (JNum (of_int i)) = i"
  by (simp add: int_of_json_def num_ptr_def)

lemma strikes_failed: "fr_error r \<noteq> [] \<Longrightarrow> strikes row \<le> strikes (record_row r now row)"
  using int_of_json_int [of "int_of_json (mget row ''authDeadStrikes'') + 1"] by (auto simp: strikes_def record_row_def Let_def)

lemma mutate_rows_other:
  "n \<notin> set nums \<Longrightarrow> mget (mutate_rows ids nums f rows) n = mget rows n"
  unfolding mutate_rows_def by (induction nums arbitrary: rows) simp_all

lemma mutate_keeps_dead:
  assumes "mutate ids nums f w = (None, w')" "faults w = []" "dead w n (ids n)"
    "\<And>row. good_row (ids n) row \<Longrightarrow> auth_dead_strikes \<le> strikes row \<Longrightarrow>
       n \<in> set nums \<Longrightarrow> good_row (ids n) (f n row) \<and> auth_dead_strikes \<le> strikes (f n row)"
  shows "dead w' n (ids n)"
proof (cases "n \<in> set nums")
  case True
  have t: "table_of w' = mutate_rows ids nums f (table_of w)" using mutate_ok [OF assms(1)] assms(2) by auto
  show ?thesis using assms(3,4) True
    by (simp add: dead_def t) (intro mutate_rows_keeps [where P = "\<lambda>row. auth_dead_strikes \<le> strikes row"]; simp)
next
  case False
  have t: "table_of w' = mutate_rows ids nums f (table_of w)" using mutate_ok [OF assms(1)] assms(2) by auto
  show ?thesis using assms(3) by (simp add: dead_def t mutate_rows_other [OF False])
qed

lemma dead_held: "dead w n ident \<Longrightarrow> held (table_of w) n ident now"
  by (simp add: dead_def held_def row_eligible_def strikes_def)

lemma usage_step_dead:
  assumes "usage_step ids n w w'" "dead w n (ids n)"
  shows "dead w' n (ids n)"
  using assms
proof (cases rule: usage_step.cases)
  case (claim nums)
  then show ?thesis using assms(2)
    by (auto simp: claim_def strikes_def split: if_splits intro: mutate_keeps_dead)
next
  case (reserve nums rp won)
  have r: "won = fst (reserve_rows ids (w_now w) rp nums (table_of w))" using reserve reserve_idle by blast
  obtain won1 rows1 where s: "reserve_rows ids (w_now w) rp nums (table_of w) = (won1, rows1)" by fastforce
  have m: "mget rows1 n = mget (table_of w) n" using reserve_rows_held [OF dead_held [OF assms(2)] s] by simp
  show ?thesis
  proof (cases "won = []")
    case True
    then have "usage_file w' = usage_file w"
      using reserve s by (auto simp: reserve_def acquire_lock_idle read_rows_idle Let_def split: if_splits option.splits prod.splits)
    then show ?thesis using assms(2) by (simp add: dead_def table_of_def)
  next
    case False
    obtain e w3 where wr: "write_rows rows1 w = (e, w3)" by fastforce
    have "won1 = won" using r s by simp
    then have "e = None \<and> w3 = w'"
      using reserve s wr False by (cases e) (auto simp: reserve_def acquire_lock_idle read_rows_idle Let_def split: if_splits)
    then have "table_of w' = rows1"
      using wr write_rows_ok distinct_reserve_rows [of "table_of w" ids "w_now w" rp nums] s read_rows_table(3) [OF read_rows_idle]
        reserve(2) by auto
    then show ?thesis using assms(2) m by (simp add: dead_def)
  qed
next
  case (fetch outs)
  have ok: "fr_error r \<noteq> []" if "map_of (filter (\<lambda>(_, r). fr_sentinel r = []) outs) n = Some r" for r
    using fetch(3) map_of_SomeD [OF that] by auto
  show ?thesis
  proof (cases "filter (\<lambda>(_, r). fr_sentinel r = []) outs = []")
    case True
    then show ?thesis using fetch assms(2) by (simp add: record_outcomes_def)
  next
    case False
    then have "mutate ids (map fst (filter (\<lambda>(_, r). fr_sentinel r = []) outs))
        (\<lambda>num row. case map_of (filter (\<lambda>(_, r). fr_sentinel r = []) outs) num of
           None \<Rightarrow> row | Some r \<Rightarrow> record_row r (w_now w) row) w = (None, w')"
      using fetch(1) by (simp add: record_outcomes_def Let_def)
    then show ?thesis using fetch(2) assms(2)
      by (rule mutate_keeps_dead) (auto split: option.split dest!: ok intro: order_trans [OF _ strikes_failed])
  qed
next
  case (plan plans)
  show ?thesis
  proof (cases "plans = []")
    case True
    then show ?thesis using plan assms(2) by (simp add: set_poll_plan_def)
  next
    case False
    then have "mutate ids (map fst plans) (\<lambda>num row. case map_of plans num of None \<Rightarrow> row
        | Some (next, interval) \<Rightarrow> gm_put ''pollIntervalS'' (num_json interval) (gm_put ''nextPollAt'' (num_json next) row)) w = (None, w')"
      using plan(1) by (simp add: set_poll_plan_def)
    then show ?thesis using plan(2) assms(2)
      by (rule mutate_keeps_dead) (auto simp: strikes_def split: option.split)
  qed
next
  case (clear nums)
  then show ?thesis using assms(2)
    by (auto simp: clear_dead_token_def split: if_splits intro: mutate_keeps_dead)
next
  case (time t)
  then show ?thesis using assms(2) by (simp add: dead_def table_of_def)
qed

text \<open>
  Property C39: a dead token stays quarantined. Once a slot's row carries a strike, no sequence of
  claims, reservations, failed fetches, plans and clearings of other slots makes it eligible again:
  only a successful fetch or a new credential for this slot does.
\<close>

theorem dead_until_cleared:
  assumes "(usage_step ids n)\<^sup>*\<^sup>* w w1" "dead w n (ids n)" "faults w1 = []" "reserve nums ids rp w1 = (Inr won, w2)"
  shows "dead w1 n (ids n) \<and> n \<notin> set won"
proof -
  have d: "dead w1 n (ids n)" using assms(1,2) by (induction rule: rtranclp_induct) (auto intro: usage_step_dead)
  obtain won1 rows1 where s: "reserve_rows ids (w_now w1) rp nums (table_of w1) = (won1, rows1)" by fastforce
  then have "won = won1" using reserve_idle [OF assms(3,4)] by simp
  then show ?thesis using d reserve_rows_held [OF dead_held [OF d] s] by simp
qed

definition sample_dead :: world where
  "sample_dead = sample_idle\<lparr>usage_file := Some (TJson (JObj [(''schemaVersion'', JNum 2), (''accounts'', JObj
     [(''2'', JObj [(''email'', JStr ''a@x''), (''authDeadStrikes'', JNum 1), (''fetchedAt'', JNum 5)])])]))\<rparr>"

lemma dead_until_cleared_witness:
  "fst (reserve [''2''] (\<lambda>_. (''a@x'', [])) True ((snd (claim [''2''] (\<lambda>_. (''a@x'', [])) sample_dead))\<lparr>w_now := 90000\<rparr>)) = Inr []"
proof -
  let ?ids = "\<lambda>_ :: string. (''a@x'', [] :: string)"
  let ?c = "claim [''2''] ?ids sample_dead"
  let ?w = "(snd ?c)\<lparr>w_now := 90000\<rparr>"
  let ?s = "reserve [''2''] ?ids True ?w"
  have f: "faults sample_dead = []" "faults ?w = []" by code_simp+
  have "fst ?c = None" by code_simp
  then have "?c = (None, snd ?c)" by (simp add: prod_eq_iff)
  then have "usage_step ?ids ''2'' sample_dead (snd ?c)" using f(1) by (rule usage_step.claim)
  then have st: "(usage_step ?ids ''2'')\<^sup>*\<^sup>* sample_dead ?w"
    by (rule rtranclp.rtrancl_into_rtrancl [OF r_into_rtranclp]) (rule usage_step.time)
  have d: "dead sample_dead ''2'' (?ids ''2'')" by code_simp
  have "fst ?s = Inr []" by code_simp
  then have s: "?s = (Inr [], snd ?s)" by (simp add: prod_eq_iff)
  have "''2'' \<notin> set ([] :: string list)" using dead_until_cleared [OF st d f(2) s] by blast
  with \<open>fst ?s = Inr []\<close> show ?thesis by simp
qed

section \<open>Retrying\<close>

lemma strikes_put [simp]: "k \<noteq> ''authDeadStrikes'' \<Longrightarrow> strikes (gm_put k v row) = strikes row"
  by (simp add: strikes_def)

lemma failed_row_eligible:
  assumes "fr_error r \<noteq> []" "\<not> permanent_auth_error (fr_error r)" "strikes row < auth_dead_strikes"
    "\<And>f. num_ptr (mget row ''fetchedAt'') = Some f \<Longrightarrow> f \<le> t0" "t0 + 900 \<le> t"
    "rp \<Longrightarrow> not_before t (mget row ''nextPollAt'')"
  shows "row_eligible (record_row r t0 row) t rp"
proof -
  define row1 where "row1 = record_row r t0 row"
  define b where "b = failure_backoff_s (int_of_json (mget row ''consecutiveFailures'') + 1) (fr_retry_after r)"
  have v: "mget row1 ''backoffUntil'' = JNum (t0 + b)" "mget row1 ''lastAttemptAt'' = JNum t0"
    "mget row1 ''fetchedAt'' = mget row ''fetchedAt''" "strikes row1 = strikes row"
    "mget row1 ''nextPollAt'' = mget row ''nextPollAt''"
    using assms(1,2) by (auto simp: row1_def record_row_def Let_def b_def)
  have b: "b \<le> 900" unfolding b_def using failure_backoff_le by blast
  have stale: "case num_ptr (mget row ''fetchedAt'') of None \<Rightarrow> True | Some f \<Rightarrow> serve_ttl_s < t - f"
  proof (cases "num_ptr (mget row ''fetchedAt'')")
    case (Some f)
    then have "f \<le> t0" by (rule assms(4))
    then show ?thesis using Some assms(5) by (simp add: serve_ttl_s_def)
  qed simp
  have "\<not> auth_dead_strikes \<le> int_of_json (mget row1 ''authDeadStrikes'')"
    using v(4) assms(3) by (simp add: strikes_def)
  then show ?thesis unfolding row1_def [symmetric] row_eligible_def
    using v(1-3,5) stale b assms(5,6) by (cases rp; auto simp: not_before_def num_ptr_def claim_ttl_s_def Let_def split: option.splits)
qed

text \<open>
  Property C40: a failed fetch is retried. Unless the failure condemned the token, the slot can be reserved
  again 900 seconds later, whatever delay the server asked for: by the automatic switcher's rule
  at once, and by the rule of the other commands, which keep to the poll plan, as soon as the row's
  planned time has come too (that of an exhausted account may be hours away). The row must be as the failed
  fetch left it, and the table readable; other rows may have changed.
\<close>

theorem failed_fetch_retried:
  assumes "record_outcomes [(n, r)] ids w = (None, w1)" "faults w = []" "fr_error r \<noteq> []" "fr_sentinel r = []"
    "\<not> permanent_auth_error (fr_error r)" "\<not> dead w n (ids n)"
    "\<forall>f. u_fetched_at (entry_for (w_now w) (table_of w) n (ids n)) = Some f \<longrightarrow> f \<le> w_now w"
    "mget (table_of v) n = mget (table_of w1) n" "faults v = []" "w_now w + 900 \<le> w_now v"
    "rp \<Longrightarrow> \<forall>t. u_next_poll (entry_for (w_now v) (table_of v) n (ids n)) = Some t \<longrightarrow> t \<le> w_now v"
  shows "fst (reserve [n] ids rp v) = Inr [n]"
proof -
  define row where "row = own_row (table_of w) n (ids n)"
  have m: "mutate ids [n] (\<lambda>num row. case map_of [(n, r)] num of None \<Rightarrow> row | Some r \<Rightarrow> record_row r (w_now w) row) w = (None, w1)"
    using assms(1,4) by (simp add: record_outcomes_def Let_def)
  have "table_of w1 = gm_put n (JObj (record_row r (w_now w) row)) (table_of w)"
    using mutate_ok [OF m] assms(2) by (auto simp: mutate_rows_def row_def)
  then have t: "mget (table_of v) n = JObj (record_row r (w_now w) row)" using assms(8) by simp
  have g: "good_row (ids n) (record_row r (w_now w) row)" unfolding row_def by (intro good_row_updates good_own_row)
  have d: "decode_record (mget (table_of v) n) = record_row r (w_now w) row" using t good_row_decode [OF g] by simp
  have "strikes row < auth_dead_strikes"
    using assms(6) by (auto simp: row_def own_row_def dead_def strikes_def fresh_row_def mget_def int_of_json_def num_ptr_def
        auth_dead_strikes_def)
  moreover have "num_ptr (mget row ''fetchedAt'') = Some f \<Longrightarrow> f \<le> w_now w" for f
    using assms(7) by (auto simp: row_def own_row_def entry_for_def row_entry_def Let_def fresh_row_def mget_def num_ptr_def
        split: if_splits)
  moreover have "not_before (w_now v) (mget row ''nextPollAt'')" if "rp"
  proof -
    have "mget (record_row r (w_now w) row) ''nextPollAt'' = mget row ''nextPollAt''" by (simp add: record_row_def Let_def)
    moreover have "row_matches (mget (table_of v) n) (ids n)" using g t by (simp add: good_row_def)
    ultimately show ?thesis
      using assms(11) [OF that] d by (auto simp: entry_for_def row_entry_def Let_def not_before_def split: option.split)
  qed
  ultimately have "row_eligible (record_row r (w_now w) row) (w_now v) rp"
    using assms(3,5,10) by (intro failed_row_eligible) auto
  then have "fst (reserve_rows ids (w_now v) rp [n] (table_of v)) = [n]" using d by simp
  then obtain rows where rr: "reserve_rows ids (w_now v) rp [n] (table_of v) = ([n], rows)" by (metis prod.collapse)
  show ?thesis
    by (simp only: reserve_def acquire_lock_idle [OF assms(9)] read_rows_idle [OF assms(9)] rr Let_def prod.case option.case)
      (simp add: write_rows_def os_atomic_quiet [OF assms(9)])
qed

definition sample_failure :: fetch_record where
  "sample_failure = \<lparr>fr_usage = None, fr_error = ''http-429'', fr_retry_after = Some 86400, fr_sentinel = []\<rparr>"

lemma failed_fetch_retried_witness:
  "fst (reserve [''1''] (\<lambda>_. (''a@x'', [])) False
     ((snd (record_outcomes [(''1'', sample_failure)] (\<lambda>_. (''a@x'', [])) sample_dead))\<lparr>w_now := 900\<rparr>)) = Inr [''1'']"
proof -
  let ?ids = "\<lambda>_ :: string. (''a@x'', [] :: string)"
  let ?r = "record_outcomes [(''1'', sample_failure)] ?ids sample_dead"
  let ?v = "(snd ?r)\<lparr>w_now := 900\<rparr>"
  have "fst ?r = None" by code_simp
  then have r: "?r = (None, snd ?r)" by (simp add: prod_eq_iff)
  have f: "faults sample_dead = []" "faults ?v = []" by code_simp+
  have e: "fr_error sample_failure \<noteq> []" "fr_sentinel sample_failure = []" "\<not> permanent_auth_error (fr_error sample_failure)"
    by code_simp+
  have d: "\<not> dead sample_dead ''1'' (?ids ''1'')" by code_simp
  have "u_fetched_at (entry_for (w_now sample_dead) (table_of sample_dead) ''1'' (?ids ''1'')) = None" by code_simp
  then have p: "\<forall>f. u_fetched_at (entry_for (w_now sample_dead) (table_of sample_dead) ''1'' (?ids ''1'')) = Some f \<longrightarrow> f \<le> w_now sample_dead"
    by simp
  have t: "w_now sample_dead + 900 \<le> w_now ?v" by (simp add: sample_dead_def sample_linux_def)
  have u: "mget (table_of ?v) ''1'' = mget (table_of (snd ?r)) ''1''" by (simp add: table_of_def)
  show ?thesis by (rule failed_fetch_retried [OF r f(1) e d p u f(2) t]) simp
qed

section \<open>Decisions\<close>

text \<open>
  A switching decision only rests on the account's own recent data. Whatever the table holds, usage
  that a decision is based on was fetched for this very e-mail and organization and is at most an hour
  old, at most five minutes unless a failure, a plan or a running fetch explains why it has not been
  renewed.
\<close>

theorem trusted_usage_is_own:
  assumes "decision_value (entry_for now rows num ident) = DUsage u"
  shows "\<exists>row f. mget rows num = JObj row \<and> row_matches (JObj row) ident
     \<and> mget (decode_record (JObj row)) ''fetchedAt'' = JNum f \<and> as_map (mget (decode_record (JObj row)) ''lastGood'') = Some u
     \<and> now - f \<le> 3600 \<and> (now - f \<le> 300 \<or> u_trust_extended (entry_for now rows num ident))"
proof -
  have m: "row_matches (mget rows num) ident"
    using assms by (rule contrapos_pp) (simp add: entry_for_def empty_entry_def decision_value_def)
  then obtain row where row: "mget rows num = JObj row" using row_matches_obj by blast
  let ?m = "decode_record (JObj row)"
  have e: "entry_for now rows num ident = row_entry now ?m" using m row by (simp add: entry_for_def)
  obtain f where f: "num_ptr (mget ?m ''fetchedAt'') = Some f" "as_map (mget ?m ''lastGood'') = Some u"
    "now - f \<le> 300 \<or> u_trust_extended (row_entry now ?m)"
    using assms unfolding e
    by (auto simp: decision_value_def row_entry_def Let_def stale_ok_s_def split: option.splits if_splits)
  have "now - f \<le> 3600"
    using f(1,3) by (auto simp: row_entry_def Let_def trust_max_age_s_def split: option.splits)
  moreover have "mget ?m ''fetchedAt'' = JNum f" using f(1) by (cases "mget ?m ''fetchedAt''") (simp_all add: num_ptr_def)
  ultimately show ?thesis using m row f e by auto
qed

lemma trusted_usage_is_own_witness:
  "\<exists>row f. row_matches (JObj row) (''a@x'', []) \<and> (100 :: rat) - f \<le> 3600
     \<and> mget (decode_record (JObj row)) ''fetchedAt'' = JNum f"
proof -
  let ?row = "[(''email'', JStr ''a@x''), (''fetchedAt'', JNum 5), (''lastGood'', JObj [])]"
  have "decision_value (entry_for 100 [(''1'', JObj ?row)] ''1'' (''a@x'', [])) = DUsage []" by code_simp
  from trusted_usage_is_own [OF this] show ?thesis by blast
qed

section \<open>The candidate\<close>

lemma due_strict: "strict_total due_less"
proof
  fix a b c :: due_row
  show "\<not> due_less a a" by (cases a) (simp add: due_less_def)
  show "due_less a b \<Longrightarrow> due_less b c \<Longrightarrow> due_less a c"
    by (cases a; cases b; cases c) (auto simp: due_less_def split: if_splits)
  show "due_less a c \<Longrightarrow> due_less a b \<or> due_less b c"
    by (cases a; cases b; cases c) (auto simp: due_less_def split: if_splits)
  show "a \<noteq> b \<Longrightarrow> due_less a b \<or> due_less b a"
    by (cases a; cases b) (auto simp: due_less_def split: if_splits)
qed

interpretation due: strict_total due_less
  by (rule due_strict)

text \<open>
  The next slot to fetch is the stalest one that is due. It is a candidate that is not
  quarantined, backing off, planned for later or overlaid with a sentinel; no due candidate ranks before
  it; and there is none only when no candidate is due.
\<close>

theorem due_candidate_stalest:
  assumes "[] \<notin> set candidates"
  shows "if due_candidate candidates es now = [] then \<forall>num \<in> set candidates. due_row es now num = None
    else due_candidate candidates es now \<in> set candidates
      \<and> (\<exists>r. due_row es now (due_candidate candidates es now) = Some r
           \<and> (\<forall>num \<in> set candidates. \<forall>r'. due_row es now num = Some r' \<longrightarrow> \<not> due_less r' r))"
proof -
  define rows where "rows = List.map_filter (due_row es now) candidates"
  have mem: "r \<in> set rows \<longleftrightarrow> (\<exists>num \<in> set candidates. due_row es now num = Some r)" for r
    unfolding rows_def by (induction candidates) (auto simp: List.map_filter_simps split: option.split)
  have name: "due_row es now num = Some r \<Longrightarrow> snd (snd r) = num" for num r
    by (auto simp: due_row_def split: option.splits if_splits)
  show ?thesis
  proof (cases "sort_stable due_less rows")
    case Nil
    then have "rows = []" by (metis list.set(1) set_empty set_sort_stable)
    moreover have "due_candidate candidates es now = []" using Nil by (simp add: due_candidate_def rows_def)
    moreover have "due_row es now num = None" if "num \<in> set candidates" for num
      using that mem [of "the (due_row es now num)"] \<open>rows = []\<close> by (cases "due_row es now num") auto
    ultimately show ?thesis by simp
  next
    case (Cons r rs)
    then have "r \<in> set rows" by (metis list.set_intros(1) set_sort_stable)
    then obtain num where num: "num \<in> set candidates" "due_row es now num = Some r" using mem by blast
    have d: "due_candidate candidates es now = num"
      using Cons name [OF num(2)] by (cases r) (simp add: due_candidate_def rows_def)
    have "\<not> due_less r' r" if "r' \<in> set rows" for r' using due.sort_head_least [OF Cons that] .
    then show ?thesis using num d assms mem by auto
  qed
qed

lemma due_candidate_stalest_witness:
  "due_candidate [''1'', ''2''] (\<lambda>n. if n = ''1'' then Some (empty_entry\<lparr>u_fetched_at := Some 5\<rparr>) else Some empty_entry) 100 = ''2''
   \<and> due_row (\<lambda>n. if n = ''1'' then Some (empty_entry\<lparr>u_fetched_at := Some 5\<rparr>) else Some empty_entry) 100 ''2'' \<noteq> None"
proof -
  let ?es = "\<lambda>n :: string. if n = ''1'' then Some (empty_entry\<lparr>u_fetched_at := Some 5\<rparr>) else Some empty_entry"
  have c: "due_candidate [''1'', ''2''] ?es 100 = ''2''" by code_simp
  have "[] \<notin> set [''1'', ''2'']" by simp
  from due_candidate_stalest [OF this, of ?es 100] c show ?thesis by auto
qed

section \<open>The plain cache\<close>

lemma cache_roundtrip: "read_cache (Some (write_cache data t)) ttl now = (if now - t < ttl then Some data else None)"
  by (simp add: read_cache_def write_cache_def obj_map_id gm_keys_def mget_def num_ptr_def)

end
