(* ===== verification/Switching.thy ===== *)
theory Switching
  imports UsageStore
begin

text \<open>
  internal/switching: whose credential is live (provenance.go, classify.go), the physical switch with its
  rollback ledger (perform.go, transaction.go, configio.go), and the re-plan after it (replan.go).
  The profile endpoint is the parameter \<open>profile\<close>: what it answers for an access token, \<open>None\<close> for any
  failure. Warnings are collected whether they are printed or returned. Nothing is displayed.
\<close>

section \<open>The live configuration\<close>

text \<open>A raw read that tells absence from failure, and one that does not.\<close>

definition read_config_text :: "world \<Rightarrow> (go_err + jtext option) \<times> world" where
  "read_config_text w =
     (case live_config w of
        None \<Rightarrow> (Inr None, w)
      | Some t \<Rightarrow> (case os_call (\<lambda>w. w) w of (Some e, w) \<Rightarrow> (Inl e, w) | (None, w) \<Rightarrow> (Inr (Some t), w)))"

definition read_config_json :: "world \<Rightarrow> json gomap option \<times> world" where
  "read_config_json = read_global_config"

text \<open>
  \<open>atomicConfigWrite\<close>: the rename is followed by a chmod, so a call that reports a failure may have
  replaced the file.
\<close>

definition write_config_json :: "json gomap \<Rightarrow> world \<Rightarrow> go_err option \<times> world" where
  "write_config_json m = write_live_config (TJson (encode_record m))"

definition write_config_text :: "jtext \<Rightarrow> world \<Rightarrow> go_err option \<times> world" where
  "write_config_text t = write_live_config t"

definition oauth_section :: "json gomap \<Rightarrow> json gomap option" where
  "oauth_section cfg =
     (case as_map (mget cfg ''oauthAccount'') of None \<Rightarrow> None | Some m \<Rightarrow> if m = [] then None else Some m)"

section \<open>Provenance of the live credential\<close>

record resolved_id =
  ri_uuid :: string
  ri_email :: string
  ri_org :: string

record provenance =
  prov_live :: "string option"
  prov_resolved :: "resolved_id option"

definition no_provenance :: provenance where
  "no_provenance = \<lparr>prov_live = None, prov_resolved = None\<rparr>"

text \<open>\<open>GetCurrentAccount\<close>: a configuration that cannot be read is no login.\<close>

definition live_identity_of :: "world \<Rightarrow> (string \<times> string) option \<times> world" where
  "live_identity_of w = (let (cfg, w) = read_config_json w in (oauth_identity cfg, w))"

definition read_active_value :: "world \<Rightarrow> string option \<times> world" where
  "read_active_value w = (case read_active w of (Inl _, w) \<Rightarrow> (None, w) | (Inr (v, _), w) \<Rightarrow> (Some v, w))"

definition live_matches_slot_backup :: "string \<Rightarrow> string \<Rightarrow> world \<Rightarrow> bool \<times> world" where
  "live_matches_slot_backup slot email w =
     (case read_active_value w of
        (None, w) \<Rightarrow> (True, w)
      | (Some live, w) \<Rightarrow>
          if live = [] then (True, w)
          else (let (backup, w) = read_account_credentials slot email w
                in (backup \<noteq> [] \<and> (live = backup \<or> fingerprint_equal live backup), w)))"

definition prefetch_live_identity :: "(string \<Rightarrow> resolved_id option) \<Rightarrow> world \<Rightarrow> provenance \<times> world" where
  "prefetch_live_identity profile w =
     (case read_active_value w of
        (None, w) \<Rightarrow> (no_provenance, w)
      | (Some live, w) \<Rightarrow>
          (let found = \<lparr>prov_live = Some live, prov_resolved = None\<rparr>
           in if live = [] then (found, w)
              else (case live_identity_of w of
                      (None, w) \<Rightarrow> (found, w)
                    | (Some (email, org), w) \<Rightarrow>
                        (let slot = find_account_slot (w_roster w) email org
                         in if slot = [] then (found, w)
                            else (let (backup, w) = read_account_credentials slot email w
                                  in if backup = live \<or> fingerprint_equal backup live then (found, w)
                                     else (let token = extract_access_token live
                                           in if token = [] then (found, w)
                                              else (found\<lparr>prov_resolved := profile token\<rparr>, w)))))))"

datatype self_action = SelfNoop | SelfNoopDiverged | SelfReconcile provenance

definition self_switch_action ::
  "(string \<Rightarrow> resolved_id option) \<Rightarrow> string \<Rightarrow> string \<Rightarrow> world \<Rightarrow> self_action \<times> world" where
  "self_switch_action profile slot email w =
     (let (ok, w) = live_matches_slot_backup slot email w
      in if ok then (SelfNoop, w)
         else (let (prov, w) = prefetch_live_identity profile w
               in (if prov_resolved prov = None then SelfNoopDiverged else SelfReconcile prov, w)))"

section \<open>Who owns the outgoing credential\<close>

datatype owner = OwnBytes | OwnFamily | OwnRotated | Foreign string | ForeignSynced string | Alien | Unresolved

text \<open>The slots in rotation order, then any slot outside it in textual order.\<close>

definition sorted_account_keys :: "seq_data \<Rightarrow> string list" where
  "sorted_account_keys d =
     (let listed = filter (\<lambda>k. map_of (accounts d) k \<noteq> None) (map itoa (seq_nums d))
      in listed @ sort_stable (<) (filter (\<lambda>k. k \<notin> set listed) (gm_keys (accounts d))))"

definition rec_uuid :: "seq_data \<Rightarrow> string \<Rightarrow> string" where
  "rec_uuid d num = str_field (rec_at d num) ''uuid''"

text \<open>Steps 5: the slot a resolved identity names, by e-mail and organization, then by account uuid.\<close>

definition owner_slot :: "seq_data \<Rightarrow> resolved_id \<Rightarrow> string \<Rightarrow> string" where
  "owner_slot d rid uuid =
     (let slot = (if ri_email rid \<noteq> [] then find_account_slot (Some d) (ri_email rid) (ri_org rid) else []);
          stored = trim_space (rec_uuid d slot);
          slot = (if slot \<noteq> [] \<and> uuid \<noteq> [] \<and> stored \<noteq> [] \<and> stored \<noteq> uuid then [] else slot)
      in if slot = [] \<and> uuid \<noteq> []
         then (case filter (\<lambda>num. rec_uuid d num \<noteq> [] \<and> rec_uuid d num = uuid \<and> rec_org d num = ri_org rid)
                      (sorted_account_keys d) of
                 [] \<Rightarrow> [] | num # _ \<Rightarrow> num)
         else slot)"

definition classify_outgoing ::
  "string \<Rightarrow> string \<Rightarrow> string \<Rightarrow> provenance \<Rightarrow> seq_data \<Rightarrow> world \<Rightarrow> owner \<times> world" where
  "classify_outgoing current email live prov d w =
     (let (backup, w) = read_account_credentials current email w
      in if backup \<noteq> [] \<and> backup = live then (OwnBytes, w)
         else if backup \<noteq> [] \<and> fingerprint_equal backup live then (OwnFamily, w)
         else (case prov_resolved prov of
                 None \<Rightarrow> (Unresolved, w)
               | Some rid \<Rightarrow>
                   if prov_live prov \<noteq> Some live then (Unresolved, w)
                   else
                     (let uuid = trim_space (ri_uuid rid); own_uuid = trim_space (rec_uuid d current);
                          own_org = rec_org d current
                      in if uuid \<noteq> [] \<and> own_uuid \<noteq> [] \<and> uuid = own_uuid \<and> (ri_org rid = [] \<or> own_org = [] \<or> ri_org rid = own_org)
                         then (OwnRotated, w)
                         else
                           (let slot = owner_slot d rid uuid
                            in if slot = current then (OwnRotated, w)
                               else if slot = [] then (if ri_email rid \<noteq> [] \<and> ri_org rid \<noteq> [] then Alien else Unresolved, w)
                               else if uuid = [] \<or> trim_space (rec_uuid d slot) \<noteq> uuid then (Alien, w)
                               else (let (foreign, w) = read_account_credentials slot (rec_email d slot) w
                                     in (if foreign \<noteq> [] \<and> (foreign = live \<or> fingerprint_equal foreign live)
                                         then ForeignSynced slot else Foreign slot, w))))))"

definition stash_live_credential :: "string \<Rightarrow> string \<Rightarrow> string \<Rightarrow> world \<Rightarrow> go_err option \<times> world" where
  "stash_live_credential creds reason slot w = write_unclaimed creds reason slot (snd (read_config_json w))"

section \<open>The locks\<close>

definition cc_lock_timeout :: go_err where
  "cc_lock_timeout = Err KindClaudeCodeLockTimeout ''Could not acquire''"

definition acquire_cc_lock :: "world \<Rightarrow> go_err option \<times> world" where
  "acquire_cc_lock w =
     (case take_fault w of
        (NoFault, w) \<Rightarrow> (None, w) | (Unusable _, w) \<Rightarrow> (Some cc_lock_timeout, w) | (OtherFail _, w) \<Rightarrow> (Some OsErr, w))"

text \<open>The store lock, then Claude Code's credential lock, then its configuration lock.\<close>

definition with_triple_lock :: "(world \<Rightarrow> (go_err + 'a) \<times> world) \<Rightarrow> world \<Rightarrow> (go_err + 'a) \<times> world" where
  "with_triple_lock fn w =
     (case and_then acquire_lock (and_then acquire_cc_lock acquire_cc_lock) w of
        (Some e, w) \<Rightarrow> (Inl e, w) | (None, w) \<Rightarrow> fn w)"

section \<open>The rollback ledger\<close>

text \<open>\<open>n, _ := strconv.Atoi(num)\<close>: 0 for what is no number, the nearest bound for one out of range.\<close>

definition atoi_value :: "string \<Rightarrow> int" where
  "atoi_value s =
     (case atoi s of
        Some n \<Rightarrow> n
      | None \<Rightarrow>
          (let neg = (s \<noteq> [] \<and> hd s = CHR ''-'');
               ds = (if s \<noteq> [] \<and> (hd s = CHR ''-'' \<or> hd s = CHR ''+'') then tl s else s)
           in if \<not> is_digits ds then 0 else if neg then - (2 ^ 63) else 2 ^ 63 - 1))"

datatype step = CredentialsWritten | ConfigWritten | SequenceUpdated

record transaction =
  tx_creds :: string
  tx_config :: jtext
  tx_num :: string

definition set_active :: "string \<Rightarrow> world \<Rightarrow> seq_data \<Rightarrow> seq_data" where
  "set_active num w d = d\<lparr>active_num := Some (atoi_value num), last_updated := w_stamp w\<rparr>"

fun rollback_step :: "transaction \<Rightarrow> step \<Rightarrow> world \<Rightarrow> go_err option \<times> world" where
  "rollback_step tx CredentialsWritten w = write_active (tx_creds tx) w"
| "rollback_step tx ConfigWritten w = write_config_text (tx_config tx) w"
| "rollback_step tx SequenceUpdated w =
     (case read_sequence (seq_file w) of
        Inl e \<Rightarrow> (Some e, w)
      | Inr None \<Rightarrow> (None, w)
      | Inr (Some d) \<Rightarrow> write_sequence (set_active (tx_num tx) w d) w)"

text \<open>Every step is tried, in the order given (the completed steps reversed).\<close>

fun rollback :: "transaction \<Rightarrow> step list \<Rightarrow> world \<Rightarrow> bool \<times> world" where
  "rollback tx [] w = (True, w)"
| "rollback tx (s # ss) w =
     (let (e, w) = rollback_step tx s w; (ok, w) = rollback tx ss w in (e = None \<and> ok, w))"

section \<open>The normal path\<close>

text \<open>\<open>json.Unmarshal\<close> into a \<open>map[string]any\<close>: null is the nil map, any other non-object an error.\<close>

definition unmarshal_map :: "jtext \<Rightarrow> go_err + json gomap" where
  "unmarshal_map t =
     (case t of TJson (JObj kvs) \<Rightarrow> Inr (obj_map kvs) | TJson JNull \<Rightarrow> Inr [] | _ \<Rightarrow> Inl OsErr)"

definition no_target_credentials :: "string \<Rightarrow> go_err" where
  "no_target_credentials num = Err KindSwitch (''Account-'' @ num @ '' has no stored credentials'')"

definition no_target_config :: "string \<Rightarrow> go_err" where
  "no_target_config num = Err KindSwitch (''Account-'' @ num @ '' has no stored config backup'')"

definition invalid_oauth :: go_err where
  "invalid_oauth = Err KindSwitch ''Invalid oauthAccount in backup''"

definition config_missing :: go_err where
  "config_missing = Err KindConfig ''Claude config file not found''"

definition backfill_uuid_in_data :: "string \<Rightarrow> string \<Rightarrow> seq_data \<Rightarrow> seq_data" where
  "backfill_uuid_in_data num uuid d =
     (if uuid = [] then d
      else (case record_for (Some d) num of
              None \<Rightarrow> d
            | Some rec \<Rightarrow> if str_field rec ''uuid'' \<noteq> [] then d
                          else d\<lparr>accounts := gm_put num (encode_record (gm_put ''uuid'' (JStr uuid) rec)) (accounts d)\<rparr>))"

text \<open>Step 1: the outgoing slot is backed up as far as the live credential is its own.\<close>

definition backup_outgoing ::
  "string \<Rightarrow> string \<Rightarrow> string \<Rightarrow> jtext \<Rightarrow> provenance \<Rightarrow> seq_data \<Rightarrow> world \<Rightarrow> (go_err + seq_data \<times> string list) \<times> world" where
  "backup_outgoing current email live cfg prov d w =
     (let (kind, w) = classify_outgoing current email live prov d w;
          done = (\<lambda>d warns (e, w). (case e of Some e \<Rightarrow> Inl e | None \<Rightarrow> Inr (d, warns), w));
          save = and_then (write_account_credentials current email live) (write_account_config current email cfg)
      in (case kind of
            Foreign slot \<Rightarrow>
              done d [''Credential ownership mismatch detected: preserved; foreign slot '' @ slot]
                (stash_live_credential live ''foreign'' current w)
          | Alien \<Rightarrow>
              done d [''The live login does not match a managed account: preserved'']
                (stash_live_credential live ''alien'' current w)
          | ForeignSynced slot \<Rightarrow>
              (Inr (d, [''Credential ownership mismatch detected: already the backup of '' @ slot]), w)
          | OwnBytes \<Rightarrow> done d [] (write_account_config current email cfg w)
          | OwnRotated \<Rightarrow>
              done (case prov_resolved prov of None \<Rightarrow> d | Some rid \<Rightarrow> backfill_uuid_in_data current (ri_uuid rid) d) []
                (save w)
          | OwnFamily \<Rightarrow> done d [] (save w)
          | Unresolved \<Rightarrow> done d [] (save w)))"

text \<open>Step 4: the target's login is spliced into the live configuration.\<close>

definition splice_target :: "jtext \<Rightarrow> world \<Rightarrow> go_err option \<times> world" where
  "splice_target backup w =
     (case unmarshal_map backup of
        Inl e \<Rightarrow> (Some e, w)
      | Inr doc \<Rightarrow>
          (case oauth_section doc of
             None \<Rightarrow> (Some invalid_oauth, w)
           | Some login \<Rightarrow>
               (case read_config_json w of
                  (None, w) \<Rightarrow> (Some config_missing, w)
                | (Some cfg, w) \<Rightarrow> write_config_json (gm_put ''oauthAccount'' (encode_record login) cfg) w)))"

text \<open>Steps 2 to 5, with the steps completed so far.\<close>

definition install_target ::
  "string \<Rightarrow> string \<Rightarrow> seq_data \<Rightarrow> world \<Rightarrow> (go_err option \<times> step list) \<times> world" where
  "install_target num email d w =
     (let (creds, w) = read_account_credentials num email w; (cfg, w) = read_config_quiet num email w
      in if creds = [] then ((Some (no_target_credentials num), []), w)
         else if cfg = empty_text then ((Some (no_target_config num), []), w)
         else (case write_active creds w of
                 (Some e, w) \<Rightarrow> ((Some e, []), w)
               | (None, w) \<Rightarrow>
                   (case splice_target cfg w of
                      (Some e, w) \<Rightarrow> ((Some e, [CredentialsWritten]), w)
                    | (None, w) \<Rightarrow>
                        (case write_sequence (set_active num w d) w of
                           (Some e, w) \<Rightarrow> ((Some e, [CredentialsWritten, ConfigWritten]), w)
                         | (None, w) \<Rightarrow> ((None, [CredentialsWritten, ConfigWritten, SequenceUpdated]), w)))))"

definition rolled_back :: go_err where
  "rolled_back = Err KindSwitch ''Switch failed and was rolled back''"

definition rollback_failed :: go_err where
  "rollback_failed = Err KindSwitch ''Switch failed and rollback also failed''"

definition normal_switch ::
  "string \<Rightarrow> string \<Rightarrow> string \<Rightarrow> string \<Rightarrow> provenance \<Rightarrow> seq_data \<Rightarrow> world \<Rightarrow> (go_err + string list) \<times> world" where
  "normal_switch target email current cur_email prov d w =
     (case read_active_value w of
        (None, w) \<Rightarrow> (Inl (Err KindCredentialRead ''Failed to read current credentials''), w)
      | (Some live, w) \<Rightarrow>
          if live = [] then (Inl (Err KindCredentialRead ''Current account credential is empty''), w)
          else (case read_config_text w of
                  (Inl _, w) \<Rightarrow> (Inl (Err KindConfig ''Failed to read Claude config''), w)
                | (Inr None, w) \<Rightarrow> (Inl config_missing, w)
                | (Inr (Some cfg), w) \<Rightarrow>
                    (case backup_outgoing current cur_email live cfg prov d w of
                       (Inl e, w) \<Rightarrow> (Inl e, w)
                     | (Inr (d, warns), w) \<Rightarrow>
                         (case install_target target email d w of
                            ((None, _), w) \<Rightarrow> (Inr warns, w)
                          | ((Some e, []), w) \<Rightarrow> (Inl e, w)
                          | ((Some e, steps), w) \<Rightarrow>
                              (case rollback \<lparr>tx_creds = live, tx_config = cfg, tx_num = current\<rparr> (rev steps) w of
                                 (ok, w) \<Rightarrow> (Inl (if ok then rolled_back else rollback_failed), w))))))"

section \<open>The direct path\<close>

definition snapshot_live :: "bool \<Rightarrow> world \<Rightarrow> (go_err + string option \<times> jtext option) \<times> world" where
  "snapshot_live logged_in w =
     (if \<not> logged_in then (Inr (None, None), w)
      else (case read_active_value w of
              (None, w) \<Rightarrow> (Inl (Err KindCredentialRead ''Cannot snapshot live credentials before activation''), w)
            | (Some creds, w) \<Rightarrow>
                (case read_config_text w of
                   (Inl _, w) \<Rightarrow> (Inl (Err KindConfig ''Cannot snapshot live config before activation''), w)
                 | (Inr cfg, w) \<Rightarrow> (Inr (Some creds, cfg), w))))"

text \<open>The replaced live credential is stashed; with \<open>--force\<close> a failure to do so is only a warning.\<close>

definition preserve_live ::
  "string option \<Rightarrow> string \<Rightarrow> string \<Rightarrow> bool \<Rightarrow> world \<Rightarrow> (go_err + string list) \<times> world" where
  "preserve_live old new current force w =
     (case old of
        None \<Rightarrow> (Inr [], w)
      | Some c \<Rightarrow>
          if c = [] \<or> c = new then (Inr [], w)
          else (case stash_live_credential c ''displaced-live-login'' (if current = [] then ''unmanaged'' else current) w of
                  (None, w) \<Rightarrow> (Inr [], w)
                | (Some _, w) \<Rightarrow>
                    if \<not> force then (Inl (Err KindSwitch ''Could not preserve the live credential before activation''), w)
                    else (Inr [''Could not preserve the replaced live credential''], w)))"

definition activate ::
  "string \<Rightarrow> string \<Rightarrow> json gomap \<Rightarrow> json gomap \<Rightarrow> seq_data \<Rightarrow> world \<Rightarrow> (go_err option \<times> step list) \<times> world" where
  "activate num creds doc login d w =
     (case write_active creds w of
        (Some e, w) \<Rightarrow> ((Some e, []), w)
      | (None, w) \<Rightarrow>
          (let (existing, w) = read_config_json w;
               cfg = (case existing of
                        None \<Rightarrow> doc
                      | Some m \<Rightarrow> if m = [] then doc else gm_put ''oauthAccount'' (encode_record login) m)
           in (case write_config_json cfg w of
                 (Some e, w) \<Rightarrow> ((Some e, [CredentialsWritten]), w)
               | (None, w) \<Rightarrow>
                   (case write_sequence (set_active num w d) w of
                      (Some e, w) \<Rightarrow> ((Some e, [CredentialsWritten, ConfigWritten]), w)
                    | (None, w) \<Rightarrow> ((None, [CredentialsWritten, ConfigWritten, SequenceUpdated]), w)))))"

definition undo_activation :: "string option \<Rightarrow> jtext option \<Rightarrow> step list \<Rightarrow> world \<Rightarrow> world" where
  "undo_activation creds cfg steps w =
     (let w = (case cfg of Some t \<Rightarrow> if ConfigWritten \<in> set steps then ignoring (write_config_text t) w else w
                         | None \<Rightarrow> w)
      in (case creds of Some c \<Rightarrow> if CredentialsWritten \<in> set steps then ignoring (write_active c) w else w
                      | None \<Rightarrow> w))"

text \<open>The poll plan of the account just activated is pulled forward, never pushed back.\<close>

definition replan_new_active :: "string \<Rightarrow> string \<Rightarrow> string \<Rightarrow> world \<Rightarrow> world" where
  "replan_new_active num email org w =
     (let now = w_now w; (es, w) = entries [(num, (email, org))] w
      in (case map_of es num of
            None \<Rightarrow> w
          | Some e \<Rightarrow>
              (case u_fetched_at e of
                 None \<Rightarrow> w
               | Some f \<Rightarrow>
                   (let next = max (f + min_interval_s) now
                    in if (case u_next_poll e of None \<Rightarrow> False | Some t \<Rightarrow> t \<le> next) then w
                       else ignoring (set_poll_plan [(num, (Some next, Some min_interval_s))] (\<lambda>_. (email, org))) w))))"

definition direct_activate ::
  "string \<Rightarrow> string \<Rightarrow> string \<Rightarrow> bool \<Rightarrow> string \<Rightarrow> bool \<Rightarrow> seq_data \<Rightarrow> world \<Rightarrow> (go_err + string list) \<times> world" where
  "direct_activate target email org logged_in current force d w =
     (let (creds, w) = read_account_credentials target email w; (cfg, w) = read_config_quiet target email w
      in if creds = [] then (Inl (no_target_credentials target), w)
         else if cfg = empty_text then (Inl (no_target_config target), w)
         else (case unmarshal_map cfg of
                 Inl _ \<Rightarrow> (Inl (Err KindSwitch ''Invalid backup config''), w)
               | Inr doc \<Rightarrow>
                   (case oauth_section doc of
                      None \<Rightarrow> (Inl invalid_oauth, w)
                    | Some login \<Rightarrow>
                        (case snapshot_live logged_in w of
                           (Inl e, w) \<Rightarrow> (Inl e, w)
                         | (Inr (old_creds, old_cfg), w) \<Rightarrow>
                             (case preserve_live old_creds creds current force w of
                                (Inl e, w) \<Rightarrow> (Inl e, w)
                              | (Inr warns, w) \<Rightarrow>
                                  (case activate target creds doc login d w of
                                     ((None, _), w) \<Rightarrow> (Inr warns, replan_new_active target email org w)
                                   | ((Some e, steps), w) \<Rightarrow> (Inl e, undo_activation old_creds old_cfg steps w)))))))"

section \<open>The switch\<close>

type_synonym account_ref = "int option \<times> string"

record switch_op =
  op_from :: "account_ref option"
  op_to :: account_ref
  op_warnings :: "string list"

text \<open>What runs under the locks, with the target's organization when the normal path was taken.\<close>

definition perform_locked ::
  "string \<Rightarrow> bool \<Rightarrow> provenance \<Rightarrow> string list \<Rightarrow> world \<Rightarrow> (go_err + switch_op \<times> string option) \<times> world" where
  "perform_locked target force prov warns w =
     (case read_sequence (seq_file w) of
        Inl e \<Rightarrow> (Inl e, w)
      | Inr None \<Rightarrow> (Inl GoPanic, w)
      | Inr (Some d) \<Rightarrow>
          (case record_for (Some d) target of
             None \<Rightarrow> (Inl (Err KindAccountNotFound (''Account-'' @ target @ '' does not exist'')), w)
           | Some rec \<Rightarrow>
               (let email = str_field rec ''email''; org = str_field rec ''organizationUuid'';
                    (live, w) = live_identity_of w;
                    current = (case live of
                                 Some (e, org') \<Rightarrow> find_account_slot (Some d) e org'
                               | None \<Rightarrow> (case active_num d of None \<Rightarrow> [] | Some n \<Rightarrow> itoa n));
                    origin = (case live of
                                None \<Rightarrow> None
                              | Some (e, _) \<Rightarrow> Some (if current = [] then None else Some (atoi_value current), e));
                    op = (\<lambda>extra. \<lparr>op_from = origin, op_to = (Some (atoi_value target), email), op_warnings = warns @ extra\<rparr>)
                in if force \<or> live = None \<or> current = []
                   then (case direct_activate target email org (live \<noteq> None) current force d w of
                           (Inl e, w) \<Rightarrow> (Inl e, w) | (Inr extra, w) \<Rightarrow> (Inr (op extra, None), w))
                   else (case normal_switch target email current (fst (the live)) prov d w of
                           (Inl e, w) \<Rightarrow> (Inl e, w) | (Inr extra, w) \<Rightarrow> (Inr (op extra, Some org), w)))))"

definition perform_switch ::
  "(string \<Rightarrow> resolved_id option) \<Rightarrow> string \<Rightarrow> bool \<Rightarrow> provenance option \<Rightarrow> world \<Rightarrow> (go_err + switch_op) \<times> world" where
  "perform_switch profile target force given w =
     (let pre_email = (case record_for (w_roster w) target of None \<Rightarrow> [] | Some rec \<Rightarrow> str_field rec ''email'');
          pids = (if pre_email = [] then [] else live_session_pids_for target pre_email w);
          warns = (if pids = [] then [] else [''live session-mode Claude instance '' @ join_pids pids]);
          (prov, w) = (case given of
                         Some p \<Rightarrow> (p, w)
                       | None \<Rightarrow> if force then (no_provenance, w) else prefetch_live_identity profile w)
      in (case with_triple_lock (perform_locked target force prov warns) w of
            (Inl e, w) \<Rightarrow> (Inl e, w)
          | (Inr (op, org), w) \<Rightarrow>
              (Inr op, case org of None \<Rightarrow> w | Some org' \<Rightarrow> replan_new_active target (snd (op_to op)) org' w)))"

section \<open>What the operations touch\<close>

lemma touches_pair_of_values [frames]:
  fixes q :: "string \<times> string" and q' :: "string \<times> bool"
  shows "(\<And>a b. touches R w (snd (k a b))) \<Longrightarrow> touches R w (snd (case_prod k q))"
    "(\<And>a b. touches R w (snd (k' a b))) \<Longrightarrow> touches R w (snd (case_prod k' q'))"
  by (simp_all add: case_prod_unfold)

lemma touches_live_reads [frames]:
  "touches R w w1 \<Longrightarrow> touches R w (snd (read_config_text w1))"
  "touches R w w1 \<Longrightarrow> touches R w (snd (read_config_json w1))"
  "touches R w w1 \<Longrightarrow> touches R w (snd (live_identity_of w1))"
  "touches R w w1 \<Longrightarrow> touches R w (snd (read_active_value w1))"
  unfolding read_config_text_def read_config_json_def live_identity_of_def read_active_value_def
  by (intro frames; simp)+

lemma touches_config_writes [frames]:
  "touches R w w1 \<Longrightarrow> RLiveConfig \<in> R \<Longrightarrow> touches R w (snd (write_config_json m w1))"
  "touches R w w1 \<Longrightarrow> RLiveConfig \<in> R \<Longrightarrow> touches R w (snd (write_config_text t w1))"
  unfolding write_config_json_def write_config_text_def write_live_config_def by (intro frames; simp)+

lemma touches_account_credentials [frames]:
  "touches R w w1 \<Longrightarrow> touches R w (snd (read_account_credentials num email w1))"
  unfolding read_account_credentials_def by (intro frames; simp)

lemma touches_provenance [frames]:
  "touches R w w1 \<Longrightarrow> touches R w (snd (live_matches_slot_backup slot email w1))"
  "touches R w w1 \<Longrightarrow> touches R w (snd (prefetch_live_identity profile w1))"
  unfolding live_matches_slot_backup_def prefetch_live_identity_def Let_def
  by (intro frames; simp)+

lemma touches_self_switch [frames]:
  "touches R w w1 \<Longrightarrow> touches R w (snd (self_switch_action profile slot email w1))"
  unfolding self_switch_action_def by (intro frames; simp)

lemma touches_classify [frames]:
  "touches R w w1 \<Longrightarrow> touches R w (snd (classify_outgoing current email live prov d w1))"
  unfolding classify_outgoing_def Let_def by (intro frames; simp)

lemma touches_stash [frames]:
  "touches R w w1 \<Longrightarrow> RStash \<in> R \<Longrightarrow> touches R w (snd (stash_live_credential c reason slot w1))"
  unfolding stash_live_credential_def by (intro frames; simp)

lemma touches_cc_lock [frames]: "touches R w w1 \<Longrightarrow> touches R w (snd (acquire_cc_lock w1))"
  unfolding acquire_cc_lock_def by (intro frames; simp)

lemma touches_splice [frames]:
  "touches R w w1 \<Longrightarrow> RLiveConfig \<in> R \<Longrightarrow> touches R w (snd (splice_target t w1))"
  unfolding splice_target_def by (intro frames; simp)

lemma touches_replan [frames]:
  "touches R w w1 \<Longrightarrow> RUsage \<in> R \<Longrightarrow> touches R w (replan_new_active num email org w1)"
  unfolding replan_new_active_def entries_def set_poll_plan_def Let_def by (intro frames; simp)

definition outgoing_resources :: "string \<Rightarrow> string \<Rightarrow> world \<Rightarrow> resource set" where
  "outgoing_resources num email w =
     backup_resources num email \<union> profile_resources (session_dir num email w) w
     \<union> {RConfigFile (config_backup_path num email), RStash}"

lemma touches_backup_outgoing [frames]:
  assumes "touches R w w1" "outgoing_resources current email w \<subseteq> R"
  shows "touches R w (snd (backup_outgoing current email live cfg prov d w1))"
proof -
  obtain kind w2 where c: "classify_outgoing current email live prov d w1 = (kind, w2)" by fastforce
  have t: "touches R w w2" using touches_classify [OF assms(1), of current email live prov d] c by simp
  have r: "RStash \<in> R" "backup_resources current email \<subseteq> R" "profile_resources (session_dir current email w) w \<subseteq> R"
    "RConfigFile (config_backup_path current email) \<in> R"
    using assms(2) by (auto simp: outgoing_resources_def)
  have "touches R w (snd (stash_live_credential live reason current w2))"
    "touches R w (snd (write_account_config current email cfg w2))"
    "touches R w (snd (and_then (write_account_credentials current email live) (write_account_config current email cfg) w2))"
    for reason
    using t r by (intro frames; simp)+
  then show ?thesis using t by (auto simp: backup_outgoing_def c case_prod_unfold Let_def split: owner.split)
qed

section \<open>No outgoing credential is lost\<close>

text \<open>The places of a slot's current backup, on either backend.\<close>

definition slot_copies :: "string \<Rightarrow> string \<Rightarrow> world \<Rightarrow> string set" where
  "slot_copies num email w =
     {enc_val (backup_enc_path num email) w, or_empty (keychain w (security_service, backup_username num email))}"

lemma slot_copies_touches:
  assumes "touches R w w'" "RCredFile (backup_enc_path num email) \<notin> R"
    "RKeychain (security_service, backup_username num email) \<notin> R"
  shows "slot_copies num email w' = slot_copies num email w"
  using touches_same [OF assms(1,2)] touches_same [OF assms(1,3)] by (simp add: slot_copies_def enc_val_def)

lemma backup_of_copy: "backup_of num email w \<in> insert [] (slot_copies num email w)"
  by (simp add: backup_of_def slot_copies_def)

lemma read_account_copy: "fst (read_account_credentials num email w) \<in> insert [] (slot_copies num email w)"
proof (cases "decode_enc (backup_enc_path num email) w")
  case (Pair r w1)
  have t: "touches {} w w1" by (rule touches_result [OF Pair]) (intro frames; simp)
  show ?thesis
  proof (cases r)
    case None
    then show ?thesis
      using Pair kc_value_sound [of "backup_username num email" w1] touches_facts(1) [OF t]
        touches_same [OF t, of "RKeychain (security_service, backup_username num email)"]
      by (auto simp: read_account_credentials_def read_backup_def slot_copies_def)
  next
    case (Some c)
    then show ?thesis
      using decode_enc_sound [of "backup_enc_path num email" w c] Pair
      by (auto simp: read_account_credentials_def read_backup_def slot_copies_def)
  qed
qed

lemma read_account_result:
  assumes "read_account_credentials num email w = (c, w1)"
  shows "c = [] \<or> c \<in> slot_copies num email w" "touches {} w w1"
  using read_account_copy [of num email w] assms touches_account_credentials [OF touches_refl, of "{}" w num email] by auto

definition survives :: "string \<Rightarrow> string \<Rightarrow> string \<Rightarrow> world \<Rightarrow> bool" where
  "survives live num email w \<longleftrightarrow>
     live \<in> slot_copies num email w \<or> live \<in> set (stash_entries w)
     \<or> (\<exists>num' email' b. b \<in> slot_copies num' email' w \<and> b \<noteq> [] \<and> (b = live \<or> fingerprint_equal b live))"

lemma survives_touches:
  assumes "touches R w w'" "survives live num email w" "RStash \<notin> R" "\<And>p. RCredFile p \<notin> R" "\<And>a. RKeychain (security_service, a) \<notin> R"
  shows "survives live num email w'"
  using assms(2) slot_copies_touches [OF assms(1) assms(4) assms(5)] touches_same [OF assms(1,3)]
  by (simp add: survives_def)

lemma classify_facts:
  assumes "classify_outgoing current email live prov d w = (kind, w1)"
  shows "kind = OwnBytes \<Longrightarrow> live \<in> slot_copies current email w"
    "kind = ForeignSynced slot \<Longrightarrow>
       \<exists>b. b \<in> slot_copies slot (rec_email d slot) w \<and> b \<noteq> [] \<and> (b = live \<or> fingerprint_equal b live)"
proof -
  obtain b w2 where b: "read_account_credentials current email w = (b, w2)" by fastforce
  note own = read_account_result [OF b]
  show "live \<in> slot_copies current email w" if "kind = OwnBytes"
    using that assms own by (auto simp: classify_outgoing_def b Let_def split: option.splits if_splits prod.splits)
  show "\<exists>b. b \<in> slot_copies slot (rec_email d slot) w \<and> b \<noteq> [] \<and> (b = live \<or> fingerprint_equal b live)"
    if k: "kind = ForeignSynced slot"
  proof -
    obtain f w3 where f: "read_account_credentials slot (rec_email d slot) w2 = (f, w3)" by fastforce
    have "f \<noteq> [] \<and> (f = live \<or> fingerprint_equal f live)"
      using k assms by (auto simp: classify_outgoing_def b f Let_def split: option.splits if_splits prod.splits)
    moreover have "f = [] \<or> f \<in> slot_copies slot (rec_email d slot) w"
      using read_account_result(1) [OF f] slot_copies_touches [OF own(2)] by simp
    ultimately show ?thesis by blast
  qed
qed

lemma stash_ok:
  assumes "stash_live_credential c reason slot w = (None, w')"
  shows "c \<in> set (stash_entries w')"
  using assms by (auto simp: stash_live_credential_def write_unclaimed_def and_then_None dest!: os_call_None)

lemma save_ok:
  assumes "and_then (write_account_credentials num email c) (write_account_config num email cfg) w = (None, w')" "c \<noteq> []"
  shows "c \<in> slot_copies num email w'"
proof -
  obtain w1 where w1: "write_account_credentials num email c w = (None, w1)" "write_account_config num email cfg w1 = (None, w')"
    using assms(1) by (auto simp: and_then_None)
  have "touches {RConfigFile (config_backup_path num email)} w1 w'" by (rule touches_result [OF w1(2)]) (intro frames; simp)
  then have "slot_copies num email w' = slot_copies num email w1" by (rule slot_copies_touches) auto
  moreover have "backup_of num email w1 = c" by (rule write_account_credentials_ok [OF w1(1) assms(2)])
  ultimately show ?thesis using backup_of_copy [of num email w1] assms(2) by auto
qed

lemma backup_outgoing_survives:
  assumes "backup_outgoing current email live cfg prov d w = (Inr r, w')" "live \<noteq> []"
  shows "survives live current email w'"
proof -
  obtain kind w1 where k: "classify_outgoing current email live prov d w = (kind, w1)" by fastforce
  have t: "touches {} w w1" by (rule touches_result [OF k]) (intro frames; simp)
  have copies: "slot_copies n e w1 = slot_copies n e w" for n e using slot_copies_touches [OF t] by simp
  show ?thesis
  proof (cases kind)
    case OwnBytes
    then have c: "write_account_config current email cfg w1 = (None, w')"
      using assms(1) by (auto simp: backup_outgoing_def k split: prod.splits option.splits)
    have "touches {RConfigFile (config_backup_path current email)} w1 w'" by (rule touches_result [OF c]) (intro frames; simp)
    then have "slot_copies current email w' = slot_copies current email w1" by (rule slot_copies_touches) auto
    then show ?thesis using classify_facts(1) [OF k OwnBytes] copies by (simp add: survives_def)
  next
    case (ForeignSynced slot)
    then have "w' = w1" using assms(1) by (auto simp: backup_outgoing_def k)
    then show ?thesis using classify_facts(2) [OF k ForeignSynced] unfolding survives_def copies [symmetric] by blast
  next
    case (Foreign slot)
    then have "stash_live_credential live ''foreign'' current w1 = (None, w')"
      using assms(1) by (auto simp: backup_outgoing_def k split: prod.splits option.splits)
    then show ?thesis using stash_ok by (auto simp: survives_def)
  next
    case Alien
    then have "stash_live_credential live ''alien'' current w1 = (None, w')"
      using assms(1) by (auto simp: backup_outgoing_def k split: prod.splits option.splits)
    then show ?thesis using stash_ok by (auto simp: survives_def)
  qed (use assms k save_ok in \<open>auto simp: backup_outgoing_def survives_def split: prod.splits option.splits\<close>)
qed

lemma touches_install_target [frames]:
  "touches R w w1 \<Longrightarrow> live_resources w \<subseteq> R \<Longrightarrow> RSeq \<in> R \<Longrightarrow> touches R w (snd (install_target num email d w1))"
  unfolding install_target_def by (intro frames; auto simp: live_resources_def)

lemma normal_switch_ok:
  assumes "normal_switch target email current cur_email prov d w = (Inr warns, w')"
  obtains live cfg d' w1 w2 w3 steps where
    "read_active_value w = (Some live, w1)" "live \<noteq> []" "touches {} w1 w2"
    "backup_outgoing current cur_email live cfg prov d w2 = (Inr (d', warns), w3)"
    "install_target target email d' w3 = ((None, steps), w')"
proof -
  obtain live w1 where l: "read_active_value w = (Some live, w1)" "live \<noteq> []"
    using assms by (auto simp: normal_switch_def split: prod.splits option.splits if_splits)
  obtain cfg w2 where c: "read_config_text w1 = (Inr (Some cfg), w2)"
    using assms l by (auto simp: normal_switch_def split: prod.splits option.splits sum.splits)
  obtain d' ws w3 where b: "backup_outgoing current cur_email live cfg prov d w2 = (Inr (d', ws), w3)"
    using assms l c by (auto simp: normal_switch_def split: prod.splits sum.splits)
  obtain r steps w4 where i: "install_target target email d' w3 = ((r, steps), w4)" by (cases "install_target target email d' w3") fastforce
  have "r = None \<and> ws = warns \<and> w4 = w'"
    using assms l c b i by (auto simp: normal_switch_def split: prod.splits option.splits list.splits)
  moreover have "touches {} w1 w2" by (rule touches_result [OF c]) (intro frames; simp)
  ultimately show ?thesis using l b i that [of live w1 w2 cfg d' w3 steps] by blast
qed

lemma normal_switch_survives:
  assumes "normal_switch target email current cur_email prov d w = (Inr warns, w')"
    "fst (read_active_value w) = Some live"
  shows "survives live current cur_email w'"
proof -
  obtain live' cfg d' w1 w2 w3 steps where n: "read_active_value w = (Some live', w1)" "live' \<noteq> []" "touches {} w1 w2"
    "backup_outgoing current cur_email live' cfg prov d w2 = (Inr (d', warns), w3)"
    "install_target target email d' w3 = ((None, steps), w')"
    by (rule normal_switch_ok [OF assms(1)])
  have "touches (live_resources w3 \<union> {RSeq}) w3 w'" by (rule touches_result [OF n(5)]) (intro frames; auto)
  then show ?thesis
    using survives_touches [of _ w3 w' live' current cur_email] backup_outgoing_survives [OF n(4,2)] n(1) assms(2)
    by (auto simp: live_resources_def)
qed

section \<open>A switch takes effect\<close>

definition oauth_credential :: "string \<Rightarrow> bool" where
  "oauth_credential c \<longleftrightarrow> \<not> looks_like_api_key c \<and> trim_space c \<noteq> []"

text \<open>The live login is \<open>c\<close>, in the Keychain or (with the Keychain out of use) in the file.\<close>

definition login_held :: "string \<Rightarrow> world \<Rightarrow> bool" where
  "login_held c w \<longleftrightarrow>
     keychain_val claude_code_service w = c \<and> c \<noteq> []
     \<or> \<not> fst (use_keychain w) \<and> live_creds w = Some c \<and> trim_space c \<noteq> []"

lemma login_held_active: "login_held c w \<Longrightarrow> active_of w = c"
  by (auto simp: login_held_def active_of_def keychain_val_def or_empty_def)

lemma login_held_touches:
  assumes "login_held c w" "touches R w w'" "RKeychain (claude_code_service, w_user w) \<notin> R" "RLiveCreds \<notin> R"
    "kc_state w' = kc_state w"
  shows "login_held c w'"
proof -
  have "fst (use_keychain w') = fst (use_keychain w)" by (simp add: use_keychain_state assms(5) touches_facts(1) [OF assms(2)])
  then show ?thesis
    using assms(1) touches_same [OF assms(2,3)] touches_same [OF assms(2,4)] touches_facts(2) [OF assms(2)]
    by (auto simp: login_held_def keychain_val_def)
qed

lemma write_active_held:
  assumes "write_active c w = (None, w')" "oauth_credential c"
  shows "login_held c w'"
proof -
  obtain w1 where w1: "write_oauth_credentials c w = (None, w1)" "w' = clear_managed_key w1"
    using assms by (auto simp: oauth_credential_def write_active_def split: prod.splits option.splits)
  have "login_held c w1" using write_oauth_ok [OF w1(1)] assms(2) by (simp add: login_held_def oauth_credential_def)
  then show ?thesis unfolding w1(2) by (rule login_held_touches [OF _ touches_clear_managed_key]) simp_all
qed

lemma kc_state_faults [simp]:
  "kc_state (snd (take_fault w)) = kc_state w"
  by (cases w rule: take_fault_cases) simp_all

lemma kc_state_atomic [simp]:
  assumes "\<And>w. kc_state (eff w) = kc_state w"
  shows "kc_state (snd (os_atomic eff w)) = kc_state w"
  by (cases w rule: take_fault_cases) (auto simp: os_atomic_def assms split: fault.split)

lemma kc_state_lock [simp]:
  "kc_state (snd (acquire_lock w)) = kc_state w" "kc_state (snd (acquire_cc_lock w)) = kc_state w"
  by (cases w rule: take_fault_cases; simp add: acquire_lock_def acquire_cc_lock_def split: fault.split)+

lemma kc_state_files [simp]:
  "kc_state (w\<lparr>seq_file := x1\<rparr>) = kc_state w" "kc_state (w\<lparr>usage_file := x2\<rparr>) = kc_state w"
  by (simp_all add: kc_state_def)

lemma kc_state_writes [simp]:
  "kc_state (snd (read_config_json w)) = kc_state w"
  "kc_state (snd (write_config_json m w)) = kc_state w"
  "kc_state (snd (write_config_text t w)) = kc_state w"
  "kc_state (snd (write_sequence d w)) = kc_state w"
  "kc_state (snd (write_rows rows w)) = kc_state w"
  by (simp_all add: read_config_json_def write_config_json_def write_config_text_def write_live_config_def
      write_sequence_def write_rows_def)

lemma kc_state_rows [simp]: "kc_state (snd (read_rows w)) = kc_state w"
  by (cases "os_call (\<lambda>w. w) w", use kc_state_call(1) [of "\<lambda>w. w" w] in \<open>auto simp: read_rows_def split: option.split\<close>)

lemma kc_state_mutate [simp]: "kc_state (snd (mutate ids nums f w)) = kc_state w"
  using kc_state_lock(1) [of w] kc_state_rows kc_state_writes(5)
  by (auto simp: mutate_def and_then_def Let_def case_prod_unfold split: option.split)

lemma kc_state_replan [simp]: "kc_state (replan_new_active num email org w) = kc_state w"
  using kc_state_rows [of w] kc_state_mutate
  by (auto simp: replan_new_active_def entries_def set_poll_plan_def ignoring_def Let_def case_prod_unfold split: option.split)

lemma distinct_as_map: "as_map v = Some m \<Longrightarrow> distinct (gm_keys m)"
  by (cases v) (auto simp: distinct_obj_map)

lemma current_account_written:
  assumes "distinct (gm_keys m)" "live_config w = Some (TJson (encode_record m))"
  shows "current_account w = oauth_identity (Some m)"
proof -
  have "read_lenient w = Some (decode_record (encode_record m))"
    using assms(2) by (simp add: read_lenient_def encode_record_def decode_record_def)
  then show ?thesis by (simp add: current_account_def oauth_identity_def mget_decode_encode [OF assms(1)])
qed

lemma oauth_identity_spliced:
  assumes "oauth_section doc = Some login"
  shows "oauth_identity (Some (gm_put ''oauthAccount'' (encode_record login) m)) = oauth_identity (Some doc)"
proof -
  have l: "as_map (mget doc ''oauthAccount'') = Some login"
    using assms by (auto simp: oauth_section_def split: option.splits if_splits)
  then have "str_field (decode_record (encode_record login)) k = str_field login k" for k
    using mget_decode_encode [OF distinct_as_map] by (simp add: str_field_def)
  then show ?thesis by (simp add: oauth_identity_def l decode_record_def encode_record_def Let_def)
qed

lemma write_config_ok: "write_config_json m w = (None, w') \<Longrightarrow> live_config w' = Some (TJson (encode_record m))"
  by (auto simp: write_config_json_def write_live_config_def dest!: os_call_None)

lemma read_config_json_Some:
  "read_config_json w = (Some m, w') \<Longrightarrow> read_lenient w = Some m \<and> distinct (gm_keys m)"
  by (auto simp: read_config_json_def read_global_config_def read_lenient_def distinct_as_map
      split: option.splits prod.splits jtext.splits dest!: os_call_None)

lemma splice_target_ok:
  assumes "splice_target backup w = (None, w')"
  obtains doc where "unmarshal_map backup = Inr doc" "current_account w' = oauth_identity (Some doc)"
    "kc_state w' = kc_state w"
proof -
  obtain doc login cfg w1 where d: "unmarshal_map backup = Inr doc" "oauth_section doc = Some login"
    "read_config_json w = (Some cfg, w1)" "write_config_json (gm_put ''oauthAccount'' (encode_record login) cfg) w1 = (None, w')"
    using assms by (auto simp: splice_target_def split: sum.splits option.splits prod.splits)
  have "distinct (gm_keys cfg)" using read_config_json_Some [OF d(3)] by simp
  then have "current_account w' = oauth_identity (Some doc)"
    using current_account_written [OF _ write_config_ok [OF d(4)]] oauth_identity_spliced [OF d(2)]
    by (simp add: distinct_gm_put)
  moreover have "kc_state w' = kc_state w" using kc_state_writes(1) [of w] kc_state_writes(2) [of _ w1] d(3,4) by (metis snd_conv)
  ultimately show ?thesis using that d(1) by blast
qed

text \<open>What a completed switch leaves behind.\<close>

definition switched_to :: "string \<Rightarrow> string \<Rightarrow> world \<Rightarrow> bool" where
  "switched_to num email w \<longleftrightarrow>
     (\<exists>c doc d. c \<noteq> [] \<and> c \<in> slot_copies num email w \<and> (oauth_credential c \<longrightarrow> login_held c w)
        \<and> unmarshal_map (config_of num email w) = Inr doc \<and> current_account w = oauth_identity (Some doc)
        \<and> seq_file w = SeqRoster d \<and> active_num d = Some (atoi_value num))"

lemma switched_to_kept:
  assumes "switched_to num email w" "touches {RUsage, RAuto} w w'" "kc_state w' = kc_state w"
  shows "switched_to num email w'"
proof -
  have "slot_copies num email w' = slot_copies num email w" "config_of num email w' = config_of num email w"
    by (rule slot_copies_touches [OF assms(2)]; simp) (rule config_of_touches [OF assms(2)]; simp)
  moreover have "current_account w' = current_account w" "seq_file w' = seq_file w"
    using touches_same [OF assms(2), of RLiveConfig] touches_same [OF assms(2), of RSeq]
    by (simp_all add: current_account_def read_lenient_def)
  moreover have "login_held c w \<Longrightarrow> login_held c w'" for c by (rule login_held_touches [OF _ assms(2)]) (simp_all add: assms(3))
  ultimately show ?thesis using assms(1) unfolding switched_to_def by metis
qed

lemma committed:
  assumes "c \<noteq> []" "c \<in> slot_copies num email w" "unmarshal_map (config_of num email w) = Inr doc"
    "write_active c w = (None, w1)" "touches {RLiveConfig} w1 w2" "kc_state w2 = kc_state w1"
    "current_account w2 = oauth_identity (Some doc)" "write_sequence (set_active num w2 d) w2 = (None, w')"
  shows "switched_to num email w'"
proof -
  have t1: "touches (live_resources w) w w1" by (rule touches_result [OF assms(4)]) (intro frames; simp)
  have t3: "touches {RSeq} w2 w'" by (rule touches_result [OF assms(8)]) (intro frames; simp)
  have t: "touches (live_resources w \<union> {RLiveConfig, RSeq}) w w'"
    by (rule touches_trans [OF touches_mono [OF t1] touches_trans [OF touches_mono [OF assms(5)] touches_mono [OF t3]]]) auto
  have c: "slot_copies num email w' = slot_copies num email w" "config_of num email w' = config_of num email w"
    by (rule slot_copies_touches [OF t]; simp add: live_resources_def)
       (rule config_of_touches [OF t]; simp add: live_resources_def)
  have held: "login_held c w'" if "oauth_credential c"
  proof -
    have "login_held c w1" by (rule write_active_held [OF assms(4) that])
    then have "login_held c w2" by (rule login_held_touches [OF _ assms(5)]) (simp_all add: assms(6))
    then show ?thesis
      by (rule login_held_touches [OF _ t3]) (use kc_state_writes(4) [of "set_active num w2 d" w2] assms(8) in simp_all)
  qed
  have "current_account w' = current_account w2"
    using touches_same [OF t3, of RLiveConfig] by (simp add: current_account_def read_lenient_def)
  then show ?thesis
    unfolding switched_to_def
    by (intro exI [of _ c] exI [of _ doc] exI [of _ "set_active num w2 d"])
      (use assms(1-3,7) c held write_sequence_ok [OF assms(8)] in \<open>auto simp: set_active_def\<close>)
qed

lemma read_config_result:
  assumes "read_config_quiet num email w = (t, w1)"
  shows "t = empty_text \<or> t = config_of num email w" "touches {} w w1"
  using read_config_sound [of num email w] assms touches_account_config(2) [OF touches_refl, of "{}" w num email] by auto

lemma target_reads:
  assumes "read_account_credentials num email w = (c, w1)" "read_config_quiet num email w1 = (t, w2)"
  shows "c = [] \<or> c \<in> slot_copies num email w2" "t = empty_text \<or> t = config_of num email w2" "touches {} w w2"
proof -
  note r = read_account_result [OF assms(1)] read_config_result [OF assms(2)]
  show t: "touches {} w w2" by (rule touches_trans [OF r(2,4)])
  show "c = [] \<or> c \<in> slot_copies num email w2" using r(1) slot_copies_touches [OF t] by simp
  show "t = empty_text \<or> t = config_of num email w2" using r(3) config_of_touches [OF r(4)] by simp
qed

lemma install_target_ok:
  assumes "install_target num email d w = ((None, steps), w')"
  shows "switched_to num email w'"
proof -
  obtain c w1 t w2 where r: "read_account_credentials num email w = (c, w1)" "read_config_quiet num email w1 = (t, w2)"
    by fastforce
  obtain w3 where a: "c \<noteq> []" "t \<noteq> empty_text" "write_active c w2 = (None, w3)"
    using assms by (auto simp: install_target_def r split: if_splits prod.splits option.splits)
  obtain w4 where s: "splice_target t w3 = (None, w4)" "write_sequence (set_active num w4 d) w4 = (None, w')"
    using assms a by (auto simp: install_target_def r split: prod.splits option.splits)
  obtain doc where d: "unmarshal_map t = Inr doc" "current_account w4 = oauth_identity (Some doc)" "kc_state w4 = kc_state w3"
    by (rule splice_target_ok [OF s(1)])
  have "touches {RLiveConfig} w3 w4" by (rule touches_result [OF s(1)]) (intro frames; simp)
  from committed [OF a(1) _ _ a(3) this d(3) d(2) s(2)] target_reads [OF r] a d(1) show ?thesis by auto
qed

lemma activate_ok:
  assumes "activate num c doc login d w = ((None, steps), w')" "unmarshal_map (config_of num email w) = Inr doc"
    "oauth_section doc = Some login" "c \<noteq> []" "c \<in> slot_copies num email w"
  shows "switched_to num email w'"
proof -
  obtain w1 where a: "write_active c w = (None, w1)"
    using assms(1) by (auto simp: activate_def split: prod.splits option.splits)
  obtain existing w2 where e: "read_config_json w1 = (existing, w2)" by fastforce
  define cfg where "cfg = (case existing of None \<Rightarrow> doc
      | Some m \<Rightarrow> if m = [] then doc else gm_put ''oauthAccount'' (encode_record login) m)"
  obtain w3 where s: "write_config_json cfg w2 = (None, w3)" "write_sequence (set_active num w3 d) w3 = (None, w')"
    using assms(1) a e by (auto simp: activate_def cfg_def split: prod.splits option.splits)
  have "distinct (gm_keys doc)"
    using assms(2) distinct_obj_map by (auto simp: unmarshal_map_def split: jtext.splits json.splits) (simp add: gm_keys_def)
  then have "distinct (gm_keys cfg)"
    using read_config_json_Some [of w1 _ w2] e by (auto simp: cfg_def distinct_gm_put split: option.split)
  moreover have "oauth_identity (Some cfg) = oauth_identity (Some doc)"
    using oauth_identity_spliced [OF assms(3)] by (auto simp: cfg_def split: option.split)
  ultimately have i: "current_account w3 = oauth_identity (Some doc)"
    using current_account_written [OF _ write_config_ok [OF s(1)]] by simp
  have t2: "touches {} w1 w2" by (rule touches_result [OF e]) (intro frames; simp)
  have t3: "touches {RLiveConfig} w2 w3" by (rule touches_result [OF s(1)]) (intro frames; simp)
  have "kc_state w3 = kc_state w1" using kc_state_writes(1) [of w1] kc_state_writes(2) [of cfg w2] e s(1) by (metis snd_conv)
  from committed [OF assms(4,5,2) a touches_trans [OF touches_mono [OF t2] t3] this i s(2)] show ?thesis by simp
qed

lemma direct_activate_ok:
  assumes "direct_activate num email org logged_in current force d w = (Inr warns, w')"
  shows "switched_to num email w'"
proof -
  obtain c w1 t w2 where r: "read_account_credentials num email w = (c, w1)" "read_config_quiet num email w1 = (t, w2)"
    by fastforce
  obtain doc login where p: "c \<noteq> []" "t \<noteq> empty_text" "unmarshal_map t = Inr doc" "oauth_section doc = Some login"
    using assms by (auto simp: direct_activate_def r split: if_splits sum.splits option.splits)
  obtain old old_cfg w3 where q: "snapshot_live logged_in w2 = (Inr (old, old_cfg), w3)"
    using assms p by (auto simp: direct_activate_def r split: sum.splits prod.splits)
  obtain ws w4 where v: "preserve_live old c current force w3 = (Inr ws, w4)"
    using assms p q by (auto simp: direct_activate_def r split: sum.splits prod.splits)
  obtain steps w5 where a: "activate num c doc login d w4 = ((None, steps), w5)" "w' = replan_new_active num email org w5"
    using assms p q v by (cases "activate num c doc login d w4") (auto simp: direct_activate_def r split: option.splits)
  have "touches {} w2 w3" by (rule touches_result [OF q]) (unfold snapshot_live_def, intro frames; simp)
  moreover have "touches {RStash} w3 w4" by (rule touches_result [OF v]) (unfold preserve_live_def, intro frames; simp)
  ultimately have t4: "touches {RStash} w2 w4" by (meson touches_mono touches_trans empty_subsetI)
  have "slot_copies num email w4 = slot_copies num email w2" "config_of num email w4 = config_of num email w2"
    by (rule slot_copies_touches [OF t4]; simp) (rule config_of_touches [OF t4]; simp)
  then have "switched_to num email w5" using activate_ok [OF a(1) _ p(4,1)] target_reads [OF r] p by auto
  then show ?thesis unfolding a(2) by (rule switched_to_kept) ((intro frames; simp), simp)
qed

lemma perform_locked_ok:
  assumes "perform_locked target force prov warns w = (Inr (op, org), w')"
  shows "switched_to target (snd (op_to op)) w'"
proof -
  obtain d where d: "read_sequence (seq_file w) = Inr (Some d)"
    using assms by (auto simp: perform_locked_def split: sum.splits option.splits)
  obtain rec where rec: "record_for (Some d) target = Some rec"
    using assms d by (auto simp: perform_locked_def split: option.splits)
  obtain live w1 where l: "live_identity_of w = (live, w1)" by fastforce
  define current where "current = (case live of Some (e, org') \<Rightarrow> find_account_slot (Some d) e org'
      | None \<Rightarrow> (case active_num d of None \<Rightarrow> [] | Some n \<Rightarrow> itoa n))"
  let ?email = "str_field rec ''email''" and ?org = "str_field rec ''organizationUuid''"
  show ?thesis
  proof (cases "force \<or> live = None \<or> current = []")
    case True
    then obtain extra where a: "direct_activate target ?email ?org (live \<noteq> None) current force d w1 = (Inr extra, w')"
      "snd (op_to op) = ?email"
      using assms d rec l by (auto simp: perform_locked_def Let_def current_def [symmetric] split: sum.splits prod.splits)
    show ?thesis unfolding a(2) by (rule direct_activate_ok [OF a(1)])
  next
    case False
    then obtain e org' where live: "live = Some (e, org')" by auto
    have c: "find_account_slot (Some d) e org' = current" by (simp add: current_def live)
    obtain extra where a: "normal_switch target ?email current (fst (the live)) prov d w1 = (Inr extra, w')"
      "snd (op_to op) = ?email"
      using assms False d rec l by (auto simp: perform_locked_def Let_def live c split: sum.splits prod.splits)
    show ?thesis unfolding a(2) using normal_switch_ok [OF a(1)] install_target_ok by metis
  qed
qed

lemma with_triple_lock_ok:
  assumes "with_triple_lock fn w = (Inr r, w')"
  obtains w1 where "touches {} w w1" "fn w1 = (Inr r, w')"
proof -
  let ?locks = "and_then acquire_lock (and_then acquire_cc_lock acquire_cc_lock)"
  obtain e w1 where l: "?locks w = (e, w1)" by fastforce
  have "touches {} w w1" by (rule touches_result [OF l]) (intro frames; simp)
  then show ?thesis using that assms l by (auto simp: with_triple_lock_def split: option.splits)
qed

lemma perform_switch_ok:
  assumes "perform_switch profile target force given w = (Inr op, w')"
  shows "switched_to target (snd (op_to op)) w'"
proof -
  obtain prov warns org w1 w2 where p: "with_triple_lock (perform_locked target force prov warns) w1 = (Inr (op, org), w2)"
    "w' = (case org of None \<Rightarrow> w2 | Some org' \<Rightarrow> replan_new_active target (snd (op_to op)) org' w2)"
    using assms by (auto simp: perform_switch_def Let_def split: sum.splits prod.splits option.splits if_splits)
  obtain w3 where "perform_locked target force prov warns w3 = (Inr (op, org), w2)" by (rule with_triple_lock_ok [OF p(1)])
  then have s: "switched_to target (snd (op_to op)) w2" by (rule perform_locked_ok)
  show ?thesis
  proof (cases org)
    case (Some org')
    show ?thesis unfolding p(2) Some option.case by (rule switched_to_kept [OF s]) ((intro frames; simp), simp)
  qed (simp add: p(2) s)
qed

text \<open>
  Property C12: a switch that reports success has taken effect, on every path (normal, forced, first
  activation) and whatever calls fail. The configuration of Claude Code then names the account of the
  target's configuration backup, the roster's active account is the target, and, when the credential
  stored in the target's slot is an OAuth credential, it is Claude Code's live login. (For an API key
  only the configuration and the roster are claimed.)
\<close>

theorem switch_takes_effect:
  assumes "perform_switch profile target force given w = (Inr op, w')"
  shows "\<exists>c doc d. c \<noteq> [] \<and> c \<in> slot_copies target (snd (op_to op)) w'
     \<and> (oauth_credential c \<longrightarrow> active_of w' = c)
     \<and> unmarshal_map (config_of target (snd (op_to op)) w') = Inr doc \<and> current_account w' = oauth_identity (Some doc)
     \<and> seq_file w' = SeqRoster d \<and> active_num d = Some (atoi_value target)"
  using perform_switch_ok [OF assms] unfolding switched_to_def using login_held_active by blast

section \<open>The outgoing credential\<close>

lemma touches_activate [frames]:
  "touches R w w1 \<Longrightarrow> live_resources w \<subseteq> R \<Longrightarrow> RSeq \<in> R \<Longrightarrow> touches R w (snd (activate num c doc login d w1))"
  "touches R w w1 \<Longrightarrow> live_resources w \<subseteq> R \<Longrightarrow> touches R w (undo_activation creds cfg steps w1)"
  unfolding activate_def undo_activation_def by (intro frames; auto simp: live_resources_def)+

text \<open>The message of a forced switch that could not keep the credential it replaces.\<close>

abbreviation not_preserved :: string where
  "not_preserved \<equiv> ''Could not preserve the replaced live credential''"

lemma direct_activate_survives:
  assumes "direct_activate num email org True current force d w = (Inr warns, w')" "\<not> force \<or> not_preserved \<notin> set warns"
  shows "\<exists>v live. touches {} w v \<and> fst (read_active_value v) = Some live \<and> (live = [] \<or> survives live n e w')"
proof -
  obtain c w1 t w2 where r: "read_account_credentials num email w = (c, w1)" "read_config_quiet num email w1 = (t, w2)"
    by fastforce
  obtain doc login where p: "c \<noteq> []" "t \<noteq> empty_text" "unmarshal_map t = Inr doc" "oauth_section doc = Some login"
    using assms by (auto simp: direct_activate_def r split: if_splits sum.splits option.splits)
  obtain old old_cfg w3 where q: "snapshot_live True w2 = (Inr (old, old_cfg), w3)"
    using assms p by (auto simp: direct_activate_def r split: sum.splits prod.splits)
  obtain ws w4 where v: "preserve_live old c current force w3 = (Inr ws, w4)"
    using assms p q by (auto simp: direct_activate_def r split: sum.splits prod.splits)
  obtain steps w5 where a: "activate num c doc login d w4 = ((None, steps), w5)" "w' = replan_new_active num email org w5" "warns = ws"
    using assms p q v by (cases "activate num c doc login d w4") (auto simp: direct_activate_def r split: option.splits)
  obtain live where live: "old = Some live" "fst (read_active_value w2) = Some live"
    using q by (auto simp: snapshot_live_def split: option.splits prod.splits sum.splits)
  have t2: "touches {} w w2" by (rule target_reads(3) [OF r])
  have t3: "touches {} w2 w3" by (rule touches_result [OF q]) (unfold snapshot_live_def, intro frames; simp)
  have t4: "touches {RStash} w3 w4" by (rule touches_result [OF v]) (unfold preserve_live_def, intro frames; simp)
  have "live = [] \<or> survives live n e w4"
  proof (cases "live = c")
    case True
    have "c \<in> slot_copies num email w4"
      using target_reads(1) [OF r] p(1) slot_copies_touches [OF t3] slot_copies_touches [OF t4] by auto
    then show ?thesis using True by (auto simp: survives_def)
  next
    case False
    have "live = [] \<or> (\<exists>why slot. stash_live_credential live why slot w3 = (None, w4))"
      using v a(3) assms(2) False unfolding live(1) preserve_live_def
      by (auto split: if_splits prod.splits option.splits)
    then show ?thesis using stash_ok by (auto simp: survives_def)
  qed
  moreover have "touches (live_resources w4 \<union> {RSeq}) w4 w5" by (rule touches_result [OF a(1)]) (intro frames; auto)
  then have "survives live n e w4 \<Longrightarrow> survives live n e w5"
    by (rule survives_touches) (auto simp: live_resources_def)
  moreover have "touches {RUsage} w5 w'" unfolding a(2) by (intro frames; simp)
  then have "survives live n e w5 \<Longrightarrow> survives live n e w'" by (rule survives_touches) auto
  ultimately show ?thesis using t2 live(2) by blast
qed

lemma perform_locked_survives:
  assumes "perform_locked target force prov warns w = (Inr (op, org), w')" "op_from op = Some (slot, email)"
    "\<not> force \<or> not_preserved \<notin> set (op_warnings op)"
  shows "\<exists>v live num. touches {} w v \<and> fst (read_active_value v) = Some live
     \<and> (live = [] \<longrightarrow> force \<or> slot = None) \<and> (live = [] \<or> survives live num email w')"
proof -
  obtain d where d: "read_sequence (seq_file w) = Inr (Some d)"
    using assms by (auto simp: perform_locked_def split: sum.splits option.splits)
  obtain rec where rec: "record_for (Some d) target = Some rec"
    using assms d by (auto simp: perform_locked_def split: option.splits)
  obtain live w1 where l: "live_identity_of w = (live, w1)" by fastforce
  have t1: "touches {} w w1" by (rule touches_result [OF l]) (intro frames; simp)
  let ?email = "str_field rec ''email''" and ?org = "str_field rec ''organizationUuid''"
  obtain e org' where live: "live = Some (e, org')"
    using assms(1,2) d rec l by (cases live) (auto simp: perform_locked_def Let_def split: sum.splits prod.splits if_splits)
  define current where "current = find_account_slot (Some d) e org'"
  show ?thesis
  proof (cases "force \<or> current = []")
    case True
    then obtain extra where a: "direct_activate target ?email ?org True current force d w1 = (Inr extra, w')"
      "op_warnings op = warns @ extra" "current = [] \<Longrightarrow> slot = None"
      using assms(1,2) d rec l live by (auto simp: perform_locked_def Let_def current_def [symmetric] split: sum.splits prod.splits)
    then have "\<not> force \<or> not_preserved \<notin> set extra" using assms(3) by auto
    from direct_activate_survives [OF a(1) this, where n = "[]" and e = email] obtain v c where
      "touches {} w1 v" "fst (read_active_value v) = Some c" "c = [] \<or> survives c [] email w'" by blast
    moreover have "force \<or> slot = None" using True a(3) by blast
    ultimately show ?thesis using touches_trans [OF t1] by blast
  next
    case False
    then obtain extra where a: "normal_switch target ?email current e prov d w1 = (Inr extra, w')" "email = e"
      using assms(1,2) d rec l live by (auto simp: perform_locked_def Let_def current_def [symmetric] split: sum.splits prod.splits)
    obtain c w2 where c: "read_active_value w1 = (Some c, w2)" "c \<noteq> []" by (rule normal_switch_ok [OF a(1)])
    then have "fst (read_active_value w1) = Some c" by simp
    from normal_switch_survives [OF a(1) this] have "survives c current email w'" using a(2) by simp
    with c t1 \<open>fst (read_active_value w1) = Some c\<close> show ?thesis by blast
  qed
qed

text \<open>
  Property C11: a switch loses no credential it could read. When a switch away from a live login (one that
  ~/.claude.json names) succeeds, and it was not forced or does not warn that the credential could not be
  preserved, then what the live credential read as, possibly the only valid one of its account, is still
  stored: in a slot's own backup (the same bytes or the same token lineage) or in the stash. This holds
  whatever calls fail on the way, for the normal path and for direct activation. Only a live credential
  that reads as empty is not kept, and then the switch was forced or the login belongs to no managed slot.
  (A switch from a login that ~/.claude.json does not name keeps nothing: see
  \<open>unreadable_login_displaced\<close>.)
\<close>

theorem outgoing_credential_survives:
  assumes "perform_switch profile target force given w = (Inr op, w')" "op_from op = Some (slot, email)"
    "\<not> force \<or> not_preserved \<notin> set (op_warnings op)"
  shows "\<exists>v live num. touches {} w v \<and> fst (read_active_value v) = Some live
     \<and> (live = [] \<longrightarrow> force \<or> slot = None) \<and> (live = [] \<or> survives live num email w')"
proof -
  obtain prov warns org w0 w1 where p: "with_triple_lock (perform_locked target force prov warns) w0 = (Inr (op, org), w1)"
    "w' = (case org of None \<Rightarrow> w1 | Some org' \<Rightarrow> replan_new_active target (snd (op_to op)) org' w1)" "touches {} w w0"
    using assms(1) touches_provenance(2) [OF touches_refl, of "{}" w profile]
    by (auto simp: perform_switch_def Let_def split: sum.splits prod.splits option.splits if_splits)
  obtain w2 where w2: "touches {} w0 w2" "perform_locked target force prov warns w2 = (Inr (op, org), w1)"
    by (rule with_triple_lock_ok [OF p(1)])
  from perform_locked_survives [OF w2(2) assms(2,3)] obtain v live num where
    v: "touches {} w2 v" "fst (read_active_value v) = Some live" "live = [] \<longrightarrow> force \<or> slot = None"
      "live = [] \<or> survives live num email w1" by blast
  have "touches {RUsage} w1 w'"
  proof (cases org)
    case (Some org')
    show ?thesis unfolding p(2) Some option.case by (intro frames; simp)
  qed (simp add: p(2))
  then have "survives live num email w1 \<Longrightarrow> survives live num email w'" by (rule survives_touches) auto
  then show ?thesis using v touches_trans [OF touches_trans [OF p(3) w2(1)]] by blast
qed

section \<open>A switch that fails\<close>

text \<open>No call still to come has an effect although it reports a failure.\<close>

definition prompt :: "world \<Rightarrow> bool" where
  "prompt w \<longleftrightarrow> Unusable True \<notin> set (faults w) \<and> OtherFail True \<notin> set (faults w)"

lemma prompt_touches: "touches R w w' \<Longrightarrow> prompt w \<Longrightarrow> prompt w'"
  using touches_verdicts [of R w w'] by (auto simp: prompt_def)

lemma prompt_calls:
  assumes "prompt w"
  shows "os_call eff w = (Some e, w') \<Longrightarrow> touches {} w w'" "kc_call eff w = (Some e, w') \<Longrightarrow> touches {} w w'"
  using assms by (cases w rule: take_fault_cases;
    auto simp: os_call_def kc_call_def prompt_def touches_faults split: fault.splits if_splits)+

lemma write_active_failed:
  assumes "write_active c w = (Some e, w')" "oauth_credential c" "prompt w"
  shows "touches {} w w'"
proof -
  have w: "write_oauth_credentials c w = (Some e, w')"
    using assms(1,2) by (auto simp: write_active_def oauth_credential_def split: prod.splits option.splits)
  obtain use w1 where u: "use_keychain w = (use, w1)" by fastforce
  have t1: "touches {} w w1" by (rule touches_result [OF u]) (intro frames; simp)
  have by_file: "touches {} w w'" if "write_oauth_file c w2 = (Some e', w')" "touches {} w w2" for w2 e'
  proof -
    have "\<exists>e. write_credentials_file c w2 = (Some e, w')"
      using that(1) by (auto simp: write_oauth_file_def Let_def split: prod.splits option.splits)
    then have "touches {} w2 w'"
      using prompt_calls(1) [OF prompt_touches [OF that(2) assms(3)]] by (auto simp: write_credentials_file_def)
    with that(2) show ?thesis by (rule touches_trans)
  qed
  show ?thesis
  proof (cases use)
    case True
    obtain r w2 where k: "kc_set claude_code_service (w_user w1) c w1 = (r, w2)" by fastforce
    then obtain e2 where r: "r = Some e2" using w u True by (auto simp: write_oauth_credentials_def split: option.splits)
    obtain w3 where "kc_raw_set claude_code_service (w_user w1) c w1 = (Some e2, w3)" "w2 = learn (Some e2) w3"
      using k r by (auto simp: kc_set_def split: prod.splits)
    then have "touches {} w1 w2"
      using prompt_calls(2) [OF prompt_touches [OF t1 assms(3)]] by (auto simp: kc_raw_set_def intro: touches_learn)
    then have t2: "touches {} w w2" by (rule touches_trans [OF t1])
    show ?thesis
      using w u True k r by_file [OF _ t2] t2 by (auto simp: write_oauth_credentials_def split: if_splits)
  next
    case False
    then show ?thesis using w u by_file [OF _ t1] by (auto simp: write_oauth_credentials_def)
  qed
qed

lemma write_active_keeps_config:
  assumes "write_active c w = (None, w')" "oauth_credential c" "primary_key w = JNull"
  shows "touches (live_resources w - {RLiveConfig}) w w'"
proof -
  let ?R = "live_resources w - {RLiveConfig}"
  obtain w1 where w1: "write_oauth_credentials c w = (None, w1)" "w' = clear_managed_key w1"
    using assms(1,2) by (auto simp: write_active_def oauth_credential_def split: prod.splits option.splits)
  have t1: "touches ?R w w1"
    by (rule touches_result [OF w1(1)])
      (unfold write_oauth_credentials_def write_oauth_file_def write_credentials_file_def delete_active_keychain_entry_def
        refresh_stale_credentials_file_def, intro frames; auto dest!: touches_facts(2) simp: live_resources_def)
  define w2 where "w2 = (if macos w1 then ignoring (kc_raw_delete managed_service (w_user w1)) w1 else w1)"
  have t2: "touches ?R w w2"
    unfolding w2_def using touches_facts(2) [OF t1] t1
    by (intro frames) (auto simp: live_resources_def)
  have "primary_key w2 = JNull"
    using touches_same [OF t2, of RLiveConfig] assms(3) by (simp add: primary_key_def read_lenient_def)
  then have "mget m ''primaryApiKey'' = JNull" if "read_config_json w2 = (Some m, w3)" for m w3
    using read_config_json_Some [OF that] by (simp add: primary_key_def)
  then have "w' = snd (read_config_json w2)"
    by (cases "read_config_json w2")
      (auto simp: w1(2) clear_managed_key_def w2_def [symmetric] read_config_json_def Let_def split: option.split)
  then show ?thesis using touches_live_reads(2) [OF t2] by simp
qed

lemma splice_failed:
  assumes "splice_target t w = (Some e, w')" "prompt w"
  shows "touches {} w w'"
proof -
  obtain m w1 where r: "read_config_json w = (m, w1)" by fastforce
  have t1: "touches {} w w1" by (rule touches_result [OF r]) (intro frames; simp)
  have "w' = w \<or> w' = w1 \<or> (\<exists>cfg. write_config_json cfg w1 = (Some e, w'))"
    using assms(1) r by (auto simp: splice_target_def split: sum.splits option.splits)
  then show ?thesis
    using t1 touches_trans [OF t1 prompt_calls(1) [OF prompt_touches [OF t1 assms(2)]]]
    by (auto simp: write_config_json_def write_live_config_def)
qed

lemma install_target_failed:
  assumes "install_target num email d w = ((Some e, steps), w')" "prompt w" "primary_key w = JNull"
    "\<And>c. c \<in> slot_copies num email w \<Longrightarrow> c \<noteq> [] \<Longrightarrow> oauth_credential c"
  shows "steps = [] \<and> touches {} w w'
     \<or> steps = [CredentialsWritten] \<and> touches (live_resources w - {RLiveConfig}) w w'
     \<or> steps = [CredentialsWritten, ConfigWritten] \<and> touches (live_resources w) w w'"
proof -
  obtain c w1 t w2 where r: "read_account_credentials num email w = (c, w1)" "read_config_quiet num email w1 = (t, w2)"
    by fastforce
  note tr = target_reads [OF r]
  have same: "primary_key w2 = JNull" "live_resources w2 = live_resources w" "prompt w2"
    using touches_same [OF tr(3), of RLiveConfig] touches_facts(2) [OF tr(3)] prompt_touches [OF tr(3) assms(2)] assms(3)
    by (simp_all add: primary_key_def read_lenient_def live_resources_def)
  show ?thesis
  proof (cases "c = [] \<or> t = empty_text")
    case True
    then show ?thesis using assms(1) tr(3) by (auto simp: install_target_def r split: if_splits)
  next
    case False
    then have c: "oauth_credential c" using tr(1) slot_copies_touches [OF tr(3)] assms(4) by simp
    obtain q w3 where a: "write_active c w2 = (q, w3)" by fastforce
    show ?thesis
    proof (cases q)
      case (Some e')
      then show ?thesis
        using assms(1) False a touches_trans [OF tr(3) write_active_failed [OF _ c same(3)]]
        by (auto simp: install_target_def r)
    next
      case None
      have t3: "touches (live_resources w - {RLiveConfig}) w w3"
        using touches_trans [OF touches_mono [OF tr(3)] write_active_keeps_config [OF a [unfolded None] c same(1), unfolded same(2)]]
        by simp
      obtain q' w4 where s: "splice_target t w3 = (q', w4)" by fastforce
      show ?thesis
      proof (cases q')
        case (Some e')
        have "touches {} w3 w4" by (rule splice_failed [OF s [unfolded Some] prompt_touches [OF t3 assms(2)]])
        then have "touches (live_resources w - {RLiveConfig}) w w4" using t3 by (meson touches_mono touches_trans empty_subsetI)
        then show ?thesis using assms(1) False a None s Some by (auto simp: install_target_def r)
      next
        case None': None
        have "touches (live_resources w) w3 w4" by (rule touches_result [OF s]) (intro frames; simp add: live_resources_def)
        from touches_trans [OF touches_mono [OF t3] this] have t4: "touches (live_resources w) w w4" by auto
        obtain e' where "write_sequence (set_active num w4 d) w4 = (Some e', w')" "steps = [CredentialsWritten, ConfigWritten]"
          using assms(1) False a None s None' by (auto simp: install_target_def r split: prod.splits option.splits)
        then show ?thesis using os_atomic_Some [of _ w4 e' w'] t4 touches_trans [OF t4 touches_mono]
          by (auto simp: write_sequence_def)
      qed
    qed
  qed
qed

text \<open>Undoing the completed steps brings the login back.\<close>

lemma rollback_restores:
  assumes "rollback tx (rev steps) w = (True, w')" "tx_config tx = cfg" "tx_creds tx = live" "oauth_credential live"
    "steps = [CredentialsWritten] \<and> live_config w = Some cfg \<or> steps = [CredentialsWritten, ConfigWritten]"
    "mget (decode_record (case cfg of TJson v \<Rightarrow> v | _ \<Rightarrow> JNull)) ''primaryApiKey'' = JNull"
  shows "active_of w' = live \<and> live_config w' = Some cfg \<and> seq_file w' = seq_file w"
proof -
  obtain w1 where w1: "live_config w1 = Some cfg" "seq_file w1 = seq_file w" "write_active live w1 = (None, w')"
  proof (cases "steps = [CredentialsWritten]")
    case True
    then show ?thesis using that [of w] assms(1,3,5) by (auto simp: Let_def split: prod.splits)
  next
    case False
    then obtain w1 where c: "write_config_text cfg w = (None, w1)" "write_active live w1 = (None, w')"
      using assms(1,2,3,5) by (auto simp: Let_def split: prod.splits)
    have "live_config w1 = Some cfg" using c(1) by (auto simp: write_config_text_def write_live_config_def dest!: os_call_None)
    moreover have "touches {RLiveConfig} w w1" by (rule touches_result [OF c(1)]) (intro frames; simp)
    ultimately show ?thesis using that [of w1] c(2) touches_same [of _ w w1 RSeq] by auto
  qed
  have "primary_key w1 = JNull"
    using assms(6) w1(1) by (auto simp: primary_key_def read_lenient_def decode_record_def mget_def split: jtext.splits option.splits)
  note t = write_active_keeps_config [OF w1(3) assms(4) this]
  have "active_of w' = live" by (rule login_held_active [OF write_active_held [OF w1(3) assms(4)]])
  then show ?thesis using w1(1,2) touches_same [OF t, of RLiveConfig] touches_same [OF t, of RSeq] by (auto simp: live_resources_def)
qed

lemma outgoing_apart:
  "outgoing_resources num email w \<inter> insert RSeq (live_resources w') = {}"
  by (auto simp: outgoing_resources_def live_resources_def backup_resources_def profile_resources_def)

lemma outgoing_same:
  assumes "touches (outgoing_resources num email w1) w w'"
  shows "seq_file w' = seq_file w" "live_config w' = live_config w" "\<forall>r\<in>live_resources w. same r w w'"
proof -
  have s: "same r w w'" if "r \<in> insert RSeq (live_resources w)" for r
    using touches_same [OF assms] that outgoing_apart [of num email w1 w] by blast
  show "seq_file w' = seq_file w" "live_config w' = live_config w" "\<forall>r\<in>live_resources w. same r w w'"
    using s [of RSeq] s [of RLiveConfig] s by (simp, simp add: live_resources_def, blast)
qed

lemma outgoing_copies:
  assumes "touches (outgoing_resources current e' w) w w'" "is_digits target" "is_digits current" "target \<noteq> current"
  shows "slot_copies target email w' = slot_copies target email w"
  using slot_names_apart [OF assms(3,2) assms(4) [symmetric]]
  by (intro slot_copies_touches [OF assms(1)])
    (auto simp: outgoing_resources_def backup_resources_def profile_resources_def)

text \<open>
  Property C13: a normal switch between two OAuth slots that fails changes nothing that Claude Code uses,
  unless it says that the rollback failed too. Provided that no failing call takes effect behind its error,
  that the live credential and the target's are OAuth credentials, and that the live configuration has no
  primaryApiKey, after any other failure the roster and the live configuration are what they were, and so
  is the live login: untouched, or put back. (Without the first proviso it does not hold:
  \<open>late_failure_mixes_accounts\<close>.)
\<close>

theorem failed_switch_harmless:
  assumes "normal_switch target email current cur_email prov d w = (Inl e, w')" "e \<noteq> rollback_failed"
    "prompt w" "fst (read_active_value w) = Some live" "oauth_credential live" "primary_key w = JNull"
    "is_digits target" "is_digits current" "target \<noteq> current"
    "\<forall>c\<in>slot_copies target email w. c = [] \<or> oauth_credential c"
  shows "seq_file w' = seq_file w \<and> live_config w' = live_config w
     \<and> ((\<forall>r\<in>live_resources w. same r w w') \<or> active_of w' = live)"
proof -
  let ?O = "outgoing_resources current cur_email w"
  have early: ?thesis if "touches ?O w w'"
    using outgoing_same [OF that] by blast
  obtain w1 where l: "read_active_value w = (Some live, w1)" using assms(4) by (cases "read_active_value w") auto
  have live: "live \<noteq> []" using assms(5) by (auto simp: oauth_credential_def)
  obtain c w2 where c: "read_config_text w1 = (c, w2)" by fastforce
  have t1: "touches {} w w1" "touches {} w1 w2"
    by (rule touches_result [OF l] touches_result [OF c]; intro frames; simp)+
  have t2: "touches {} w w2" by (rule touches_trans [OF t1])
  show ?thesis
  proof (cases "\<exists>cfg. c = Inr (Some cfg)")
    case False
    then have "w' = w2" using assms(1) l live c by (auto simp: normal_switch_def split: sum.splits option.splits)
    then show ?thesis using t2 early touches_mono by blast
  next
    case True
    then obtain cfg where cfg: "c = Inr (Some cfg)" by blast
    have lc: "live_config w = Some cfg"
      using c cfg touches_same [OF t1(1), of RLiveConfig] by (auto simp: read_config_text_def split: option.splits prod.splits)
    obtain b w3 where b: "backup_outgoing current cur_email live cfg prov d w2 = (b, w3)" by fastforce
    have "outgoing_resources current cur_email w2 = ?O"
      by (simp add: outgoing_resources_def touches_names [OF t2] profile_resources_def touches_facts [OF t2])
    then have "touches ?O w2 w3" by (intro touches_result [OF b] frames) simp_all
    from touches_trans [OF touches_mono [OF t2] this] have t3: "touches ?O w w3" by simp
    show ?thesis
    proof (cases b)
      case (Inl e')
      then have "w' = w3" using assms(1) l live c cfg b by (auto simp: normal_switch_def)
      with t3 early show ?thesis by simp
    next
      case (Inr r)
      obtain d' ws where r: "r = (d', ws)" by fastforce
      obtain q steps w4 where i: "install_target target email d' w3 = ((q, steps), w4)"
        by (cases "install_target target email d' w3") fastforce
      have fail: "\<exists>e'. q = Some e'"
        using assms(1) l live c cfg b Inr r i by (auto simp: normal_switch_def split: option.splits)
      have s3: "seq_file w3 = seq_file w" "live_config w3 = live_config w" "\<forall>x\<in>live_resources w. same x w w3"
        by (rule outgoing_same [OF t3])+
      have p3: "primary_key w3 = JNull" using assms(6) s3(2) by (simp add: primary_key_def read_lenient_def)
      have k: "mget (decode_record (case cfg of TJson v \<Rightarrow> v | _ \<Rightarrow> JNull)) ''primaryApiKey'' = JNull"
        using assms(6) lc by (auto simp: primary_key_def read_lenient_def decode_record_def mget_def split: jtext.splits option.splits)
      have "oauth_credential x" if "x \<in> slot_copies target email w3" "x \<noteq> []" for x
        using that assms(10) outgoing_copies [OF t3 assms(7-9)] by auto
      then consider (none) "steps = []" "touches {} w3 w4"
        | (creds) "steps = [CredentialsWritten]" "touches (live_resources w3 - {RLiveConfig}) w3 w4"
        | (config) "steps = [CredentialsWritten, ConfigWritten]" "touches (live_resources w3) w3 w4"
        using install_target_failed [OF _ prompt_touches [OF t3 assms(3)] p3, of target email d'] i fail by blast
      then show ?thesis
      proof cases
        case none
        then have "w' = w4" using assms(1) l live c cfg b Inr r i fail by (auto simp: normal_switch_def)
        moreover from touches_trans [OF t3 touches_mono [OF none(2)]] have "touches ?O w w4" by simp
        ultimately show ?thesis using early by simp
      next
        case creds
        obtain w5 where u: "rollback \<lparr>tx_creds = live, tx_config = cfg, tx_num = current\<rparr> (rev steps) w4 = (True, w5)" "w' = w5"
          using assms(1,2) l live c cfg b Inr r i fail creds(1)
          by (auto simp: normal_switch_def split: prod.splits if_splits)
        have f: "live_config w4 = Some cfg" "seq_file w4 = seq_file w"
          using s3 lc touches_same [OF creds(2), of RLiveConfig] touches_same [OF creds(2), of RSeq] by (auto simp: live_resources_def)
        have st: "steps = [CredentialsWritten] \<and> live_config w4 = Some cfg \<or> steps = [CredentialsWritten, ConfigWritten]"
          using creds(1) f(1) by simp
        have "active_of w5 = live \<and> live_config w5 = Some cfg \<and> seq_file w5 = seq_file w4"
          by (rule rollback_restores [OF u(1) _ _ assms(5) st k]) simp_all
        then show ?thesis using u(2) f lc by simp
      next
        case config
        obtain w5 where u: "rollback \<lparr>tx_creds = live, tx_config = cfg, tx_num = current\<rparr> (rev steps) w4 = (True, w5)" "w' = w5"
          using assms(1,2) l live c cfg b Inr r i fail config(1)
          by (auto simp: normal_switch_def split: prod.splits if_splits)
        have f: "seq_file w4 = seq_file w"
          using s3 touches_same [OF config(2), of RSeq] by (auto simp: live_resources_def)
        have st: "steps = [CredentialsWritten] \<and> live_config w4 = Some cfg \<or> steps = [CredentialsWritten, ConfigWritten]"
          using config(1) by simp
        have "active_of w5 = live \<and> live_config w5 = Some cfg \<and> seq_file w5 = seq_file w4"
          by (rule rollback_restores [OF u(1) _ _ assms(5) st k]) simp_all
        then show ?thesis using u(2) f lc by simp
      qed
    qed
  qed
qed

section \<open>Instances\<close>

text \<open>The two accounts of \<open>sample_pair\<close>, with slot 1 logged in and its credential refreshed since its backup.\<close>

definition login_doc :: "string \<Rightarrow> jtext" where
  "login_doc org =
     TJson (JObj [(''oauthAccount'', JObj [(''emailAddress'', JStr ''a@x''), (''organizationUuid'', JStr org)])])"

definition sample_login :: "fault list \<Rightarrow> world" where
  "sample_login fs =
     (sample_linux fs Map.empty)\<lparr>live_creds := Some ''LIVE-1'', live_config := Some (login_doc []),
        config_files := [''.claude-config-2-a@x.json'' \<mapsto> login_doc ''o2'']\<rparr>"

lemma perform_locked_anonymous:
  assumes "perform_locked target force prov warns w = (Inr (op, org), w')" "read_lenient w = None"
  shows "op_from op = None \<and> org = None \<and> touches (live_resources w \<union> {RSeq, RUsage}) w w'"
proof -
  obtain d rec where d: "read_sequence (seq_file w) = Inr (Some d)" "record_for (Some d) target = Some rec"
    using assms(1) by (auto simp: perform_locked_def split: sum.splits option.splits)
  obtain cfg w1 where r: "read_config_json w = (cfg, w1)" by fastforce
  then have "cfg = None" using read_config_json_Some [of w _ w1] assms(2) by (cases cfg) auto
  with r have l: "live_identity_of w = (None, w1)" by (simp add: live_identity_of_def oauth_identity_def)
  have t1: "touches {} w w1" by (rule touches_result [OF r]) (intro frames; simp)
  obtain extra current where a:
    "direct_activate target (str_field rec ''email'') (str_field rec ''organizationUuid'') False current force d w1 = (Inr extra, w')"
    "op_from op = None" "org = None"
    using assms(1) d l by (auto simp: perform_locked_def Let_def split: sum.splits prod.splits)
  have "touches (live_resources w1 \<union> {RSeq, RUsage}) w1 w'"
    by (rule touches_result [OF a(1)])
      (simp only: direct_activate_def snapshot_live_def preserve_live_def not_False_eq_True if_True
        option.case sum.case prod.case, intro frames; auto intro!: touches_replan touches_activate(2) simp: live_resources_def split: option.split)
  moreover have "live_resources w1 = live_resources w" using touches_facts(2) [OF t1] by (simp add: live_resources_def)
  ultimately show ?thesis using a(2,3) touches_trans [OF touches_mono [OF t1]] by simp
qed

text \<open>
  Property C14: a login whose configuration cannot be read is replaced without a copy. When ~/.claude.json
  is missing or is no JSON object, a switch takes it for a first activation: it succeeds and stores
  nothing away, so a live credential newer than its slot's backup is gone (the stash for displaced logins
  runs only when the configuration names one).
\<close>

theorem unreadable_login_displaced:
  assumes "perform_switch profile target force given w = (Inr op, w')" "read_lenient w = None"
  shows "op_from op = None \<and> stash_entries w' = stash_entries w
     \<and> (\<forall>num email. slot_copies num email w' = slot_copies num email w)"
proof -
  obtain prov warns org w0 w1 where p: "with_triple_lock (perform_locked target force prov warns) w0 = (Inr (op, org), w1)"
    "w' = (case org of None \<Rightarrow> w1 | Some org' \<Rightarrow> replan_new_active target (snd (op_to op)) org' w1)" "touches {} w w0"
    using assms(1) touches_provenance(2) [OF touches_refl, of "{}" w profile]
    by (auto simp: perform_switch_def Let_def split: sum.splits prod.splits option.splits if_splits)
  obtain w2 where w2: "touches {} w0 w2" "perform_locked target force prov warns w2 = (Inr (op, org), w1)"
    by (rule with_triple_lock_ok [OF p(1)])
  have t: "touches {} w w2" by (rule touches_trans [OF p(3) w2(1)])
  have "read_lenient w2 = None" using touches_same [OF t, of RLiveConfig] assms(2) by (simp add: read_lenient_def)
  from perform_locked_anonymous [OF w2(2) this] p(2)
  have r: "op_from op = None" "w' = w1" and t2: "touches (live_resources w2 \<union> {RSeq, RUsage}) w2 w1" by auto
  from touches_trans [OF touches_mono [OF t] t2] have t3: "touches (live_resources w2 \<union> {RSeq, RUsage}) w w1" by simp
  have "slot_copies num email w1 = slot_copies num email w" for num email
    by (rule slot_copies_touches [OF t3]) (auto simp: live_resources_def)
  moreover have "stash_entries w1 = stash_entries w" using touches_same [OF t3, of RStash] by (auto simp: live_resources_def)
  ultimately show ?thesis using r by simp
qed

lemma unreadable_login_displaced_witness:
  "let (r, w') = perform_switch (\<lambda>_. None) ''2'' False None ((sample_login [])\<lparr>live_config := None\<rparr>)
   in active_of w' = ''CRED-2'' \<and> stash_entries w' = [] \<and> slot_copies ''1'' ''a@x'' w' = {''CRED-1'', []}"
proof -
  let ?w = "(sample_login [])\<lparr>live_config := None\<rparr>"
  let ?r = "perform_switch (\<lambda>_. None) ''2'' False None ?w"
  have e: "fst ?r = Inr \<lparr>op_from = None, op_to = (Some 2, ''a@x''), op_warnings = []\<rparr>" "active_of (snd ?r) = ''CRED-2''"
    by code_simp+
  then have "?r = (Inr \<lparr>op_from = None, op_to = (Some 2, ''a@x''), op_warnings = []\<rparr>, snd ?r)" by (simp add: prod_eq_iff)
  moreover have "read_lenient ?w = None" by (simp add: read_lenient_def)
  ultimately have "stash_entries (snd ?r) = stash_entries ?w"
    "slot_copies ''1'' ''a@x'' (snd ?r) = slot_copies ''1'' ''a@x'' ?w"
    using unreadable_login_displaced [of "\<lambda>_. None" "''2''" False None ?w _ "snd ?r"] by blast+
  moreover have "stash_entries ?w = []" "slot_copies ''1'' ''a@x'' ?w = {''CRED-1'', []}"
    by (simp_all add: sample_login_def sample_linux_def slot_copies_def enc_val_def backup_enc_path_def or_empty_def)
  ultimately show ?thesis using e by (simp add: case_prod_unfold)
qed

text \<open>
  An error that hides its effect leaves two accounts mixed. If the chmod after the rename of
  ~/.claude.json fails, the switch reports that it was rolled back, with the old credential live under the
  new account's name; if the credential write fails after its effect, the new credential stays live under
  the old account's name and nothing is rolled back.
\<close>

theorem late_failure_mixes_accounts:
  "(let (r, w') = normal_switch ''2'' ''a@x'' ''1'' ''a@x'' no_provenance sample_pair (sample_login (replicate 16 NoFault @ [OtherFail True]))
   in r = Inl rolled_back \<and> active_of w' = ''LIVE-1'' \<and> current_account w' = Some (''a@x'', ''o2''))
   \<and> (let (r, w') = normal_switch ''2'' ''a@x'' ''1'' ''a@x'' no_provenance sample_pair (sample_login (replicate 13 NoFault @ [OtherFail True]))
   in r = Inl (Err KindCredentialWrite ''Failed to write credentials'') \<and> active_of w' = ''CRED-2''
      \<and> current_account w' = Some (''a@x'', []))"
  by (intro conjI) code_simp+

lemma outgoing_credential_survives_witness:
  "\<exists>live num. live \<noteq> [] \<and> survives live num ''a@x'' (snd (perform_switch (\<lambda>_. None) ''2'' False None (sample_login [])))"
proof -
  let ?r = "perform_switch (\<lambda>_. None) ''2'' False None (sample_login [])"
  let ?op = "\<lparr>op_from = Some (Some 1, ''a@x''), op_to = (Some 2, ''a@x''), op_warnings = []\<rparr>"
  have "fst ?r = Inr ?op" by code_simp
  then have "?r = (Inr ?op, snd ?r)" by (simp add: prod_eq_iff)
  from outgoing_credential_survives [OF this, of "Some 1" "''a@x''"] show ?thesis by auto
qed

lemma switch_takes_effect_witness:
  "current_account (snd (perform_switch (\<lambda>_. None) ''2'' False None (sample_login []))) = Some (''a@x'', ''o2'')
   \<and> (\<exists>d. seq_file (snd (perform_switch (\<lambda>_. None) ''2'' False None (sample_login []))) = SeqRoster d \<and> active_num d = Some 2)"
proof -
  let ?r = "perform_switch (\<lambda>_. None) ''2'' False None (sample_login [])"
  let ?op = "\<lparr>op_from = Some (Some 1, ''a@x''), op_to = (Some 2, ''a@x''), op_warnings = []\<rparr>"
  have e: "fst ?r = Inr ?op" "current_account (snd ?r) = Some (''a@x'', ''o2'')" "atoi_value ''2'' = 2" by code_simp+
  then have "?r = (Inr ?op, snd ?r)" by (simp add: prod_eq_iff)
  from switch_takes_effect [OF this] e(2,3) show ?thesis by auto
qed

lemma failed_switch_harmless_witness:
  "current_account (snd (normal_switch ''2'' ''a@x'' ''1'' ''a@x'' no_provenance sample_pair
     (sample_login (replicate 16 NoFault @ [OtherFail False])))) = Some (''a@x'', [])"
proof -
  let ?w = "sample_login (replicate 16 NoFault @ [OtherFail False])"
  let ?r = "normal_switch ''2'' ''a@x'' ''1'' ''a@x'' no_provenance sample_pair ?w"
  have "fst ?r = Inl rolled_back" by code_simp
  then have r: "?r = (Inl rolled_back, snd ?r)" by (simp add: prod_eq_iff)
  have "rolled_back \<noteq> rollback_failed" "prompt ?w" "primary_key ?w = JNull" "is_digits ''2''" "is_digits ''1''" "''2'' \<noteq> ''1''"
    "fst (read_active_value ?w) = Some ''LIVE-1''" "oauth_credential ''LIVE-1''"
    "\<forall>c\<in>slot_copies ''2'' ''a@x'' ?w. c = [] \<or> oauth_credential c"
    by code_simp+
  then have "live_config (snd ?r) = live_config ?w" using failed_switch_harmless [OF r] by blast
  then show ?thesis by (simp add: current_account_def read_lenient_def) code_simp
qed

end
