(* ===== verification/SwitchChoice.thy ===== *)
theory SwitchChoice
  imports Switching
begin

text \<open>
  internal/switching: which account to switch to. The usage-aware scoring (strategies.go), rotation and the
  fresh-machine activation (switch.go), a switch to a named account (switchto.go) and the result they report
  (result.go). The usage map, the automatic adding of an unmanaged login and the answer to a question are
  parameters. In human mode the code prints what it returns in JSON mode; both are the result here.
\<close>

section \<open>Results\<close>

record switch_result =
  res_switched :: bool
  res_from :: "account_ref option"
  res_to :: "account_ref option"
  res_strategy :: string
  res_reason :: string
  res_warnings :: "string list"

definition switch_result_from_op :: "switch_op \<Rightarrow> string \<Rightarrow> string list \<Rightarrow> switch_result" where
  "switch_result_from_op op strategy extra =
     (let switched = op_from op \<noteq> Some (op_to op)
      in \<lparr>res_switched = switched, res_from = op_from op, res_to = Some (op_to op), res_strategy = strategy,
          res_reason = (if switched then ''switched'' else ''already-active''),
          res_warnings = extra @ op_warnings op\<rparr>)"

definition switch_noop :: "string \<Rightarrow> string \<Rightarrow> account_ref option \<Rightarrow> string list \<Rightarrow> switch_result" where
  "switch_noop strategy reason ref warns =
     \<lparr>res_switched = False, res_from = ref, res_to = ref, res_strategy = strategy, res_reason = reason, res_warnings = warns\<rparr>"

definition num_ref :: "string \<Rightarrow> string \<Rightarrow> account_ref" where
  "num_ref num email = (Some (atoi_value num), email)"

section \<open>The usage-aware choice\<close>

text \<open>The usage map: a slot that it does not name is unknown.\<close>

definition usage_value :: "(string \<times> decision) list \<Rightarrow> string \<Rightarrow> decision" where
  "usage_value usage num = (case map_of usage num of None \<Rightarrow> DNone | Some v \<Rightarrow> v)"

definition relevant_windows_of :: "decision \<Rightarrow> string list \<Rightarrow> relevant_window list" where
  "relevant_windows_of v models = (case v of DUsage m \<Rightarrow> relevant_windows (new_usage m) models | _ \<Rightarrow> [])"

definition headroom_of :: "decision \<Rightarrow> string list \<Rightarrow> rat option" where
  "headroom_of v models = (case v of DUsage m \<Rightarrow> account_headroom (new_usage m) models | _ \<Rightarrow> None)"

datatype choice =
  Target string | NoTarget | CurrentUnavailable | NoComparison | IncompleteComparison | StayPut | AllExhausted

fun eligible_others :: "seq_data \<Rightarrow> string \<Rightarrow> int list \<Rightarrow> world \<Rightarrow> string list \<times> world" where
  "eligible_others d current [] w = ([], w)"
| "eligible_others d current (n # ns) w =
     (if itoa n = current then eligible_others d current ns w
      else (let (ok, w) = rotation_eligible (Some d) (itoa n) w; (rest, w) = eligible_others d current ns w
            in (if ok then itoa n # rest else rest, w)))"

text \<open>The first of the best, among the slots whose headroom is known.\<close>

fun best_known :: "(string \<Rightarrow> rat option) \<Rightarrow> string list \<Rightarrow> (rat \<times> string) option \<Rightarrow> (rat \<times> string) option" where
  "best_known h [] best = best"
| "best_known h (n # ns) best =
     best_known h ns
       (case h n of
          None \<Rightarrow> best
        | Some x \<Rightarrow> (case best of None \<Rightarrow> Some (x, n) | Some (b, _) \<Rightarrow> if b < x then Some (x, n) else best))"

definition select_best_switchable ::
  "string \<Rightarrow> string list \<Rightarrow> (string \<times> decision) list \<Rightarrow> world \<Rightarrow> choice \<times> world" where
  "select_best_switchable current models usage w =
     (case w_roster w of
        None \<Rightarrow> (NoTarget, w)
      | Some d \<Rightarrow>
          (let (others, w) = eligible_others d current (seq_nums d) w; h = (\<lambda>n. headroom_of (usage_value usage n) models)
           in (if others = [] then NoTarget
               else (case h current of
                       None \<Rightarrow> CurrentUnavailable
                     | Some here \<Rightarrow>
                         (case best_known h others None of
                            None \<Rightarrow> NoComparison
                          | Some (b, n) \<Rightarrow>
                              if here < b then Target n
                              else if list_ex (\<lambda>n. h n = None) others then IncompleteComparison
                              else if here \<le> 0 then AllExhausted else StayPut)), w)))"

text \<open>\<open>warnInertModels\<close>: the configured models that no account reports, once every account is readable.\<close>

definition scope_names :: "decision \<Rightarrow> string list" where
  "scope_names v =
     (case v of
        DUsage m \<Rightarrow>
          (case as_arr (mget m ''scoped'') of
             None \<Rightarrow> []
           | Some items \<Rightarrow>
               List.map_filter (\<lambda>i. case as_map i of None \<Rightarrow> None | Some s \<Rightarrow> map_option go_lower (as_str (mget s ''name''))) items)
      | _ \<Rightarrow> [])"

definition is_usage_dict :: "decision \<Rightarrow> bool" where
  "is_usage_dict v = (case v of DUsage _ \<Rightarrow> True | _ \<Rightarrow> False)"

text \<open>One spelling per model, at the place of the first and in the words of the last.\<close>

fun inert_names :: "string list \<Rightarrow> string list \<Rightarrow> string set \<Rightarrow> string list \<Rightarrow> string list" where
  "inert_names models seen emitted [] = []"
| "inert_names models seen emitted (m # ms) =
     (let l = go_lower m
      in if l = ''all'' \<or> l \<in> emitted \<or> l \<in> set seen then inert_names models seen emitted ms
         else last (filter (\<lambda>m'. go_lower m' = l) models) # inert_names models seen (insert l emitted) ms)"

definition inert_models :: "(string \<times> decision) list \<Rightarrow> string list \<Rightarrow> string list" where
  "inert_models usage models =
     (if usage = [] \<or> \<not> list_all (\<lambda>(_, v). is_usage_dict v) usage then []
      else inert_names models (concat (map (\<lambda>(_, v). scope_names v) usage)) {} models)"

definition inert_warning :: "(string \<times> decision) list \<Rightarrow> string list \<Rightarrow> string list" where
  "inert_warning usage models =
     (let ms = inert_models usage models
      in if ms = [] then [] else [''model(s) '' @ join_with '', '' ms @ '' match no account usage windows''])"

section \<open>Rotation\<close>

definition seq_index :: "int list \<Rightarrow> int \<Rightarrow> nat option" where
  "seq_index xs v = (case filter (\<lambda>(_, x). x = v) (enumerate 0 xs) of [] \<Rightarrow> None | (i, _) # _ \<Rightarrow> Some i)"

definition first_some :: "'a option \<Rightarrow> 'a option \<Rightarrow> 'a option" where
  "first_some a b = (case a of None \<Rightarrow> b | Some _ \<Rightarrow> a)"

text \<open>Where rotation starts: at the anchor, else at the recorded active slot, else at the first.\<close>

definition rotation_start :: "string \<Rightarrow> string \<Rightarrow> seq_data \<Rightarrow> nat" where
  "rotation_start strategy current d =
     (let by_active = (case active_num d of None \<Rightarrow> None | Some n \<Rightarrow> seq_index (seq_nums d) n);
          anchor = (if strategy = ''next-available'' then (if current = [] then None else atoi current) else active_num d);
          by_anchor = (case anchor of None \<Rightarrow> None | Some n \<Rightarrow> seq_index (seq_nums d) n)
      in (case first_some by_anchor by_active of None \<Rightarrow> 0 | Some i \<Rightarrow> i))"

definition rotation_order :: "nat \<Rightarrow> int list \<Rightarrow> string list" where
  "rotation_order start xs = map (\<lambda>k. itoa (xs ! ((start + k) mod length xs))) [1..<length xs]"

text \<open>The walk: the slot found, whether a slot was passed over for its limit, and the warnings.\<close>

fun next_slot ::
  "seq_data \<Rightarrow> (string \<Rightarrow> rat option) \<Rightarrow> string list \<Rightarrow> world \<Rightarrow> (string option \<times> bool \<times> string list) \<times> world" where
  "next_slot d limit [] w = ((None, False, []), w)"
| "next_slot d limit (c # cs) w =
     (if disabled_from_data (Some d) c
      then (let ((r, ex, ws), w) = next_slot d limit cs w in ((r, ex, (''Skipped Account-'' @ c @ '' (disabled)'') # ws), w))
      else (let (ok, w) = account_is_switchable c w
            in if \<not> ok
               then (let ((r, ex, ws), w) = next_slot d limit cs w
                     in ((r, ex, (''Skipped Account-'' @ c @ '' (no stored credentials/config)'') # ws), w))
               else if (case limit c of None \<Rightarrow> False | Some h \<Rightarrow> h \<le> 0)
               then (let ((r, ex, ws), w) = next_slot d limit cs w
                     in ((r, True, (''Skipped Account-'' @ c @ '' (at its limit)'') # ws), w))
               else ((Some c, False, []), w)))"

section \<open>Switch\<close>

definition no_accounts :: go_err where
  "no_accounts = Err KindConfig ''No accounts are managed yet''"

definition finish_switch ::
  "string \<Rightarrow> string list \<Rightarrow> (go_err + switch_op) \<times> world \<Rightarrow> (go_err + switch_result) \<times> world" where
  "finish_switch label warns r =
     (case r of (Inl e, w) \<Rightarrow> (Inl e, w) | (Inr op, w) \<Rightarrow> (Inr (switch_result_from_op op label warns), w))"

fun first_eligible :: "seq_data \<Rightarrow> string \<Rightarrow> int list \<Rightarrow> world \<Rightarrow> string option \<times> world" where
  "first_eligible d skip [] w = (None, w)"
| "first_eligible d skip (n # ns) w =
     (if itoa n = skip then first_eligible d skip ns w
      else (let (ok, w) = rotation_eligible (Some d) (itoa n) w
            in if ok then (Some (itoa n), w) else first_eligible d skip ns w))"

fun any_switchable :: "int list \<Rightarrow> world \<Rightarrow> bool \<times> world" where
  "any_switchable [] w = (False, w)"
| "any_switchable (n # ns) w =
     (let (ok, w) = account_is_switchable (itoa n) w in if ok then (True, w) else any_switchable ns w)"

definition switch_fresh_machine ::
  "(string \<Rightarrow> resolved_id option) \<Rightarrow> string \<Rightarrow> world \<Rightarrow> (go_err + switch_result) \<times> world" where
  "switch_fresh_machine profile label w =
     (let d = (case w_roster w of None \<Rightarrow> empty_sequence [] | Some d \<Rightarrow> d);
          pref = (case active_num d of None \<Rightarrow> 0 | Some n \<Rightarrow> n);
          pref = (if pref = 0 then (case seq_nums d of [] \<Rightarrow> 0 | n # _ \<Rightarrow> n) else pref)
      in if pref = 0 then (Inl no_accounts, w)
         else (let (ok, w) = rotation_eligible (Some d) (itoa pref) w
               in if ok then finish_switch label [] (perform_switch profile (itoa pref) False None w)
                  else
                    (let warn = ''Skipped Account-'' @ itoa pref @
                           (if disabled_from_data (Some d) (itoa pref) then '' (disabled)'' else '' (no stored credentials/config)'')
                     in (case first_eligible d (itoa pref) (seq_nums d) w of
                           (Some t, w) \<Rightarrow> finish_switch label [warn] (perform_switch profile t False None w)
                         | (None, w) \<Rightarrow>
                             (let (any, w) = any_switchable (seq_nums d) w
                              in (Inl (Err KindConfig (if any then ''No accounts remain in rotation''
                                    else ''No managed accounts have valid stored credentials/config'')), w))))))"

definition best_noop_reason :: "choice \<Rightarrow> string" where
  "best_noop_reason c =
     (case c of StayPut \<Rightarrow> ''already-best'' | AllExhausted \<Rightarrow> ''candidates-exhausted'' | _ \<Rightarrow> ''usage-unavailable'')"

definition rotate ::
  "(string \<Rightarrow> resolved_id option) \<Rightarrow> (world \<Rightarrow> (string \<times> decision) list \<times> world) \<Rightarrow> string \<Rightarrow> string \<Rightarrow> string list \<Rightarrow>
   string \<Rightarrow> string \<Rightarrow> string list \<Rightarrow> seq_data \<Rightarrow> world \<Rightarrow> (go_err + switch_result) \<times> world" where
  "rotate profile provider strategy label models email current warns d w =
     (let aware = (strategy = ''next-available'');
          ref = (if current = [] then None else Some (num_ref current email));
          (usage, w) = (if aware then provider w else ([], w));
          warns = warns @ (if aware then inert_warning usage models else []);
          limit = (\<lambda>c. if aware then headroom_of (usage_value usage c) models else None);
          ((found, exhausted, skipped), w) = next_slot d limit (rotation_order (rotation_start strategy current d) (seq_nums d)) w;
          warns = warns @ skipped
      in (case found of
            None \<Rightarrow> (Inr (switch_noop label (if exhausted then ''candidates-exhausted'' else ''no-valid-target'') ref warns), w)
          | Some t \<Rightarrow>
              if t \<noteq> current then finish_switch label warns (perform_switch profile t False None w)
              else (case self_switch_action profile t email w of
                      (SelfReconcile prov, w) \<Rightarrow> finish_switch label warns (perform_switch profile t False (Some prov) w)
                    | (_, w) \<Rightarrow> (Inr (switch_noop label ''already-active'' ref warns), w))))"

text \<open>\<open>Switch\<close>; \<open>None\<close> is the human mode's "added, run it again".\<close>

definition switch ::
  "(string \<Rightarrow> resolved_id option) \<Rightarrow> (world \<Rightarrow> (string \<times> decision) list \<times> world) \<Rightarrow> (world \<Rightarrow> go_err option \<times> world) \<Rightarrow>
   string \<Rightarrow> bool \<Rightarrow> string list \<Rightarrow> world \<Rightarrow> (go_err + switch_result option) \<times> world" where
  "switch profile provider auto_add strategy json_out models w =
     (let label = (if strategy = ''best'' \<or> strategy = ''next-available'' then strategy else ''rotation'');
          models = (if label = ''rotation'' then [] else models);
          wrap = (\<lambda>(r, w). (case r of Inl e \<Rightarrow> Inl e | Inr x \<Rightarrow> Inr (Some x), w))
      in if seq_file w = SeqMissing then (Inl no_accounts, w)
         else
           (let (live, w) = live_identity_of w
            in (case sequence_migrated w of
                  (Inl e, w) \<Rightarrow> (Inl e, w)
                | (Inr _, w) \<Rightarrow>
                    (case live of
                       None \<Rightarrow> wrap (switch_fresh_machine profile label w)
                     | Some (email, org) \<Rightarrow>
                         if find_account_slot (w_roster w) email org = []
                         then (if json_out then (Inr (Some (switch_noop label ''unmanaged-account'' (Some (None, email)) [])), w)
                               else (case auto_add w of (Some e, w) \<Rightarrow> (Inl e, w) | (None, w) \<Rightarrow> (Inr None, w)))
                         else
                           (case read_sequence (seq_file w) of
                              Inl e \<Rightarrow> (Inl e, w)
                            | Inr data \<Rightarrow>
                                (let d = (case data of None \<Rightarrow> empty_sequence [] | Some d \<Rightarrow> d);
                                     slot = find_account_slot (Some d) email org;
                                     current = (if slot \<noteq> [] then slot
                                                else case active_num d of None \<Rightarrow> [] | Some n \<Rightarrow> itoa n);
                                     ref = (if current = [] then None else Some (num_ref current email))
                                 in if length (seq_nums d) < 2
                                    then (Inr (Some (switch_noop label ''only-one-account''
                                            (if slot = [] then None else Some (num_ref slot email)) [])), w)
                                    else if strategy = ''best''
                                    then (let (usage, w) = provider w; warns = inert_warning usage models;
                                              (c, w) = select_best_switchable current models usage w
                                          in (case c of
                                                Target t \<Rightarrow> wrap (finish_switch label warns (perform_switch profile t False None w))
                                              | NoTarget \<Rightarrow> wrap (rotate profile provider strategy label models email current warns d w)
                                              | _ \<Rightarrow> (Inr (Some (switch_noop label (best_noop_reason c) ref warns)), w)))
                                    else wrap (rotate profile provider strategy label models email current [] d w)))))))"

section \<open>SwitchTo\<close>

definition find_by_alias :: "seq_data \<Rightarrow> string \<Rightarrow> string" where
  "find_by_alias d ident =
     (if ident = [] then []
      else (case filter (\<lambda>num. rec_alias d num \<noteq> [] \<and> go_lower (rec_alias d num) = go_lower ident) (sorted_account_keys d) of
              [] \<Rightarrow> [] | num # _ \<Rightarrow> num))"

definition email_matches :: "seq_data \<Rightarrow> string \<Rightarrow> string list" where
  "email_matches d ident = filter (\<lambda>num. rec_email d num = ident) (sorted_account_keys d)"

text \<open>
  The identifier to resolve: refused when it is neither a number, an alias nor an e-mail, and exchanged for
  the chosen number when a person is asked (\<open>asker\<close>: no prompt is wired, or the answer, \<open>None\<close> for none).
\<close>

definition chosen_identifier ::
  "string option option \<Rightarrow> bool \<Rightarrow> seq_data option \<Rightarrow> string \<Rightarrow> go_err + string option" where
  "chosen_identifier asker json_out data ident =
     (let is_alias = (case data of None \<Rightarrow> False | Some d \<Rightarrow> find_by_alias d ident \<noteq> []);
          matches = (case data of None \<Rightarrow> [] | Some d \<Rightarrow> email_matches d ident)
      in if is_digits ident then Inr (Some ident)
         else if \<not> is_alias \<and> \<not> validate_email ident then Inl (Err KindValidation ''Invalid account identifier'')
         else if \<not> json_out \<and> \<not> is_alias \<and> 1 < length matches
         then (case asker of
                 None \<Rightarrow> Inr (Some ident)
               | Some None \<Rightarrow> Inr None
               | Some (Some answer) \<Rightarrow>
                   (let c = trim_space answer in Inr (if is_digits c \<and> c \<in> set matches then Some c else None)))
         else Inr (Some ident))"

definition switch_to ::
  "(string \<Rightarrow> resolved_id option) \<Rightarrow> string option option \<Rightarrow> string \<Rightarrow> bool \<Rightarrow> bool \<Rightarrow> world \<Rightarrow>
   (go_err + switch_result option) \<times> world" where
  "switch_to profile asker identifier json_out force w =
     (if seq_file w = SeqMissing then (Inl no_accounts, w)
      else
        (case sequence_migrated w of
           (Inl e, w) \<Rightarrow> (Inl e, w)
         | (Inr _, w) \<Rightarrow>
             (case read_sequence (seq_file w) of
                Inl e \<Rightarrow> (Inl e, w)
              | Inr data \<Rightarrow>
                  (case chosen_identifier asker json_out data identifier of
                     Inl e \<Rightarrow> (Inl e, w)
                   | Inr None \<Rightarrow> (Inr None, w)
                   | Inr (Some ident) \<Rightarrow>
                       (case resolve_account ident w of
                          (Inl e, w) \<Rightarrow> (Inl e, w)
                        | (Inr (target, _, _), w) \<Rightarrow>
                            (let (live, w) = (if force \<or> data = None then (None, w) else live_identity_of w);
                                 here = (case live of None \<Rightarrow> False | Some (e, org) \<Rightarrow> find_account_slot data e org = target);
                                 (act, w) = (if here then self_switch_action profile target (fst (the live)) w
                                             else (SelfReconcile no_provenance, w));
                                 ref = num_ref target (str_field (rec_at (the data) target) ''email'')
                             in (case act of
                                   SelfReconcile prov \<Rightarrow>
                                     (case perform_switch profile target force (if here then Some prov else None) w of
                                        (Inl e, w) \<Rightarrow> (Inl e, w)
                                      | (Inr op, w) \<Rightarrow>
                                          (let r = switch_result_from_op op ''direct'' []
                                           in (Inr (Some (if force \<and> \<not> res_switched r then r\<lparr>res_reason := ''activated''\<rparr> else r)), w)))
                                 | _ \<Rightarrow> (Inr (Some (switch_noop ''direct'' ''already-active'' (Some ref) [])), w))))))))"

section \<open>The best account\<close>

lemma eligible_others_facts:
  "w_roster w = Some d \<Longrightarrow>
   set (fst (eligible_others d current ns w)) \<subseteq> {c \<in> itoa ` set ns. c \<noteq> current \<and> eligible d w c}
   \<and> (faults w = [] \<longrightarrow> set (fst (eligible_others d current ns w)) = {c \<in> itoa ` set ns. c \<noteq> current \<and> eligible d w c})"
proof (induction ns arbitrary: w)
  case (Cons n ns)
  show ?case
  proof (cases "itoa n = current")
    case True
    then show ?thesis using Cons.IH [OF Cons.prems] by auto
  next
    case False
    obtain ok w1 where o: "rotation_eligible (Some d) (itoa n) w = (ok, w1)" by fastforce
    have t: "touches {} w w1" by (rule touches_result [OF o]) (intro frames; simp)
    have w1: "w_roster w1 = Some d" using touches_same [OF t, of RSeq] Cons.prems by (simp add: w_roster_def)
    have el: "eligible d w1 = eligible d w" by (rule ext) (rule eligible_touches [OF t])
    have f: "ok \<Longrightarrow> eligible d w (itoa n)" "faults w = [] \<Longrightarrow> ok = eligible d w (itoa n) \<and> faults w1 = []"
      using rotation_eligible_facts [OF Cons.prems, of "itoa n"] o by simp_all
    have s: "set (fst (eligible_others d current (n # ns) w))
        = (if ok then insert (itoa n) else id) (set (fst (eligible_others d current ns w1)))"
      using o False by (simp add: case_prod_unfold Let_def)
    show ?thesis using Cons.IH [OF w1] f False unfolding s el by auto
  qed
qed simp

lemma best_known_facts:
  "best_known h ns best = None \<longleftrightarrow> best = None \<and> (\<forall>n\<in>set ns. h n = None)"
  "best_known h ns best = Some (b, n) \<Longrightarrow>
     (best = Some (b, n) \<or> n \<in> set ns \<and> h n = Some b)
     \<and> (\<forall>m\<in>set ns. \<forall>x. h m = Some x \<longrightarrow> x \<le> b) \<and> (\<forall>b0 n0. best = Some (b0, n0) \<longrightarrow> b0 \<le> b)"
  by (induction h ns best rule: best_known.induct) (auto split: option.splits if_splits)

text \<open>
  Property C15: \<open>best\<close> only ever improves. Whatever reads fail, the slot it moves to is another slot in
  rotation, enabled and backed up, whose headroom is known and strictly above the known headroom of the
  current one. When no read fails, no slot it could have taken has more, and it stays only when none of them
  is known to have more than the current slot.
\<close>

theorem best_improves:
  fixes usage models current
  assumes "w_roster w = Some d"
  defines "h \<equiv> \<lambda>n. headroom_of (usage_value usage n) models"
    and "others \<equiv> {c \<in> itoa ` set (seq_nums d). c \<noteq> current \<and> eligible d w c}"
    and "chosen \<equiv> fst (select_best_switchable current models usage w)"
  shows "(\<forall>t. chosen = Target t \<longrightarrow>
      (\<exists>here there. h current = Some here \<and> h t = Some there \<and> here < there \<and> t \<in> others
         \<and> (faults w = [] \<longrightarrow> (\<forall>c\<in>others. \<forall>x. h c = Some x \<longrightarrow> x \<le> there))))
    \<and> (faults w = [] \<longrightarrow> (\<exists>here. h current = Some here \<and> (\<exists>c\<in>others. \<exists>x. h c = Some x \<and> here < x)) \<longrightarrow> (\<exists>t. chosen = Target t))"
proof -
  obtain os w1 where os: "eligible_others d current (seq_nums d) w = (os, w1)" by fastforce
  have f: "set os \<subseteq> others" "faults w = [] \<longrightarrow> set os = others"
    using eligible_others_facts [OF assms(1), of current "seq_nums d"] by (simp_all add: os others_def)
  have ch: "chosen = (if os = [] then NoTarget
       else (case h current of
               None \<Rightarrow> CurrentUnavailable
             | Some here \<Rightarrow>
                 (case best_known h os None of
                    None \<Rightarrow> NoComparison
                  | Some (b, n) \<Rightarrow>
                      if here < b then Target n
                      else if list_ex (\<lambda>n. h n = None) os then IncompleteComparison
                      else if here \<le> 0 then AllExhausted else StayPut)))"
    unfolding chosen_def select_best_switchable_def h_def using assms(1) os by simp
  have a: "\<exists>here there. h current = Some here \<and> h t = Some there \<and> here < there \<and> t \<in> others
         \<and> (faults w = [] \<longrightarrow> (\<forall>c\<in>others. \<forall>x. h c = Some x \<longrightarrow> x \<le> there))"
    if t: "chosen = Target t" for t
  proof -
    obtain here b where "h current = Some here" "best_known h os None = Some (b, t)" "here < b"
      using t unfolding ch by (auto split: if_splits option.splits)
    then show ?thesis using best_known_facts(2) [of h os None b t] f by auto
  qed
  have b: "\<exists>t. chosen = Target t"
    if "faults w = []" and e: "h current = Some here" "c \<in> others" "h c = Some x" "here < x" for here c x
  proof -
    have c: "c \<in> set os" using f(2) that(1) e(2) by simp
    then obtain b n where n: "best_known h os None = Some (b, n)"
      using best_known_facts(1) [of h os None] e(3) by (cases "best_known h os None") auto
    then have "x \<le> b" using best_known_facts(2) [OF n] c e(3) by blast
    then show ?thesis using n e(1,4) c unfolding ch by auto
  qed
  show ?thesis using a b by blast
qed

section \<open>Rotation\<close>

lemma rotation_order_split:
  assumes "i < length xs"
  shows "rotation_order i xs = map itoa (drop (Suc i) xs @ take i xs)"
proof (rule nth_equalityI)
  show "length (rotation_order i xs) = length (map itoa (drop (Suc i) xs @ take i xs))" using assms by (simp add: rotation_order_def)
  fix k assume "k < length (rotation_order i xs)"
  then have k: "Suc k < length xs" by (simp add: rotation_order_def)
  have "(i + Suc k) mod length xs = (if i + Suc k < length xs then i + Suc k else i + Suc k - length xs)"
    using k assms by (cases "i + Suc k < length xs") (simp_all add: le_mod_geq)
  then show "rotation_order i xs ! k = map itoa (drop (Suc i) xs @ take i xs) ! k"
    using k assms by (auto simp: rotation_order_def nth_append not_less add.commute [of k])
qed

lemma account_switchable_idle:
  assumes "w_roster w = Some d" "faults w = []" "\<not> disabled_from_data (Some d) c" "account_is_switchable c w = (ok, w1)"
  shows "ok = eligible d w c"
proof -
  have "rotation_eligible (Some d) c w = (ok, w1)" using assms(3,4) by (simp add: rotation_eligible_def)
  then show ?thesis using rotation_eligible_facts(2) [OF assms(1,2), of c] by simp
qed

lemma next_slot_idle:
  "w_roster w = Some d \<Longrightarrow> faults w = [] \<Longrightarrow>
   fst (fst (next_slot d limit cs w)) = find (\<lambda>c. eligible d w c \<and> \<not> (\<exists>x. limit c = Some x \<and> x \<le> 0)) cs"
proof (induction cs arbitrary: w)
  case (Cons c cs)
  show ?case
  proof (cases "disabled_from_data (Some d) c")
    case True
    then show ?thesis using Cons by (simp add: case_prod_unfold Let_def eligible_def)
  next
    case False
    obtain ok w1 where o: "account_is_switchable c w = (ok, w1)" by fastforce
    have t: "touches {} w w1" by (rule touches_result [OF o]) (intro frames; simp)
    have w1: "w_roster w1 = Some d" "faults w1 = []"
      using touches_same [OF t, of RSeq] Cons.prems touches_idle [OF t] by (simp_all add: w_roster_def)
    have ok: "ok = eligible d w c" by (rule account_switchable_idle [OF Cons.prems False o])
    have "eligible d w1 = eligible d w" by (rule ext) (rule eligible_touches [OF t])
    then show ?thesis using Cons.IH [OF w1] False o ok by (auto simp: case_prod_unfold Let_def split: option.split)
  qed
qed simp

text \<open>
  Rotation takes the next account in the order of the roster. Starting after slot \<open>i\<close> and going
  round once, it takes the first slot that is enabled, backed up and, with usage awareness, not known to be at
  its limit; the starting slot itself is never a candidate.
\<close>

theorem rotation_takes_next:
  assumes "w_roster w = Some d" "faults w = []" "i < length (seq_nums d)"
  shows "fst (fst (next_slot d limit (rotation_order i (seq_nums d)) w))
     = find (\<lambda>c. eligible d w c \<and> \<not> (\<exists>x. limit c = Some x \<and> x \<le> 0))
            (map itoa (drop (Suc i) (seq_nums d) @ take i (seq_nums d)))"
  using next_slot_idle [OF assms(1,2)] rotation_order_split [OF assms(3)] by simp

definition full_usage :: "rat \<Rightarrow> decision" where
  "full_usage pct = DUsage [(''five_hour'', JObj [(''pct'', JNum pct)])]"

lemma best_improves_witness:
  "fst (select_best_switchable ''1'' [] [(''1'', full_usage 80), (''2'', full_usage 30)] (sample_login [])) = Target ''2''
   \<and> (\<exists>there. headroom_of (full_usage 30) [] = Some there \<and> 20 < there)"
proof -
  let ?u = "[(''1'', full_usage 80), (''2'', full_usage 30)]"
  have r: "w_roster (sample_login []) = Some sample_pair" by code_simp
  have t: "fst (select_best_switchable ''1'' [] ?u (sample_login [])) = Target ''2''" by code_simp
  have "usage_value ?u ''1'' = full_usage 80" "usage_value ?u ''2'' = full_usage 30" "headroom_of (full_usage 80) [] = Some 20"
    by code_simp+
  then show ?thesis using best_improves [OF r, where usage = ?u and models = "[]" and current = "''1''"] t by auto
qed

lemma rotation_takes_next_witness:
  "fst (fst (next_slot sample_pair (\<lambda>_. None) (rotation_order 0 (seq_nums sample_pair)) (sample_login []))) = Some ''2''"
proof -
  have "w_roster (sample_login []) = Some sample_pair" "faults (sample_login []) = []" "0 < length (seq_nums sample_pair)"
    "find (\<lambda>c. eligible sample_pair (sample_login []) c \<and> \<not> (\<exists>x. (None :: rat option) = Some x \<and> x \<le> 0))
       (map itoa (drop (Suc 0) (seq_nums sample_pair) @ take 0 (seq_nums sample_pair))) = Some ''2''"
    by (code_simp, code_simp, code_simp, simp, code_simp)
  with rotation_takes_next [of "sample_login []" sample_pair 0 "\<lambda>_. None"] show ?thesis by simp
qed

end
