(* ===== verification/Settings.thy ===== *)
theory Settings
  imports CredStore
begin

text \<open>
  internal/settings/settings.go: the policy of the automatic switcher as settings.json holds it. Reading is
  forgiving (every value is clamped into its range), changing one key is strict. A value is a \<open>json\<close>; Go's
  \<open>int\<close> and \<open>float64\<close> are both numbers. The wrapper that keeps a trailing \<open>.0\<close> changes the text of a number only.
\<close>

section \<open>The policy and its keys\<close>

record auto_settings =
  as_threshold :: rat
  as_interval :: rat
  as_cooldown :: rat
  as_hysteresis :: rat
  as_strategy :: string
  as_api_keys :: bool
  as_unhealthy :: int
  as_model :: "string option"

definition default_settings :: auto_settings where
  "default_settings = \<lparr>as_threshold = 90, as_interval = 60, as_cooldown = 300, as_hysteresis = 10,
     as_strategy = ''best'', as_api_keys = False, as_unhealthy = 3, as_model = None\<rparr>"

datatype setting_kind = KindFloat | KindInt | KindBool | KindChoice | KindString

record setting_spec =
  sp_section :: string
  sp_key :: string
  sp_field :: string
  sp_kind :: setting_kind
  sp_lo :: rat
  sp_hi :: rat
  sp_choices :: "string list"
  sp_default :: json

definition number_spec :: "string \<Rightarrow> string \<Rightarrow> setting_kind \<Rightarrow> rat \<Rightarrow> rat \<Rightarrow> rat \<Rightarrow> setting_spec" where
  "number_spec key field k lo hi dflt =
     \<lparr>sp_section = ''autoswitch'', sp_key = key, sp_field = field, sp_kind = k, sp_lo = lo, sp_hi = hi,
      sp_choices = [], sp_default = JNum dflt\<rparr>"

definition other_spec :: "string \<Rightarrow> string \<Rightarrow> setting_kind \<Rightarrow> string list \<Rightarrow> json \<Rightarrow> setting_spec" where
  "other_spec key field k choices dflt =
     \<lparr>sp_section = ''autoswitch'', sp_key = key, sp_field = field, sp_kind = k, sp_lo = 0, sp_hi = 0,
      sp_choices = choices, sp_default = dflt\<rparr>"

definition threshold_spec :: setting_spec where
  "threshold_spec = number_spec ''threshold'' ''Threshold'' KindFloat 50 (999 / 10) 90"

definition interval_spec :: setting_spec where
  "interval_spec = number_spec ''intervalSeconds'' ''IntervalSeconds'' KindFloat 15 3600 60"

definition cooldown_spec :: setting_spec where
  "cooldown_spec = number_spec ''cooldownSeconds'' ''CooldownSeconds'' KindFloat 0 86400 300"

definition hysteresis_spec :: setting_spec where
  "hysteresis_spec = number_spec ''hysteresisPct'' ''HysteresisPct'' KindFloat 0 50 10"

definition strategy_spec :: setting_spec where
  "strategy_spec = other_spec ''strategy'' ''Strategy'' KindChoice [''best'', ''soonest-reset''] (JStr ''best'')"

definition api_keys_spec :: setting_spec where
  "api_keys_spec = other_spec ''includeApiKeyAccounts'' ''IncludeAPIKeyAccounts'' KindBool [] (JBool False)"

definition unhealthy_spec :: setting_spec where
  "unhealthy_spec = number_spec ''unhealthyTicks'' ''UnhealthyTicks'' KindInt 1 100 3"

definition model_spec :: setting_spec where
  "model_spec = other_spec ''model'' ''Model'' KindString [] JNull"

definition setting_specs :: "setting_spec list" where
  "setting_specs =
     [threshold_spec, interval_spec, cooldown_spec, hysteresis_spec, strategy_spec, api_keys_spec, unhealthy_spec, model_spec]"

definition dotted_key :: "setting_spec \<Rightarrow> string" where
  "dotted_key s = sp_section s @ ''.'' @ sp_key s"

definition spec_for :: "string \<Rightarrow> go_err + setting_spec" where
  "spec_for dotted =
     (case filter (\<lambda>s. dotted_key s = dotted) setting_specs of
        [] \<Rightarrow> Inl (Err KindConfig ''unknown setting'') | s # _ \<Rightarrow> Inr s)"

section \<open>Clamping\<close>

definition go_trunc :: "rat \<Rightarrow> int" where
  "go_trunc r = (if 0 \<le> r then \<lfloor>r\<rfloor> else \<lceil>r\<rceil>)"

fun setting_truthy :: "json \<Rightarrow> bool" where
  "setting_truthy JNull = False"
| "setting_truthy (JBool b) = b"
| "setting_truthy (JNum r) = (r \<noteq> 0)"
| "setting_truthy (JStr s) = (s \<noteq> [])"
| "setting_truthy (JArr xs) = (xs \<noteq> [])"
| "setting_truthy (JObj kvs) = (kvs \<noteq> [])"

definition clamp_value :: "setting_spec \<Rightarrow> json \<Rightarrow> json" where
  "clamp_value s v =
     (case sp_kind s of
        KindFloat \<Rightarrow> (case as_num v of None \<Rightarrow> sp_default s | Some f \<Rightarrow> JNum (min (max f (sp_lo s)) (sp_hi s)))
      | KindInt \<Rightarrow> (case as_num v of None \<Rightarrow> sp_default s | Some f \<Rightarrow> JNum (of_int (go_trunc (min (max f (sp_lo s)) (sp_hi s)))))
      | KindBool \<Rightarrow> JBool (setting_truthy v)
      | KindString \<Rightarrow> (case as_str v of None \<Rightarrow> sp_default s | Some t \<Rightarrow> if t \<noteq> [] then JStr t else sp_default s)
      | KindChoice \<Rightarrow> (case as_str v of None \<Rightarrow> sp_default s | Some t \<Rightarrow> if t \<in> set (sp_choices s) then JStr t else sp_default s))"

text \<open>
  \<open>applyField\<close>. The type assertions of the code do not fail on what \<open>clampValue\<close> returns; here they fall back
  to the zero value.
\<close>

definition num_or_zero :: "json \<Rightarrow> rat" where
  "num_or_zero v = (case as_num v of None \<Rightarrow> 0 | Some r \<Rightarrow> r)"

definition apply_field :: "string \<Rightarrow> json \<Rightarrow> auto_settings \<Rightarrow> auto_settings" where
  "apply_field field v out =
     (if field = ''Threshold'' then out\<lparr>as_threshold := num_or_zero v\<rparr>
      else if field = ''IntervalSeconds'' then out\<lparr>as_interval := num_or_zero v\<rparr>
      else if field = ''CooldownSeconds'' then out\<lparr>as_cooldown := num_or_zero v\<rparr>
      else if field = ''HysteresisPct'' then out\<lparr>as_hysteresis := num_or_zero v\<rparr>
      else if field = ''Strategy'' then out\<lparr>as_strategy := (case as_str v of None \<Rightarrow> [] | Some s \<Rightarrow> s)\<rparr>
      else if field = ''IncludeAPIKeyAccounts'' then out\<lparr>as_api_keys := (v = JBool True)\<rparr>
      else if field = ''UnhealthyTicks'' then out\<lparr>as_unhealthy := go_trunc (num_or_zero v)\<rparr>
      else if field = ''Model'' then out\<lparr>as_model := as_str v\<rparr>
      else out)"

definition zero_settings :: auto_settings where
  "zero_settings = \<lparr>as_threshold = 0, as_interval = 0, as_cooldown = 0, as_hysteresis = 0, as_strategy = [],
     as_api_keys = False, as_unhealthy = 0, as_model = None\<rparr>"

definition field_or_default :: "json gomap \<Rightarrow> setting_spec \<Rightarrow> json" where
  "field_or_default fs s = (case map_of fs (sp_field s) of None \<Rightarrow> sp_default s | Some v \<Rightarrow> v)"

definition clamp_settings :: "json gomap \<Rightarrow> auto_settings" where
  "clamp_settings fs =
     foldl (\<lambda>out s. apply_field (sp_field s) (clamp_value s (field_or_default fs s)) out) zero_settings setting_specs"

definition fields_of :: "auto_settings \<Rightarrow> json gomap" where
  "fields_of s =
     [(''Threshold'', JNum (as_threshold s)), (''IntervalSeconds'', JNum (as_interval s)),
      (''CooldownSeconds'', JNum (as_cooldown s)), (''HysteresisPct'', JNum (as_hysteresis s)),
      (''Strategy'', JStr (as_strategy s)), (''IncludeAPIKeyAccounts'', JBool (as_api_keys s)),
      (''UnhealthyTicks'', JNum (of_int (as_unhealthy s))),
      (''Model'', case as_model s of None \<Rightarrow> JNull | Some m \<Rightarrow> JStr m)]"

section \<open>Reading\<close>

definition decode_settings :: "jtext \<Rightarrow> json gomap" where
  "decode_settings t = (case t of TRaw _ \<Rightarrow> [] | TJson v \<Rightarrow> (case as_map v of None \<Rightarrow> [] | Some m \<Rightarrow> m))"

definition read_raw :: "world \<Rightarrow> json gomap \<times> world" where
  "read_raw w =
     (case settings_file w of
        None \<Rightarrow> ([], w)
      | Some t \<Rightarrow> (case os_call (\<lambda>w. w) w of (Some _, w) \<Rightarrow> ([], w) | (None, w) \<Rightarrow> (decode_settings t, w)))"

definition read_raw_for_write :: "world \<Rightarrow> (go_err + json gomap) \<times> world" where
  "read_raw_for_write w =
     (case settings_file w of
        None \<Rightarrow> (Inr [], w)
      | Some t \<Rightarrow>
          (case os_call (\<lambda>w. w) w of
             (Some _, w) \<Rightarrow> (Inl (Err KindConfig ''could not read''), w)
           | (None, w) \<Rightarrow>
               (case t of
                  TRaw _ \<Rightarrow> (Inl (Err KindConfig ''settings.json is not valid JSON''), w)
                | TJson v \<Rightarrow>
                    (case as_map v of
                       None \<Rightarrow> (Inl (Err KindConfig ''settings.json is not a JSON object''), w)
                     | Some m \<Rightarrow> (Inr m, w)))))"

definition fields_of_section :: "json gomap \<Rightarrow> json gomap" where
  "fields_of_section section =
     List.map_filter (\<lambda>s. map_option (Pair (sp_field s)) (map_of section (sp_key s))) setting_specs"

definition settings_of_raw :: "json gomap \<Rightarrow> auto_settings" where
  "settings_of_raw raw =
     (case as_map (mget raw ''autoswitch'') of
        None \<Rightarrow> default_settings | Some section \<Rightarrow> clamp_settings (fields_of_section section))"

definition load_settings :: "world \<Rightarrow> auto_settings \<times> world" where
  "load_settings w = (let (raw, w) = read_raw w in (settings_of_raw raw, w))"

definition is_set :: "json gomap \<Rightarrow> setting_spec \<Rightarrow> bool" where
  "is_set raw s = (case as_map (mget raw (sp_section s)) of None \<Rightarrow> False | Some section \<Rightarrow> map_of section (sp_key s) \<noteq> None)"

definition effective_settings :: "world \<Rightarrow> (setting_spec \<times> json \<times> bool) list \<times> world" where
  "effective_settings w =
     (let (raw, w) = read_raw w; (loaded, w) = load_settings w
      in (map (\<lambda>s. (s, mget (fields_of loaded) (sp_field s), is_set raw s)) setting_specs, w))"

section \<open>Numbers on the command line\<close>

text \<open>
  \<open>strconv.ParseFloat\<close>: decimal and hexadecimal literals, underscores between digits, the special values.
  Rounding to \<open>float64\<close> is left out, its overflow is not.
\<close>

datatype go_float = Fin rat | Infinite bool | NaN

definition hex_digit :: "char \<Rightarrow> int option" where
  "hex_digit c =
     (if is_digit c then Some (digit_val c)
      else if CHR ''a'' \<le> lower_char c \<and> lower_char c \<le> CHR ''f'' then Some (int (of_char (lower_char c)) - 87) else None)"

definition base_digit :: "bool \<Rightarrow> char \<Rightarrow> int option" where
  "base_digit hex c = (if hex then hex_digit c else if is_digit c then Some (digit_val c) else None)"

definition base_prefix :: "string \<Rightarrow> bool" where
  "base_prefix s = (case s of a # b # _ \<Rightarrow> a = CHR ''0'' \<and> lower_char b = CHR ''x'' | _ \<Rightarrow> False)"

definition split_sign :: "string \<Rightarrow> bool \<times> string" where
  "split_sign s =
     (case s of [] \<Rightarrow> (False, []) | c # t \<Rightarrow> if c = CHR ''-'' then (True, t) else if c = CHR ''+'' then (False, t) else (False, s))"

fun underscores_ok :: "bool \<Rightarrow> bool \<Rightarrow> string \<Rightarrow> bool" where
  "underscores_ok hex after_digit [] = True"
| "underscores_ok hex after_digit (c # cs) =
     (if c = CHR ''_'' then after_digit \<and> cs \<noteq> [] \<and> base_digit hex (hd cs) \<noteq> None \<and> underscores_ok hex False cs
      else underscores_ok hex (base_digit hex c \<noteq> None) cs)"

definition base_val :: "bool \<Rightarrow> string \<Rightarrow> int" where
  "base_val hex s = foldl (\<lambda>n c. n * (if hex then 16 else 10) + the (base_digit hex c)) 0 s"

definition scale :: "rat \<Rightarrow> int \<Rightarrow> rat" where
  "scale b e = (if 0 \<le> e then b ^ nat e else 1 / b ^ nat (- e))"

definition parse_exponent :: "bool \<Rightarrow> string \<Rightarrow> int option" where
  "parse_exponent hex s =
     (case s of
        [] \<Rightarrow> if hex then None else Some 0
      | c # t \<Rightarrow>
          if lower_char c \<noteq> (if hex then CHR ''p'' else CHR ''e'') then None
          else (let (neg, ds) = split_sign t in if is_digits ds then Some (if neg then - dec_val ds else dec_val ds) else None))"

definition parse_finite :: "string \<Rightarrow> rat option" where
  "parse_finite s =
     (let (neg, body) = split_sign s; hex = base_prefix body;
          ok = underscores_ok hex hex (if hex then drop 2 body else body);
          t = filter (\<lambda>c. c \<noteq> CHR ''_'') (if hex then drop 2 body else body);
          digit = (\<lambda>c. base_digit hex c \<noteq> None);
          whole = takeWhile digit t; t = dropWhile digit t;
          (frac, t) = (case t of [] \<Rightarrow> ([], []) | c # u \<Rightarrow> if c = CHR ''.'' then (takeWhile digit u, dropWhile digit u) else ([], t))
      in if \<not> ok \<or> whole @ frac = [] then None
         else (case parse_exponent hex t of
                 None \<Rightarrow> None
               | Some e \<Rightarrow>
                   (let m = rat_of_int (base_val hex (whole @ frac)); k = int (length frac);
                        v = (if hex then m * scale 2 (e - 4 * k) else m * scale 10 (e - k))
                    in if 2 ^ 1024 - 2 ^ 970 \<le> v then None else Some (if neg then - v else v))))"

definition parse_float :: "string \<Rightarrow> go_float option" where
  "parse_float s =
     (let (neg, body) = split_sign s
      in if go_lower s = ''nan'' then Some NaN
         else if go_lower body = ''inf'' \<or> go_lower body = ''infinity'' then Some (Infinite neg)
         else map_option Fin (parse_finite s))"

section \<open>Changing one key\<close>

text \<open>A parsed value; \<open>NaN\<close> passes every check but has no JSON form.\<close>

datatype setting_value = Value json | NotANumber

definition out_of_range :: go_err where
  "out_of_range = Err KindConfig ''value out of range''"

definition in_range :: "setting_spec \<Rightarrow> rat \<Rightarrow> bool" where
  "in_range s f \<longleftrightarrow> sp_lo s \<le> f \<and> f \<le> sp_hi s"

definition parse_setting_value :: "setting_spec \<Rightarrow> string \<Rightarrow> go_err + setting_value" where
  "parse_setting_value s raw =
     (case sp_kind s of
        KindBool \<Rightarrow>
          (let key = go_lower (trim_space raw)
           in if key \<in> {''true'', ''1'', ''yes''} then Inr (Value (JBool True))
              else if key \<in> {''false'', ''0'', ''no''} then Inr (Value (JBool False))
              else Inl (Err KindConfig ''expects true or false''))
      | KindChoice \<Rightarrow> if raw \<in> set (sp_choices s) then Inr (Value (JStr raw)) else Inl (Err KindConfig ''must be one of'')
      | KindString \<Rightarrow>
          (let v = trim_space raw in if v = [] then Inl (Err KindConfig ''expects a non-empty value'') else Inr (Value (JStr v)))
      | KindInt \<Rightarrow>
          (case atoi raw of
             None \<Rightarrow> Inl (Err KindConfig ''expects an integer'')
           | Some n \<Rightarrow> if in_range s (of_int n) then Inr (Value (JNum (of_int n))) else Inl out_of_range)
      | KindFloat \<Rightarrow>
          (case parse_float raw of
             None \<Rightarrow> Inl (Err KindConfig ''expects a number'')
           | Some (Fin f) \<Rightarrow> if in_range s f then Inr (Value (JNum f)) else Inl out_of_range
           | Some (Infinite _) \<Rightarrow> Inl out_of_range
           | Some NaN \<Rightarrow> Inr NotANumber))"

definition write_settings :: "json gomap \<Rightarrow> world \<Rightarrow> go_err option \<times> world" where
  "write_settings m = os_atomic (\<lambda>w. w\<lparr>settings_file := Some (TJson (JObj m))\<rparr>)"

definition stamp_schema :: "json gomap \<Rightarrow> json gomap" where
  "stamp_schema m = (if map_of m ''schemaVersion'' = None then gm_put ''schemaVersion'' (JNum 1) m else m)"

definition section_map :: "json gomap \<Rightarrow> string \<Rightarrow> json gomap" where
  "section_map m name = (case as_map (mget m name) of None \<Rightarrow> [] | Some section \<Rightarrow> section)"

text \<open>A document with a \<open>NaN\<close> in it cannot be marshalled; nothing is written then.\<close>

definition set_setting :: "string \<Rightarrow> string \<Rightarrow> world \<Rightarrow> (go_err + json) \<times> world" where
  "set_setting dotted raw w =
     (case spec_for dotted of
        Inl e \<Rightarrow> (Inl e, w)
      | Inr s \<Rightarrow>
          (case parse_setting_value s raw of
             Inl e \<Rightarrow> (Inl e, w)
           | Inr pv \<Rightarrow>
               (case read_raw_for_write w of
                  (Inl e, w) \<Rightarrow> (Inl e, w)
                | (Inr m, w) \<Rightarrow>
                    (case pv of
                       NotANumber \<Rightarrow> (Inl OsErr, w)
                     | Value v \<Rightarrow>
                         (let m = stamp_schema m;
                              m = gm_put (sp_section s) (JObj (gm_put (sp_key s) v (section_map m (sp_section s)))) m
                          in (case write_settings m w of (Some e, w) \<Rightarrow> (Inl e, w) | (None, w) \<Rightarrow> (Inr v, w)))))))"

definition unset_setting :: "string \<Rightarrow> world \<Rightarrow> (go_err + bool) \<times> world" where
  "unset_setting dotted w =
     (case spec_for dotted of
        Inl e \<Rightarrow> (Inl e, w)
      | Inr s \<Rightarrow>
          (case read_raw_for_write w of
             (Inl e, w) \<Rightarrow> (Inl e, w)
           | (Inr m, w) \<Rightarrow>
               (case as_map (mget m (sp_section s)) of
                  None \<Rightarrow> (Inr False, w)
                | Some section \<Rightarrow>
                    if map_of section (sp_key s) = None then (Inr False, w)
                    else (let m = stamp_schema m; section = gm_del (sp_key s) section;
                              m = (if section = [] then gm_del (sp_section s) m else gm_put (sp_section s) (JObj section) m)
                          in (case write_settings m w of (Some e, w) \<Rightarrow> (Inl e, w) | (None, w) \<Rightarrow> (Inr True, w))))))"

text \<open>\<open>Save\<close> writes every key.\<close>

definition save_settings :: "auto_settings \<Rightarrow> world \<Rightarrow> go_err option \<times> world" where
  "save_settings st w =
     (let (raw, w) = read_raw w; raw = stamp_schema raw;
          section = foldl (\<lambda>sec s. gm_put (sp_key s) (mget (fields_of st) (sp_field s)) sec) (section_map raw ''autoswitch'') setting_specs
      in write_settings (gm_put ''autoswitch'' (JObj section) raw) w)"

section \<open>Overrides from the command line\<close>

record cli_overrides =
  ov_threshold :: "rat option"
  ov_interval :: "rat option"
  ov_cooldown :: "rat option"
  ov_api_keys :: "bool option"
  ov_model :: "string option"

definition put_override :: "string \<Rightarrow> json option \<Rightarrow> json gomap \<Rightarrow> json gomap" where
  "put_override field v fs = (case v of None \<Rightarrow> fs | Some v \<Rightarrow> gm_put field v fs)"

definition no_overrides :: "cli_overrides \<Rightarrow> bool" where
  "no_overrides ov \<longleftrightarrow> ov_threshold ov = None \<and> ov_interval ov = None \<and> ov_cooldown ov = None \<and> ov_api_keys ov = None \<and> ov_model ov = None"

definition merged_with_cli :: "auto_settings \<Rightarrow> cli_overrides \<Rightarrow> auto_settings" where
  "merged_with_cli s ov =
     (if no_overrides ov then s
      else clamp_settings
        (put_override ''Model'' (map_option JStr (ov_model ov))
          (put_override ''IncludeAPIKeyAccounts'' (map_option JBool (ov_api_keys ov))
            (put_override ''CooldownSeconds'' (map_option JNum (ov_cooldown ov))
              (put_override ''IntervalSeconds'' (map_option JNum (ov_interval ov))
                (put_override ''Threshold'' (map_option JNum (ov_threshold ov)) (fields_of s)))))))"

text \<open>\<open>ParseModelNames\<close>\<close>

fun split_on :: "char \<Rightarrow> string \<Rightarrow> string list" where
  "split_on sep [] = [[]]"
| "split_on sep (c # cs) =
     (if c = sep then [] # split_on sep cs else (case split_on sep cs of [] \<Rightarrow> [[c]] | p # ps \<Rightarrow> (c # p) # ps))"

fun dedupe_names :: "string set \<Rightarrow> string list \<Rightarrow> string list" where
  "dedupe_names seen [] = []"
| "dedupe_names seen (p # ps) =
     (let n = trim_space p
      in if n = [] \<or> go_lower n \<in> seen then dedupe_names seen ps else n # dedupe_names (insert (go_lower n) seen) ps)"

definition parse_model_names :: "string option \<Rightarrow> string list" where
  "parse_model_names v = (case v of None \<Rightarrow> [] | Some s \<Rightarrow> if s = [] then [] else dedupe_names {} (split_on CHR '','' s))"

section \<open>What is loaded is valid\<close>

definition valid_settings :: "auto_settings \<Rightarrow> bool" where
  "valid_settings s \<longleftrightarrow>
     50 \<le> as_threshold s \<and> as_threshold s \<le> 999 / 10 \<and> 15 \<le> as_interval s \<and> as_interval s \<le> 3600
     \<and> 0 \<le> as_cooldown s \<and> as_cooldown s \<le> 86400 \<and> 0 \<le> as_hysteresis s \<and> as_hysteresis s \<le> 50
     \<and> as_strategy s \<in> {''best'', ''soonest-reset''} \<and> 1 \<le> as_unhealthy s \<and> as_unhealthy s \<le> 100
     \<and> as_model s \<noteq> Some []"

lemmas spec_defs = threshold_spec_def interval_spec_def cooldown_spec_def hysteresis_spec_def strategy_spec_def
  api_keys_spec_def unhealthy_spec_def model_spec_def number_spec_def other_spec_def

lemma field_names [simp]:
  "sp_field threshold_spec = ''Threshold''" "sp_field interval_spec = ''IntervalSeconds''"
  "sp_field cooldown_spec = ''CooldownSeconds''" "sp_field hysteresis_spec = ''HysteresisPct''"
  "sp_field strategy_spec = ''Strategy''" "sp_field api_keys_spec = ''IncludeAPIKeyAccounts''"
  "sp_field unhealthy_spec = ''UnhealthyTicks''" "sp_field model_spec = ''Model''"
  by (simp_all add: spec_defs)

lemma key_names [simp]:
  "sp_key threshold_spec = ''threshold''" "sp_key interval_spec = ''intervalSeconds''"
  "sp_key cooldown_spec = ''cooldownSeconds''" "sp_key hysteresis_spec = ''hysteresisPct''"
  "sp_key strategy_spec = ''strategy''" "sp_key api_keys_spec = ''includeApiKeyAccounts''"
  "sp_key unhealthy_spec = ''unhealthyTicks''" "sp_key model_spec = ''model''"
  by (simp_all add: spec_defs)

lemma spec_section: "s \<in> set setting_specs \<Longrightarrow> sp_section s = ''autoswitch''"
  by (auto simp: setting_specs_def spec_defs)

text \<open>The clamped value of one key.\<close>

definition clamped :: "json gomap \<Rightarrow> setting_spec \<Rightarrow> json" where
  "clamped fs s = clamp_value s (field_or_default fs s)"

lemma clamp_settings_fields:
  "clamp_settings fs =
     \<lparr>as_threshold = num_or_zero (clamped fs threshold_spec), as_interval = num_or_zero (clamped fs interval_spec),
      as_cooldown = num_or_zero (clamped fs cooldown_spec), as_hysteresis = num_or_zero (clamped fs hysteresis_spec),
      as_strategy = (case as_str (clamped fs strategy_spec) of None \<Rightarrow> [] | Some s \<Rightarrow> s),
      as_api_keys = (clamped fs api_keys_spec = JBool True), as_unhealthy = go_trunc (num_or_zero (clamped fs unhealthy_spec)),
      as_model = as_str (clamped fs model_spec)\<rparr>"
  by (simp add: clamp_settings_def setting_specs_def clamped_def [symmetric] apply_field_def zero_settings_def)

lemma clamped_numbers:
  "\<exists>r. clamped fs threshold_spec = JNum r \<and> 50 \<le> r \<and> r \<le> 999 / 10"
  "\<exists>r. clamped fs interval_spec = JNum r \<and> 15 \<le> r \<and> r \<le> 3600"
  "\<exists>r. clamped fs cooldown_spec = JNum r \<and> 0 \<le> r \<and> r \<le> 86400"
  "\<exists>r. clamped fs hysteresis_spec = JNum r \<and> 0 \<le> r \<and> r \<le> 50"
  by (auto simp: clamped_def clamp_value_def spec_defs split: option.split)

lemma trunc_of_int [simp]: "go_trunc (of_int n) = n"
  by (simp add: go_trunc_def)

lemma clamped_int: "\<exists>n. clamped fs unhealthy_spec = JNum (of_int n) \<and> 1 \<le> n \<and> n \<le> 100"
proof (cases "as_num (field_or_default fs unhealthy_spec)")
  case None
  then show ?thesis by (intro exI [of _ 3]) (simp add: clamped_def clamp_value_def unhealthy_spec_def number_spec_def)
next
  case (Some r)
  let ?r = "min (max r 1) 100"
  have "1 \<le> go_trunc ?r" "go_trunc ?r \<le> 100" by (auto simp: go_trunc_def le_floor_iff floor_le_iff min_def max_def)
  then show ?thesis using Some
    by (intro exI [of _ "go_trunc ?r"]) (simp add: clamped_def clamp_value_def unhealthy_spec_def number_spec_def)
qed

lemma clamped_words:
  "\<exists>t. clamped fs strategy_spec = JStr t \<and> t \<in> {''best'', ''soonest-reset''}"
  "\<exists>b. clamped fs api_keys_spec = JBool b"
  "clamped fs model_spec = JNull \<or> (\<exists>t. clamped fs model_spec = JStr t \<and> t \<noteq> [])"
  by (auto simp: clamped_def clamp_value_def strategy_spec_def api_keys_spec_def model_spec_def other_spec_def split: option.split)

lemma valid_clamp: "valid_settings (clamp_settings fs)"
  using clamped_numbers [of fs] clamped_int [of fs] clamped_words [of fs]
  by (auto simp: valid_settings_def clamp_settings_fields num_or_zero_def)

lemma fields_of_at [simp]:
  "mget (fields_of st) ''Threshold'' = JNum (as_threshold st)"
  "mget (fields_of st) ''IntervalSeconds'' = JNum (as_interval st)"
  "mget (fields_of st) ''CooldownSeconds'' = JNum (as_cooldown st)"
  "mget (fields_of st) ''HysteresisPct'' = JNum (as_hysteresis st)"
  "mget (fields_of st) ''Strategy'' = JStr (as_strategy st)"
  "mget (fields_of st) ''IncludeAPIKeyAccounts'' = JBool (as_api_keys st)"
  "mget (fields_of st) ''UnhealthyTicks'' = JNum (of_int (as_unhealthy st))"
  "mget (fields_of st) ''Model'' = (case as_model st of None \<Rightarrow> JNull | Some m \<Rightarrow> JStr m)"
  by (simp_all add: fields_of_def mget_def)

lemma fields_of_clamp:
  assumes "s \<in> set setting_specs"
  shows "mget (fields_of (clamp_settings fs)) (sp_field s) = clamped fs s"
proof -
  obtain t i c h where n: "clamped fs threshold_spec = JNum t" "clamped fs interval_spec = JNum i"
      "clamped fs cooldown_spec = JNum c" "clamped fs hysteresis_spec = JNum h"
    using clamped_numbers [of fs] by blast
  obtain u where u: "clamped fs unhealthy_spec = JNum (of_int u)" using clamped_int by blast
  obtain g b where w: "clamped fs strategy_spec = JStr g" "clamped fs api_keys_spec = JBool b"
    using clamped_words [of fs] by blast
  have m: "(case as_str (clamped fs model_spec) of None \<Rightarrow> JNull | Some m \<Rightarrow> JStr m) = clamped fs model_spec"
    using clamped_words(3) [of fs] by auto
  have "fields_of (clamp_settings fs) =
      [(''Threshold'', JNum t), (''IntervalSeconds'', JNum i), (''CooldownSeconds'', JNum c), (''HysteresisPct'', JNum h),
       (''Strategy'', JStr g), (''IncludeAPIKeyAccounts'', JBool b), (''UnhealthyTicks'', JNum (of_int u)),
       (''Model'', clamped fs model_spec)]"
    by (simp add: clamp_settings_fields n u w m fields_of_def num_or_zero_def)
  then show ?thesis using assms by (auto simp: setting_specs_def mget_def n u w)
qed

lemma field_of_fields: "s \<in> set setting_specs \<Longrightarrow> field_or_default (fields_of st) s = mget (fields_of st) (sp_field s)"
  by (auto simp: setting_specs_def field_or_default_def fields_of_def mget_def)

lemma clamped_valid:
  assumes "valid_settings st" "s \<in> set setting_specs"
  shows "clamped (fields_of st) s = mget (fields_of st) (sp_field s)"
proof -
  have "clamp_value s (mget (fields_of st) (sp_field s)) = mget (fields_of st) (sp_field s)"
    if "s = threshold_spec \<or> s = interval_spec \<or> s = cooldown_spec \<or> s = hysteresis_spec"
    using that assms(1) by (elim disjE) (simp_all add: clamp_value_def valid_settings_def, simp_all add: spec_defs)
  moreover have "clamp_value s (mget (fields_of st) (sp_field s)) = mget (fields_of st) (sp_field s)"
    if "s = strategy_spec \<or> s = api_keys_spec \<or> s = unhealthy_spec \<or> s = model_spec"
    using that assms(1) by (elim disjE) (auto simp: clamp_value_def valid_settings_def spec_defs split: option.split)
  ultimately show ?thesis using assms(2) field_of_fields [OF assms(2)] by (auto simp: setting_specs_def clamped_def)
qed

lemma clamp_fields_of: "valid_settings st \<Longrightarrow> clamp_settings (fields_of st) = st"
proof -
  assume v: "valid_settings st"
  then have "clamped (fields_of st) s = mget (fields_of st) (sp_field s)" if "s \<in> set setting_specs" for s
    using clamped_valid that by blast
  then show ?thesis
    by (cases st) (auto simp: clamp_settings_fields setting_specs_def num_or_zero_def split: option.split)
qed

section \<open>The file as a map\<close>

text \<open>
  The abstract state: the values the file gives to the keys of its section, and the other members of the
  document. The policy depends on the former only.
\<close>

definition raw_of :: "world \<Rightarrow> json gomap" where
  "raw_of w = (case settings_file w of None \<Rightarrow> [] | Some t \<Rightarrow> decode_settings t)"

definition explicit :: "world \<Rightarrow> string \<rightharpoonup> json" where
  "explicit w = map_of (section_map (raw_of w) ''autoswitch'')"

definition policy :: "(string \<rightharpoonup> json) \<Rightarrow> auto_settings" where
  "policy m = clamp_settings (List.map_filter (\<lambda>s. map_option (Pair (sp_field s)) (m (sp_key s))) setting_specs)"

definition unrelated :: "world \<Rightarrow> string \<Rightarrow> json" where
  "unrelated w name = (if name \<in> {''autoswitch'', ''schemaVersion''} then JNull else mget (raw_of w) name)"

lemma default_policy: "default_settings = policy (\<lambda>_. None)"
  by (simp add: policy_def setting_specs_def List.map_filter_simps clamp_settings_fields clamped_def field_or_default_def
      default_settings_def clamp_value_def spec_defs num_or_zero_def go_trunc_def)

lemma settings_of_raw_policy: "settings_of_raw raw = policy (map_of (section_map raw ''autoswitch''))"
proof (cases "as_map (mget raw ''autoswitch'')")
  case None
  then have "map_of (section_map raw ''autoswitch'') = (\<lambda>_. None)" by (simp add: section_map_def)
  then show ?thesis using None by (simp add: settings_of_raw_def default_policy)
qed (simp add: settings_of_raw_def section_map_def policy_def fields_of_section_def)

lemma read_raw_idle: "faults w = [] \<Longrightarrow> read_raw w = (raw_of w, w)"
  by (simp add: read_raw_def raw_of_def os_call_quiet split: option.split)

lemma load_settings_idle: "faults w = [] \<Longrightarrow> load_settings w = (policy (explicit w), w)"
  by (simp add: load_settings_def read_raw_idle settings_of_raw_policy explicit_def)

lemma distinct_decode_settings: "distinct (gm_keys (decode_settings t))"
proof -
  have "distinct (gm_keys m)" if "as_map v = Some m" for v m
    using that distinct_obj_map by (cases v) auto
  then show ?thesis by (auto simp: decode_settings_def gm_keys_def [of "[]"] split: jtext.split option.split)
qed

lemma distinct_raw_of: "distinct (gm_keys (raw_of w))"
  by (simp add: raw_of_def distinct_decode_settings gm_keys_def [of "[]"] split: option.split)

lemma distinct_section_map: "distinct (gm_keys (section_map m name))"
proof -
  have "distinct (gm_keys s)" if "as_map v = Some s" for v s
    using that distinct_obj_map by (cases v) auto
  then show ?thesis by (auto simp: section_map_def gm_keys_def [of "[]"] split: option.split)
qed

lemma section_map_put [simp]:
  "distinct (gm_keys sec) \<Longrightarrow> section_map (gm_put name (JObj sec) m) name = sec"
  by (simp add: section_map_def obj_map_id)

lemma stamp_schema_facts:
  "distinct (gm_keys m) \<Longrightarrow> distinct (gm_keys (stamp_schema m))"
  "name \<noteq> ''schemaVersion'' \<Longrightarrow> mget (stamp_schema m) name = mget m name"
  by (simp_all add: stamp_schema_def distinct_gm_put)

lemma read_raw_for_write_cases:
  assumes "read_raw_for_write w = (r, w1)"
  obtains "touches {} w w1" "settings_file w1 = settings_file w" "case r of Inr m \<Rightarrow> m = raw_of w | Inl _ \<Rightarrow> True"
proof -
  have t: "touches {} w w1"
  proof -
    have "touches {} w (snd (read_raw_for_write w))"
      unfolding read_raw_for_write_def by (intro frames; simp split: jtext.split option.split)
    then show ?thesis using assms by simp
  qed
  have "case r of Inr m \<Rightarrow> m = raw_of w | Inl _ \<Rightarrow> True"
    using assms unfolding read_raw_for_write_def raw_of_def decode_settings_def
    by (auto split: option.splits jtext.splits prod.splits)
  then show thesis using that t touches_same [OF t, of RSettings] by simp
qed

lemma write_settings_ok:
  assumes "write_settings m w = (None, w')" "distinct (gm_keys m)"
  shows "raw_of w' = m"
  using assms by (auto simp: write_settings_def raw_of_def decode_settings_def obj_map_id dest!: os_atomic_None)

lemma write_settings_err: "write_settings m w = (Some e, w') \<Longrightarrow> settings_file w' = settings_file w"
  using touches_same [OF os_atomic_Some, of _ w e w' RSettings] by (simp add: write_settings_def)

lemma spec_for_mem: "spec_for dotted = Inr s \<Longrightarrow> s \<in> set setting_specs"
  unfolding spec_for_def by (auto split: list.splits dest!: arg_cong [of _ _ set])

lemma raw_of_cong: "settings_file w' = settings_file w \<Longrightarrow> raw_of w' = raw_of w"
  by (simp add: raw_of_def)

text \<open>The document with one section replaced.\<close>

lemma section_written:
  assumes "raw_of w' = gm_put ''autoswitch'' (JObj sec) (stamp_schema (raw_of w))" "distinct (gm_keys sec)"
  shows "explicit w' = map_of sec \<and> unrelated w' = unrelated w"
  using assms by (auto simp: explicit_def unrelated_def stamp_schema_facts)

lemma set_setting_cases:
  assumes s: "spec_for dotted = Inr s" and r: "set_setting dotted raw w = (r, w')"
  shows "case r of
      Inr v \<Rightarrow> parse_setting_value s raw = Inr (Value v) \<and> explicit w' = (explicit w)(sp_key s \<mapsto> v) \<and> unrelated w' = unrelated w
    | Inl _ \<Rightarrow> settings_file w' = settings_file w"
proof -
  have sec: "sp_section s = ''autoswitch''" by (rule spec_section [OF spec_for_mem [OF s]])
  show ?thesis
  proof (cases "parse_setting_value s raw")
    case (Inr pv)
    obtain q w1 where q: "read_raw_for_write w = (q, w1)" by fastforce
    obtain f: "settings_file w1 = settings_file w" "case q of Inr m \<Rightarrow> m = raw_of w | Inl _ \<Rightarrow> True"
      by (rule read_raw_for_write_cases [OF q])
    show ?thesis
    proof (cases "\<exists>m v. q = Inr m \<and> pv = Value v")
      case False
      then show ?thesis using r s Inr q f by (auto simp: set_setting_def split: sum.splits setting_value.splits)
    next
      case True
      then obtain m v where m: "q = Inr m" "pv = Value v" by blast
      let ?sec = "gm_put (sp_key s) v (section_map m ''autoswitch'')"
      let ?doc = "gm_put ''autoswitch'' (JObj ?sec) (stamp_schema m)"
      have eq: "m = raw_of w" using f m by simp
      have sm: "section_map (stamp_schema m) ''autoswitch'' = section_map m ''autoswitch''"
        by (simp add: section_map_def stamp_schema_facts)
      obtain e where e: "write_settings ?doc w1 = (e, w')" and res: "r = (case e of None \<Rightarrow> Inr v | Some x \<Rightarrow> Inl x)"
        using r s Inr q m by (auto simp: set_setting_def sec sm Let_def split: prod.splits option.splits)
      have d: "distinct (gm_keys ?sec)" "distinct (gm_keys ?doc)"
        using distinct_gm_put [OF distinct_section_map] distinct_gm_put [OF stamp_schema_facts(1) [OF distinct_raw_of]]
        by (simp_all add: eq)
      show ?thesis
      proof (cases e)
        case None
        have "raw_of w' = gm_put ''autoswitch'' (JObj ?sec) (stamp_schema (raw_of w))"
          using write_settings_ok [OF e [unfolded None] d(2)] eq by simp
        from section_written [OF this d(1)] show ?thesis using res None Inr m eq by (simp add: explicit_def)
      next
        case (Some x)
        then show ?thesis using write_settings_err [OF e [unfolded Some]] f res by simp
      qed
    qed
  qed (use r s in \<open>auto simp: set_setting_def\<close>)
qed

lemma unset_setting_cases:
  assumes s: "spec_for dotted = Inr s" and r: "unset_setting dotted w = (r, w')"
  shows "case r of
      Inr b \<Rightarrow> b = (explicit w (sp_key s) \<noteq> None) \<and> explicit w' = (explicit w)(sp_key s := None) \<and> unrelated w' = unrelated w
    | Inl _ \<Rightarrow> settings_file w' = settings_file w"
proof -
  have sec: "sp_section s = ''autoswitch''" by (rule spec_section [OF spec_for_mem [OF s]])
  obtain q w1 where q: "read_raw_for_write w = (q, w1)" by fastforce
  obtain f: "settings_file w1 = settings_file w" "case q of Inr m \<Rightarrow> m = raw_of w | Inl _ \<Rightarrow> True"
    by (rule read_raw_for_write_cases [OF q])
  have same: "raw_of w1 = raw_of w" by (rule raw_of_cong [OF f(1)])
  show ?thesis
  proof (cases q)
    case (Inr m)
    have eq: "m = raw_of w" using f Inr by simp
    let ?old = "section_map m ''autoswitch''"
    show ?thesis
    proof (cases "map_of ?old (sp_key s)")
      case None
      have "r = Inr False" "w' = w1"
        using r s q Inr None by (auto simp: unset_setting_def sec section_map_def split: option.splits)
      moreover have "explicit w (sp_key s) = None" using None eq by (simp add: explicit_def)
      ultimately show ?thesis using same by (simp add: explicit_def unrelated_def fun_eq_iff)
    next
      case (Some old)
      let ?sec = "gm_del (sp_key s) ?old"
      let ?doc = "if ?sec = [] then gm_del ''autoswitch'' (stamp_schema m) else gm_put ''autoswitch'' (JObj ?sec) (stamp_schema m)"
      have was: "explicit w = map_of ?old" using eq by (simp add: explicit_def)
      obtain e where e: "write_settings ?doc w1 = (e, w')" and res: "r = (case e of None \<Rightarrow> Inr True | Some x \<Rightarrow> Inl x)"
        using r s q Inr Some by (auto simp: unset_setting_def sec section_map_def Let_def cong: if_cong split: prod.splits option.splits)
      have dm: "distinct (gm_keys (stamp_schema m))" using stamp_schema_facts(1) [OF distinct_raw_of] by (simp add: eq)
      have d: "distinct (gm_keys ?sec)" by (rule distinct_gm_del [OF distinct_section_map])
      have dd: "distinct (gm_keys ?doc)" using distinct_gm_put [OF dm] distinct_gm_del [OF dm] by simp
      show ?thesis
      proof (cases e)
        case None
        have w': "raw_of w' = ?doc" by (rule write_settings_ok [OF e [unfolded None] dd])
        have "explicit w' = map_of ?sec \<and> unrelated w' = unrelated w"
        proof (cases "?sec = []")
          case True
          then show ?thesis using w' eq
            by (auto simp: explicit_def unrelated_def section_map_def stamp_schema_facts fun_eq_iff)
        next
          case False
          then show ?thesis using w' eq section_written [OF _ d, of w' w] by simp
        qed
        then show ?thesis using res None was Some by simp
      next
        case (Some x)
        then show ?thesis using write_settings_err [OF e [unfolded Some]] f res by simp
      qed
    qed
  qed (use r s q f in \<open>auto simp: unset_setting_def\<close>)
qed

section \<open>Properties\<close>

lemma distinct_fields: "distinct (map sp_field setting_specs)"
  by (simp add: setting_specs_def)

lemma map_filter_fields:
  "distinct (map sp_field ss) \<Longrightarrow> s \<in> set ss \<Longrightarrow>
   map_of (List.map_filter (\<lambda>s. map_option (Pair (sp_field s)) (m (sp_key s))) ss) (sp_field s) = m (sp_key s)"
proof (induction ss)
  case (Cons a ss)
  have out: "map_of (List.map_filter (\<lambda>s. map_option (Pair (sp_field s)) (m (sp_key s))) ss) f = None"
    if "f \<notin> sp_field ` set ss" for f
    using that by (induction ss) (auto simp: List.map_filter_simps split: option.split)
  show ?case
  proof (cases "s = a")
    case True
    then show ?thesis using out [of "sp_field a"] Cons.prems(1) by (auto simp: List.map_filter_simps split: option.split)
  next
    case False
    then have "sp_field s \<noteq> sp_field a" using Cons.prems by (auto intro: rev_image_eqI)
    then show ?thesis using False Cons by (auto simp: List.map_filter_simps split: option.split)
  qed
qed simp

definition setting_at :: "(string \<rightharpoonup> json) \<Rightarrow> setting_spec \<Rightarrow> json" where
  "setting_at m s = clamp_value s (case m (sp_key s) of None \<Rightarrow> sp_default s | Some v \<Rightarrow> v)"

lemma policy_at:
  assumes "s \<in> set setting_specs"
  shows "mget (fields_of (policy m)) (sp_field s) = setting_at m s"
  by (simp add: policy_def fields_of_clamp [OF assms] clamped_def field_or_default_def setting_at_def
      map_filter_fields [OF distinct_fields assms, of m])

lemma parsed_value_kept:
  assumes "parse_setting_value s raw = Inr (Value v)" "s \<in> set setting_specs"
  shows "clamp_value s v = v"
proof -
  have "min (max f (sp_lo s)) (sp_hi s) = f" if "in_range s f" for f
    using that by (simp add: in_range_def min_def max_def)
  then show ?thesis using assms(1)
    by (auto simp: parse_setting_value_def clamp_value_def Let_def
        split: setting_kind.splits option.splits go_float.splits if_splits)
qed

text \<open>
  Property C10: the settings file behaves as a finite map. Setting a known key that passes validation updates
  the map at that key, removing it deletes the key and reports whether it was there, and both leave the rest
  of the document as it is; an attempt that reports an error leaves the file untouched. The policy the
  switcher runs on is a function of the map.
\<close>

theorem settings_refine_map:
  assumes "spec_for dotted = Inr s"
  shows "(case set_setting dotted raw w of
            (Inr v, w') \<Rightarrow> explicit w' = (explicit w)(sp_key s \<mapsto> v) \<and> unrelated w' = unrelated w
          | (Inl _, w') \<Rightarrow> settings_file w' = settings_file w)
    \<and> (case unset_setting dotted w of
            (Inr b, w') \<Rightarrow> b = (explicit w (sp_key s) \<noteq> None) \<and> explicit w' = (explicit w)(sp_key s := None) \<and> unrelated w' = unrelated w
          | (Inl _, w') \<Rightarrow> settings_file w' = settings_file w)
    \<and> (faults w = [] \<longrightarrow> fst (load_settings w) = policy (explicit w))"
proof -
  obtain r w1 r' w2 where "set_setting dotted raw w = (r, w1)" "unset_setting dotted w = (r', w2)" by fastforce
  then show ?thesis
    using set_setting_cases [OF assms, of raw w r w1] unset_setting_cases [OF assms, of w r' w2]
    by (auto simp: load_settings_idle split: sum.splits)
qed

text \<open>
  Whatever the settings file contains and whether or not it can be read, the loaded policy is
  within its documented ranges, and so is a valid policy overridden from the command line.
\<close>

theorem loaded_settings_valid:
  "valid_settings (fst (load_settings w)) \<and> (valid_settings st \<longrightarrow> valid_settings (merged_with_cli st ov))"
proof -
  have "valid_settings (policy m)" for m by (simp add: policy_def valid_clamp)
  then show ?thesis
    by (simp add: load_settings_def settings_of_raw_policy case_prod_unfold Let_def merged_with_cli_def valid_clamp)
qed

text \<open>
  A value accepted by \<open>config set\<close> is the value in force afterwards, not a clamped neighbour of
  it, and no other setting changes.
\<close>

theorem set_then_load:
  assumes "spec_for dotted = Inr s" "set_setting dotted raw w = (Inr v, w')" "faults w' = []"
  shows "parse_setting_value s raw = Inr (Value v)
    \<and> mget (fields_of (fst (load_settings w'))) (sp_field s) = v
    \<and> (\<forall>t \<in> set setting_specs. t \<noteq> s \<longrightarrow>
          mget (fields_of (fst (load_settings w'))) (sp_field t) = mget (fields_of (policy (explicit w))) (sp_field t))"
proof -
  have mem: "s \<in> set setting_specs" by (rule spec_for_mem [OF assms(1)])
  have p: "parse_setting_value s raw = Inr (Value v)" and e: "explicit w' = (explicit w)(sp_key s \<mapsto> v)"
    using set_setting_cases [OF assms(1,2)] by simp_all
  have "sp_key t \<noteq> sp_key s" if "t \<in> set setting_specs" "t \<noteq> s" for t
    using that mem by (auto simp: setting_specs_def)
  then show ?thesis
    using p parsed_value_kept [OF p mem]
    by (simp add: load_settings_idle [OF assms(3)] policy_at mem e setting_at_def)
qed

lemma save_section:
  "distinct (map sp_key ss) \<Longrightarrow> s \<in> set ss \<Longrightarrow>
   map_of (foldl (\<lambda>sec s. gm_put (sp_key s) (f s) sec) sec0 ss) (sp_key s) = Some (f s)"
proof (induction ss arbitrary: sec0)
  case (Cons a ss)
  have out: "map_of (foldl (\<lambda>sec s. gm_put (sp_key s) (f s) sec) sec1 ss) k = map_of sec1 k"
    if "k \<notin> sp_key ` set ss" for k sec1
    using that by (induction ss arbitrary: sec1) auto
  show ?case
  proof (cases "s = a")
    case True
    then show ?thesis using out [of "sp_key a"] Cons.prems by auto
  next
    case False
    then show ?thesis using Cons by auto
  qed
qed simp

lemma distinct_save_section:
  "distinct (gm_keys sec0) \<Longrightarrow> distinct (gm_keys (foldl (\<lambda>sec s. gm_put (sp_key s) (f s) sec) sec0 ss))"
  by (induction ss arbitrary: sec0) (auto intro: distinct_gm_put)

lemma policy_of_fields:
  assumes "valid_settings st" "\<And>s. s \<in> set setting_specs \<Longrightarrow> m (sp_key s) = Some (mget (fields_of st) (sp_field s))"
  shows "policy m = st"
proof -
  have "clamped (List.map_filter (\<lambda>s. map_option (Pair (sp_field s)) (m (sp_key s))) setting_specs) s = clamped (fields_of st) s"
    if "s \<in> set setting_specs" for s
    using that assms(2) map_filter_fields [OF distinct_fields that, of m]
    by (simp add: clamped_def field_of_fields field_or_default_def [of "List.map_filter _ _"])
  then have "policy m = clamp_settings (fields_of st)"
    unfolding policy_def clamp_settings_fields by (simp add: setting_specs_def)
  then show ?thesis using clamp_fields_of [OF assms(1)] by simp
qed

text \<open>
  Saving a valid policy and loading it again gives the same policy, and the members of the
  document that are no settings survive.
\<close>

theorem save_then_load:
  assumes "valid_settings st" "save_settings st w = (None, w')" "faults w = []"
  shows "fst (load_settings w') = st \<and> unrelated w' = unrelated w"
proof -
  define sec where "sec = foldl (\<lambda>sec s. gm_put (sp_key s) (mget (fields_of st) (sp_field s)) sec)
    (section_map (stamp_schema (raw_of w)) ''autoswitch'') setting_specs"
  let ?doc = "gm_put ''autoswitch'' (JObj sec) (stamp_schema (raw_of w))"
  have e: "write_settings ?doc w = (None, w')"
    using assms(2) by (simp add: save_settings_def read_raw_idle [OF assms(3)] sec_def Let_def)
  have d: "distinct (gm_keys ?doc)" by (intro distinct_gm_put stamp_schema_facts distinct_raw_of)
  have "distinct (gm_keys sec)" unfolding sec_def by (rule distinct_save_section [OF distinct_section_map])
  from section_written [OF write_settings_ok [OF e d] this]
  have x: "explicit w' = map_of sec" "unrelated w' = unrelated w" by simp_all
  have "distinct (map sp_key setting_specs)" by (simp add: setting_specs_def)
  then have "map_of sec (sp_key s) = Some (mget (fields_of st) (sp_field s))" if "s \<in> set setting_specs" for s
    unfolding sec_def using that by (rule save_section)
  then have p: "policy (explicit w') = st" using policy_of_fields [OF assms(1)] x(1) by simp
  have "touches {RSettings} w (snd (write_settings ?doc w))" unfolding write_settings_def by (intro frames; simp)
  then have "faults w' = []" using e touches_idle [of "{RSettings}" w w'] assms(3) by simp
  then show ?thesis using p x(2) by (simp add: load_settings_idle)
qed

section \<open>Witnesses\<close>

text \<open>A file with an unrelated member, a value out of range and one of a wrong type.\<close>

definition sample_settings :: world where
  "sample_settings = sample_world\<lparr>faults := [], settings_file := Some (TJson (JObj
     [(''theme'', JStr ''dark''),
      (''autoswitch'', JObj [(''threshold'', JNum 120), (''strategy'', JNum 7), (''unhealthyTicks'', JNum (39 / 10))])]))\<rparr>"

lemma sample_settings_spec:
  "spec_for ''autoswitch.unhealthyTicks'' = Inr unhealthy_spec" "spec_for ''autoswitch.strategy'' = Inr strategy_spec"
  by code_simp+

lemma settings_refine_map_witness:
  "explicit (snd (set_setting ''autoswitch.unhealthyTicks'' ''7'' sample_settings)) ''unhealthyTicks'' = Some (JNum 7)
   \<and> explicit (snd (unset_setting ''autoswitch.unhealthyTicks'' sample_settings)) ''unhealthyTicks'' = None"
proof -
  have "fst (set_setting ''autoswitch.unhealthyTicks'' ''7'' sample_settings) = Inr (JNum 7)"
    "fst (unset_setting ''autoswitch.unhealthyTicks'' sample_settings) = Inr True" by code_simp+
  then show ?thesis
    using settings_refine_map [OF sample_settings_spec(1), where raw = "''7''" and w = sample_settings] by (auto split: prod.splits)
qed

lemma loaded_settings_valid_witness:
  "valid_settings (merged_with_cli default_settings
     \<lparr>ov_threshold = Some 200, ov_interval = None, ov_cooldown = None, ov_api_keys = None, ov_model = None\<rparr>)"
proof -
  have "valid_settings default_settings" by code_simp
  then show ?thesis using loaded_settings_valid by blast
qed

lemma set_then_load_witness:
  "mget (fields_of (fst (load_settings (snd (set_setting ''autoswitch.strategy'' ''soonest-reset'' sample_settings))))) ''Strategy'' = JStr ''soonest-reset''"
proof -
  have "fst (set_setting ''autoswitch.strategy'' ''soonest-reset'' sample_settings) = Inr (JStr ''soonest-reset'')" by code_simp
  then obtain w' where w: "set_setting ''autoswitch.strategy'' ''soonest-reset'' sample_settings = (Inr (JStr ''soonest-reset''), w')"
    by (metis prod.collapse)
  have "faults (snd (set_setting ''autoswitch.strategy'' ''soonest-reset'' sample_settings)) = []" by code_simp
  then have "faults w' = []" by (simp add: w)
  from set_then_load [OF sample_settings_spec(2) w this] show ?thesis by (simp add: w)
qed

lemma save_then_load_witness:
  "fst (load_settings (snd (save_settings default_settings sample_settings))) = default_settings"
proof -
  have v: "valid_settings default_settings" by code_simp
  have f: "faults sample_settings = []" by code_simp
  have "fst (save_settings default_settings sample_settings) = None" by code_simp
  then obtain w' where w: "save_settings default_settings sample_settings = (None, w')" by (metis prod.collapse)
  from save_then_load [OF v w f] show ?thesis by (simp add: w)
qed

end
