(* ===== verification/AutoSwitch.thy ===== *)
theory AutoSwitch
  imports SwitchChoice Settings
begin

text \<open>
  internal/autoswitch: the engine that watches the usage and switches by itself (tick.go, state.go,
  reset.go, collect.go, freshen.go, engine.go). What the engine calls outside is a parameter: the usage
  collection, the token refresh and the profile request. Everything else runs on the world: the state file
  with the cooldown and the quarantine, the roster, the backups and the switch. Events carry their data
  without time stamps; logging is left out. The clock stands still within a tick.
\<close>

section \<open>The engine\<close>

record refresh_outcome =
  ro_credentials :: string
  ro_error :: string
  ro_account :: "resolved_id option"

record auto_env =
  env_collect :: "string set \<Rightarrow> world \<Rightarrow> (string \<times> usage_entry) list \<times> world"
  env_refresh :: "world \<Rightarrow> string \<Rightarrow> refresh_outcome"
  env_profile :: "string \<Rightarrow> resolved_id option"

datatype trigger = Proactive | AtLimit | Failover

datatype tick_outcome = Switched | TickError | NoAction | Blocked

datatype auto_event =
    EvPoll "account_ref option" "string list" "(string \<times> rat option) list" rat "(string \<times> string) list"
      "(string \<times> (string \<times> rat) list) list"
  | EvSwitch trigger "account_ref option" "account_ref option" "string list" bool
  | EvNoSwitch string
  | EvQuarantine string string string
  | EvUnquarantine string string string
  | EvAllExhausted "rat option"
  | EvSleep rat
  | EvError string
  | EvConfigWarning "string list"

record engine =
  e_settings :: auto_settings
  e_models :: "string list"
  e_dry_run :: bool
  e_unhealthy :: int
  e_sleep_until :: "rat option"
  e_blocked_long :: bool
  e_idle_since :: "rat option"
  e_idle_slow :: bool
  e_model_checked :: bool
  e_events :: "auto_event list"

definition new_engine :: "auto_settings \<Rightarrow> bool \<Rightarrow> engine" where
  "new_engine s dry_run =
     (let models = parse_model_names (as_model s)
      in \<lparr>e_settings = s, e_models = models, e_dry_run = dry_run, e_unhealthy = 0, e_sleep_until = None,
          e_blocked_long = False, e_idle_since = None, e_idle_slow = False, e_model_checked = (models = []), e_events = []\<rparr>)"

definition apply_threshold :: "rat \<Rightarrow> engine \<Rightarrow> engine" where
  "apply_threshold t e = e\<lparr>e_settings := (e_settings e)\<lparr>as_threshold := t\<rparr>\<rparr>"

definition emit :: "auto_event \<Rightarrow> engine \<Rightarrow> engine" where
  "emit ev e = e\<lparr>e_events := e_events e @ [ev]\<rparr>"

definition freshen_buffer_ms :: rat where "freshen_buffer_ms = 600000"
definition max_sleep_s :: rat where "max_sleep_s = 21600"
definition no_reset_fallback_s :: rat where "no_reset_fallback_s = 300"
definition idle_hold_max_s :: rat where "idle_hold_max_s = 1800"

definition ref_of :: "string \<Rightarrow> string \<Rightarrow> account_ref" where
  "ref_of num email = (atoi num, email)"

section \<open>Account views\<close>

definition account_email :: "string \<Rightarrow> world \<Rightarrow> string" where
  "account_email num w = (case record_for (w_roster w) num of None \<Rightarrow> [] | Some rec \<Rightarrow> str_field rec ''email'')"

text \<open>\<open>AccountIdentity\<close>: the slot's organization and trimmed uuid.\<close>

definition account_identity :: "string \<Rightarrow> world \<Rightarrow> string \<times> string" where
  "account_identity num w =
     (case record_for (w_roster w) num of
        None \<Rightarrow> ([], []) | Some rec \<Rightarrow> (str_field rec ''organizationUuid'', trim_space (str_field rec ''uuid'')))"

definition kind_of :: "string \<Rightarrow> world \<Rightarrow> string" where
  "kind_of num w = account_kind_for (w_roster w) num"

section \<open>The state file\<close>

definition decode_state :: "jtext \<Rightarrow> json gomap" where
  "decode_state t = (case t of TRaw _ \<Rightarrow> [] | TJson v \<Rightarrow> (case as_map v of None \<Rightarrow> [] | Some m \<Rightarrow> m))"

definition read_state :: "world \<Rightarrow> json gomap \<times> world" where
  "read_state w =
     (case auto_file w of
        None \<Rightarrow> ([], w)
      | Some t \<Rightarrow> (case os_call (\<lambda>w. w) w of (Some _, w) \<Rightarrow> ([], w) | (None, w) \<Rightarrow> (decode_state t, w)))"

definition write_state :: "json gomap \<Rightarrow> world \<Rightarrow> go_err option \<times> world" where
  "write_state m = os_atomic (\<lambda>w. w\<lparr>auto_file := Some (TJson (JObj m))\<rparr>)"

definition mutate_state :: "(json gomap \<Rightarrow> json gomap) \<Rightarrow> world \<Rightarrow> (go_err + json gomap) \<times> world" where
  "mutate_state f w =
     (case acquire_lock w of
        (Some e, w) \<Rightarrow> (Inl e, w)
      | (None, w) \<Rightarrow>
          (let (st, w) = read_state w; st = f (gm_put ''schemaVersion'' (JNum 1) st)
           in (case write_state st w of (Some e, w) \<Rightarrow> (Inl e, w) | (None, w) \<Rightarrow> (Inr st, w))))"

definition in_cooldown :: "engine \<Rightarrow> json gomap \<Rightarrow> rat \<Rightarrow> bool" where
  "in_cooldown e st now \<longleftrightarrow>
     (case as_num (mget st ''lastSwitchAt'') of None \<Rightarrow> False | Some t \<Rightarrow> now - t < as_cooldown (e_settings e))"

definition quarantine_map :: "json gomap \<Rightarrow> json gomap" where
  "quarantine_map st = (case as_map (mget st ''quarantine'') of None \<Rightarrow> [] | Some q \<Rightarrow> q)"

definition quarantined_set :: "json gomap \<Rightarrow> string set" where
  "quarantined_set st = set (gm_keys (quarantine_map st))"

text \<open>\<open>ReadQuarantine\<close>: the quarantined slots with their reasons, as the TUI shows them.\<close>

definition read_quarantine :: "world \<Rightarrow> (string \<times> string) list \<times> world" where
  "read_quarantine w =
     (let (st, w) = read_state w
      in (map (\<lambda>(num, raw). (num, case as_map raw of None \<Rightarrow> [] | Some entry \<Rightarrow> str_field entry ''reason'')) (quarantine_map st), w))"

definition fingerprint_json :: "string \<Rightarrow> json" where
  "fingerprint_json creds = (case credential_fingerprint creds of None \<Rightarrow> JNull | Some f \<Rightarrow> JStr f)"

definition quarantine_entry :: "string \<Rightarrow> string \<Rightarrow> string \<Rightarrow> string \<Rightarrow> json" where
  "quarantine_entry email reason stamp creds =
     JObj [(''email'', JStr email), (''reason'', JStr reason), (''at'', JStr stamp),
           (''refreshTokenFingerprint'', fingerprint_json creds)]"

definition quarantine :: "string \<Rightarrow> string \<Rightarrow> string \<Rightarrow> engine \<Rightarrow> world \<Rightarrow> ((go_err option) \<times> engine) \<times> world" where
  "quarantine num email reason e w =
     (let (creds, w) = read_account_credentials num email w
      in (case mutate_state (\<lambda>st. gm_put ''quarantine''
                 (JObj (gm_put num (quarantine_entry email reason (w_stamp w) creds) (quarantine_map st))) st) w of
            (Inl err, w) \<Rightarrow> ((Some err, e), w)
          | (Inr _, w) \<Rightarrow> ((None, emit (EvQuarantine num email reason) e), w)))"

text \<open>Which quarantined slots have recovered: (number, e-mail, reason) each.\<close>

fun recovered :: "json gomap \<Rightarrow> string list \<Rightarrow> world \<Rightarrow> (string \<times> string \<times> string) list \<times> world" where
  "recovered q [] w = ([], w)"
| "recovered q (num # nums) w =
     (let entry = decode_record (mget q num); want = str_field entry ''email''; email = account_email num w
      in if email = [] \<or> email \<noteq> want
         then (let (rest, w) = recovered q nums w in ((num, want, ''account-replaced'') # rest, w))
         else (let (creds, w) = read_account_credentials num email w; (rest, w) = recovered q nums w
               in (if fingerprint_json creds = mget entry ''refreshTokenFingerprint'' then rest
                   else (num, email, ''credentials-replaced'') # rest, w)))"

definition release_recovered :: "json gomap \<Rightarrow> engine \<Rightarrow> world \<Rightarrow> ((go_err + json gomap) \<times> engine) \<times> world" where
  "release_recovered st e w =
     (if quarantine_map st = [] then ((Inr st, e), w)
      else (let q = quarantine_map st; (out, w) = recovered q (slot_sorted (gm_keys q)) w
            in if out = [] then ((Inr st, e), w)
               else (case mutate_state (\<lambda>s. case as_map (mget s ''quarantine'') of
                              None \<Rightarrow> s
                            | Some sq \<Rightarrow> gm_put ''quarantine'' (JObj (foldl (\<lambda>m (num, _). gm_del num m) sq out)) s) w of
                       (Inl err, w) \<Rightarrow> ((Inl err, e), w)
                     | (Inr st, w) \<Rightarrow> ((Inr st, foldl (\<lambda>e (num, email, why). emit (EvUnquarantine num email why) e) e out), w))))"

section \<open>Usage of a tick\<close>

definition usage_binding :: "json gomap option \<Rightarrow> string list \<Rightarrow> rat option" where
  "usage_binding u models =
     (case u of None \<Rightarrow> None | Some m \<Rightarrow> map_option (\<lambda>h. 100 - h) (headroom_of (DUsage m) models))"

definition renewal_of :: "decision \<Rightarrow> string list \<Rightarrow> rat option" where
  "renewal_of v models = (case v of DUsage m \<Rightarrow> renewal_ts (new_usage m) models | _ \<Rightarrow> None)"

definition token_expired :: "decision \<Rightarrow> bool" where
  "token_expired v \<longleftrightarrow> v = DSentinel ''token expired''"

text \<open>\<open>limitingResetTS\<close>, on the windows of the decision: the latest reset among those used up.\<close>

definition limiting_reset_of :: "decision \<Rightarrow> string list \<Rightarrow> rat option" where
  "limiting_reset_of v models =
     foldl (\<lambda>best wd. if rw_pct wd < 100 then best else later best (parse_reset_ts (rw_resets wd))) None (relevant_windows_of v models)"

definition used_up :: "decision \<Rightarrow> string list \<Rightarrow> bool" where
  "used_up v models \<longleftrightarrow> list_ex (\<lambda>wd. 100 \<le> rw_pct wd) (relevant_windows_of v models)"

fun earliest_recovery :: "string list \<Rightarrow> decision list \<Rightarrow> rat option \<Rightarrow> rat option" where
  "earliest_recovery models [] best = best"
| "earliest_recovery models (v # vs) best =
     (if \<not> used_up v models then earliest_recovery models vs best
      else (case limiting_reset_of v models of
              None \<Rightarrow> None
            | Some t \<Rightarrow> earliest_recovery models vs
                (case best of None \<Rightarrow> Some t | Some b \<Rightarrow> Some (if t < b then t else b))))"

definition decision_values :: "(string \<times> usage_entry) list \<Rightarrow> (string \<times> decision) list" where
  "decision_values es = map (\<lambda>(num, e). (num, decision_value e)) es"

text \<open>Whether the active account is to be fetched in this tick.\<close>

definition nominate_active :: "engine \<Rightarrow> usage_entry option \<Rightarrow> rat \<Rightarrow> bool" where
  "nominate_active e pre now \<longleftrightarrow>
     (case pre of
        None \<Rightarrow> True
      | Some p \<Rightarrow>
          (case u_age_s p of
             None \<Rightarrow> True
           | Some age \<Rightarrow>
               active_max_interval_s \<le> age
                 \<and> active_max_interval_s < (case u_poll_interval p of None \<Rightarrow> 0 | Some i \<Rightarrow> i)
                 \<and> (case usage_binding (u_last_good p) (e_models e) of None \<Rightarrow> 0 | Some b \<Rightarrow> b) < 100
               \<or> (case u_next_poll p of Some t \<Rightarrow> t \<le> now | None \<Rightarrow> min_interval_s \<le> age)))"

definition escalates :: "engine \<Rightarrow> string list \<Rightarrow> decision \<Rightarrow> rat \<Rightarrow> bool" where
  "escalates e candidates active limit \<longleftrightarrow>
     candidates \<noteq> [] \<and>
     (case headroom_of active (e_models e) of
        None \<Rightarrow> \<not> token_expired active
      | Some h \<Rightarrow> limit - escalation_margin_pct \<le> 100 - h)"

definition collect_scheduled ::
  "auto_env \<Rightarrow> engine \<Rightarrow> string \<Rightarrow> string set \<Rightarrow> rat \<Rightarrow> world \<Rightarrow> (string \<times> usage_entry) list \<times> world" where
  "collect_scheduled env e current quarantined limit w =
     (let now = w_now w; (nums, w) = switchable_account_numbers w;
          candidates = filter (\<lambda>n. n \<noteq> current \<and> n \<notin> quarantined) nums;
          (pre, w) = env_collect env {} w;
          plan = (if nominate_active e (map_of pre current) now then {current} else {});
          pick = (if e_idle_since e = None then due_candidate candidates (map_of pre) now else []);
          plan = (if pick \<noteq> [] then insert pick plan else plan);
          (es, w) = env_collect env plan w
      in if escalates e candidates (usage_value (decision_values es) current) limit
         then env_collect env (insert current (set candidates)) w else (es, w))"

section \<open>The decision\<close>

text \<open>
  What the active account's usage asks for: a trigger, or none (\<open>NoAction\<close>). The counters of unreadable
  polls and the idle hold are updated here.
\<close>

definition decide_trigger :: "engine \<Rightarrow> decision \<Rightarrow> rat option \<Rightarrow> rat \<Rightarrow> trigger option \<times> engine" where
  "decide_trigger e active head now =
     (let s = e_settings e
      in (case head of
            Some h \<Rightarrow>
              (let e = e\<lparr>e_unhealthy := 0, e_idle_since := None\<rparr>
               in if 100 - h < as_threshold s then (None, emit (EvNoSwitch ''below-threshold'') e)
                  else (Some (if h \<le> 0 then AtLimit else Proactive), e))
          | None \<Rightarrow>
              (let since = (case e_idle_since e of None \<Rightarrow> now | Some t \<Rightarrow> t);
                   e = e\<lparr>e_idle_since := (if token_expired active then Some since else None)\<rparr>
               in if token_expired active \<and> now - since \<le> idle_hold_max_s
                  then (None, emit (EvNoSwitch ''active-idle'') (e\<lparr>e_unhealthy := 0, e_idle_slow := True\<rparr>))
                  else (let e = e\<lparr>e_unhealthy := e_unhealthy e + 1\<rparr>
                        in if e_unhealthy e < as_unhealthy s then (None, emit (EvNoSwitch ''active-usage-unknown'') e)
                           else (Some Failover, e)))))"

text \<open>A qualifying target: headroom, weekly renewal, slot.\<close>

record qual =
  q_headroom :: rat
  q_renewal :: "rat option"
  q_num :: string

definition qual_less :: "string \<Rightarrow> rat \<Rightarrow> qual \<Rightarrow> qual \<Rightarrow> bool" where
  "qual_less strategy limit a b \<longleftrightarrow>
     (if strategy = ''soonest-reset''
      then (let below = (\<lambda>q. 100 - q_headroom q < limit)
            in if below a \<noteq> below b then below a
               else if \<not> below a then q_headroom b < q_headroom a
               else (case (q_renewal a, q_renewal b) of
                       (Some _, None) \<Rightarrow> True
                     | (None, Some _) \<Rightarrow> False
                     | (Some x, Some y) \<Rightarrow> if x \<noteq> y then x < y else q_headroom b < q_headroom a
                     | (None, None) \<Rightarrow> q_headroom b < q_headroom a))
      else q_headroom b < q_headroom a)"

definition qualifies :: "auto_settings \<Rightarrow> trigger \<Rightarrow> rat option \<Rightarrow> rat \<Rightarrow> bool" where
  "qualifies s trig active h \<longleftrightarrow>
     0 < h \<and> (trig = Proactive \<longrightarrow> (case active of None \<Rightarrow> True
        | Some a \<Rightarrow> 100 - h < as_threshold s \<and> as_hysteresis s \<le> h - a))"

definition qualifying_targets ::
  "engine \<Rightarrow> trigger \<Rightarrow> rat option \<Rightarrow> (string \<Rightarrow> decision) \<Rightarrow> string list \<Rightarrow> qual list" where
  "qualifying_targets e trig active usage nums =
     List.map_filter (\<lambda>n. case headroom_of (usage n) (e_models e) of
        None \<Rightarrow> None
      | Some h \<Rightarrow> if qualifies (e_settings e) trig active h
                   then Some \<lparr>q_headroom = h, q_renewal = renewal_of (usage n) (e_models e), q_num = n\<rparr> else None) nums"

datatype selection = NoCandidates | Selected "string list" "string list" bool

text \<open>The targets in order, the OAuth candidates, and whether the usage of any of these is known.\<close>

definition select_targets ::
  "engine \<Rightarrow> trigger \<Rightarrow> rat option \<Rightarrow> (string \<Rightarrow> decision) \<Rightarrow> (string \<Rightarrow> string) \<Rightarrow> string list \<Rightarrow> selection" where
  "select_targets e trig active usage kind candidates =
     (let s = e_settings e; oauth = filter (\<lambda>n. kind n \<noteq> ''api_key'') candidates;
          keys = (if as_api_keys s then filter (\<lambda>n. kind n = ''api_key'') candidates else [])
      in if oauth = [] \<and> keys = [] then NoCandidates
         else (let ordered = map q_num (sort_stable (qual_less (as_strategy s) (as_threshold s))
                                 (qualifying_targets e trig active usage oauth))
               in Selected (if ordered = [] then keys else ordered) oauth
                    (list_ex (\<lambda>n. headroom_of (usage n) (e_models e) \<noteq> None) oauth)))"

text \<open>What a tick without a target reports, and how long it lets the engine sleep.\<close>

definition no_target :: "string list \<Rightarrow> bool \<Rightarrow> (string \<times> decision) list \<Rightarrow> engine \<Rightarrow> engine" where
  "no_target oauth any_known usage e =
     (if \<not> any_known then emit (EvNoSwitch ''no-comparison'') e
      else if list_ex (\<lambda>n. case headroom_of (usage_value usage n) (e_models e) of None \<Rightarrow> True | Some h \<Rightarrow> 0 < h) oauth
      then emit (EvNoSwitch ''no-qualifying-candidate'') e
      else (let earliest = earliest_recovery (e_models e) (map snd usage) None
            in emit (EvAllExhausted earliest)
                 (e\<lparr>e_blocked_long := True,
                    e_sleep_until := (case earliest of None \<Rightarrow> e_sleep_until e | Some t \<Rightarrow> Some (t + reset_slack_s))\<rparr>)))"

section \<open>Freshening a target\<close>

datatype freshness = Fresh | InvalidGrant | IdentityConflict | Transient | LiveSession

definition note_token_identity :: "string \<Rightarrow> resolved_id option \<Rightarrow> world \<Rightarrow> bool \<times> world" where
  "note_token_identity num ta w =
     (case ta of
        None \<Rightarrow> (False, w)
      | Some t \<Rightarrow>
          (let uuid = trim_space (ri_uuid t); (org, slot_uuid) = account_identity num w
           in if uuid = [] then (False, w)
              else if ri_org t \<noteq> [] \<and> org \<noteq> [] \<and> ri_org t \<noteq> org then (True, w)
              else if slot_uuid = [] then (False, ignoring (backfill_account_uuid num uuid) w)
              else (slot_uuid \<noteq> uuid, w)))"

definition near_expiry :: "json gomap \<Rightarrow> rat \<Rightarrow> bool" where
  "near_expiry oauth now \<longleftrightarrow>
     (case as_num (mget oauth ''expiresAt'') of None \<Rightarrow> False | Some ms \<Rightarrow> ms \<le> now * 1000 + freshen_buffer_ms)"

definition freshen_target :: "auto_env \<Rightarrow> string \<Rightarrow> string \<Rightarrow> world \<Rightarrow> (go_err + freshness) \<times> world" where
  "freshen_target env num email w =
     (if kind_of num w = ''api_key'' then (Inr Fresh, w)
      else if live_session_pids_for num email w \<noteq> [] then (Inr LiveSession, w)
      else
        (let (creds, w) = read_account_credentials num email w
         in if creds = [] then (Inr Transient, w)
            else (case extract_oauth_data creds of
                    None \<Rightarrow> (Inr InvalidGrant, w)
                  | Some oauth \<Rightarrow>
                      if \<not> near_expiry oauth (w_now w) then (Inr Fresh, w)
                      else (let r = env_refresh env w creds
                            in if ro_error r = [] \<and> ro_credentials r \<noteq> []
                               then (case persist_backup_credentials num email (ro_credentials r) w of
                                       (Some err, w) \<Rightarrow> (Inl err, w)
                                     | (None, w) \<Rightarrow>
                                         (case note_token_identity num (ro_account r) w of
                                            (True, w) \<Rightarrow> (Inr IdentityConflict, w) | (False, w) \<Rightarrow> (Inr Fresh, w)))
                               else (Inr (if ro_error r \<in> {''invalid_grant'', ''no_refresh_token''} then InvalidGrant else Transient), w)))))"

section \<open>The switch\<close>

definition record_switch :: "string \<Rightarrow> rat \<Rightarrow> json gomap \<Rightarrow> json gomap" where
  "record_switch num now st =
     gm_put ''lastSwitchTo'' (JStr num) (gm_put ''lastSwitchAt'' (JNum now) (gm_put ''schemaVersion'' (JNum 1) st))"

text \<open>\<open>perform\<close>: the recheck, the switch and its record, all under the state lock.\<close>

definition perform_auto ::
  "auto_env \<Rightarrow> string \<Rightarrow> string \<Rightarrow> trigger \<Rightarrow> engine \<Rightarrow> world \<Rightarrow> ((go_err + tick_outcome) \<times> engine) \<times> world" where
  "perform_auto env num email trig e w =
     (if e_dry_run e
      then (let src = map_option (\<lambda>c. ref_of c (account_email c w)) (current_account_number w)
            in ((Inr Switched, emit (EvSwitch trig src (Some (ref_of num email)) [] True) e), w))
      else
        (case acquire_lock w of
           (Some err, w) \<Rightarrow> ((Inl err, e), w)
         | (None, w) \<Rightarrow>
             (let (st, w) = read_state w
              in if trig = Proactive \<and> in_cooldown e st (w_now w)
                 then ((Inr NoAction, emit (EvNoSwitch ''cooldown'') e), w)
                 else
                   (case switch_to (env_profile env) None num True False w of
                      (Inl err, w) \<Rightarrow> ((Inl err, e), w)
                    | (Inr r, w) \<Rightarrow>
                        (case r of
                           None \<Rightarrow> ((Inr NoAction, emit (EvNoSwitch ''already-active'') e), w)
                         | Some res \<Rightarrow>
                             if \<not> res_switched res then ((Inr NoAction, emit (EvNoSwitch ''already-active'') e), w)
                             else (case write_state (record_switch num (w_now w) st) w of
                                     (Some err, w) \<Rightarrow> ((Inl err, e), w)
                                   | (None, w) \<Rightarrow>
                                       ((Inr Switched, emit (EvSwitch trig (res_from res) (res_to res) (res_warnings res) False) e), w)))))))"

fun try_targets ::
  "auto_env \<Rightarrow> trigger \<Rightarrow> string list \<Rightarrow> bool \<Rightarrow> engine \<Rightarrow> world \<Rightarrow> ((go_err + tick_outcome) \<times> engine) \<times> world" where
  "try_targets env trig [] transient e w =
     (if transient then ((Inr TickError, emit (EvError ''could not freshen any candidate'') e), w)
      else ((Inr Blocked, emit (EvNoSwitch ''no-viable-target'') e), w))"
| "try_targets env trig (num # nums) transient e w =
     (let email = account_email num w
      in if e_dry_run e then perform_auto env num email trig e w
         else (case freshen_target env num email w of
                 (Inl err, w) \<Rightarrow> ((Inl err, e), w)
               | (Inr f, w) \<Rightarrow>
                   (case f of
                      Fresh \<Rightarrow> perform_auto env num email trig e w
                    | LiveSession \<Rightarrow> try_targets env trig nums transient e w
                    | Transient \<Rightarrow> try_targets env trig nums True e w
                    | _ \<Rightarrow>
                        (case quarantine num email (if f = IdentityConflict then ''identity-conflict'' else ''invalid_grant'') e w of
                           ((Some err, e), w) \<Rightarrow> ((Inl err, e), w)
                         | ((None, e), w) \<Rightarrow> try_targets env trig nums transient e w))))"

section \<open>The model-name check\<close>

definition model_names_missing :: "engine \<Rightarrow> decision list \<Rightarrow> string list" where
  "model_names_missing e vs =
     (let seen = concat (map scope_names vs)
      in filter (\<lambda>m. go_lower m \<noteq> ''all'' \<and> go_lower m \<notin> set seen) (e_models e))"

definition check_model_names ::
  "string set \<Rightarrow> (string \<times> decision) list \<Rightarrow> engine \<Rightarrow> world \<Rightarrow> engine \<times> world" where
  "check_model_names quarantined usage e w =
     (if list_all (\<lambda>m. go_lower m = ''all'') (e_models e) then (e\<lparr>e_model_checked := True\<rparr>, w)
      else
        (let (nums, w) = switchable_account_numbers w;
             vs = map (usage_value usage) (filter (\<lambda>n. n \<notin> quarantined \<and> kind_of n w \<noteq> ''api_key'') nums)
         in if vs = [] \<or> \<not> list_all is_usage_dict vs then (e, w)
            else (let e = e\<lparr>e_model_checked := True\<rparr>; missing = model_names_missing e vs
                  in (if missing = [] then e else emit (EvConfigWarning missing) e, w))))"

section \<open>The tick\<close>

definition fetch_errors :: "(string \<times> usage_entry) list \<Rightarrow> (string \<times> string) list" where
  "fetch_errors es =
     List.map_filter (\<lambda>(num, u). if decision_value u = DNone \<and> u_last_error u \<noteq> [] then Some (num, u_last_error u) else None) es"

definition window_pcts :: "(string \<times> decision) list \<Rightarrow> string list \<Rightarrow> (string \<times> (string \<times> rat) list) list" where
  "window_pcts usage models =
     filter (\<lambda>(_, ws). ws \<noteq> [])
       (map (\<lambda>(num, v). (num, map (\<lambda>wd. (rw_label wd, rw_pct wd)) (relevant_windows_of v models))) usage)"

definition no_account :: "engine \<Rightarrow> world \<Rightarrow> engine" where
  "no_account e w =
     emit (EvNoSwitch (if current_account w \<noteq> None then ''unmanaged-active-account'' else ''no-active-account''))
       (emit (EvPoll None [] [] (as_threshold (e_settings e)) [] []) e)"

definition tick_switch ::
  "auto_env \<Rightarrow> trigger \<Rightarrow> rat option \<Rightarrow> (string \<times> decision) list \<Rightarrow> string set \<Rightarrow> string \<Rightarrow> engine \<Rightarrow> world \<Rightarrow>
   ((go_err + tick_outcome) \<times> engine) \<times> world" where
  "tick_switch env trig active usage quarantined current e w =
     (let (nums, w) = switchable_account_numbers w
      in (case select_targets e trig active (usage_value usage) (\<lambda>n. kind_of n w)
                 (filter (\<lambda>n. n \<noteq> current \<and> n \<notin> quarantined) nums) of
            NoCandidates \<Rightarrow> ((Inr Blocked, emit (EvNoSwitch ''no-candidates'') (e\<lparr>e_blocked_long := True\<rparr>)), w)
          | Selected ordered oauth any_known \<Rightarrow>
              if ordered = [] then ((Inr Blocked, no_target oauth any_known usage e), w)
              else try_targets env trig ordered False e w))"

definition tick_managed ::
  "auto_env \<Rightarrow> json gomap \<Rightarrow> string \<Rightarrow> engine \<Rightarrow> world \<Rightarrow> ((go_err + tick_outcome) \<times> engine) \<times> world" where
  "tick_managed env st current e w =
     (let s = e_settings e; quarantined = quarantined_set st; ref = ref_of current (account_email current w);
          (es, w) = collect_scheduled env e current quarantined (as_threshold s) w;
          usage = decision_values es; head = (\<lambda>n. headroom_of (usage_value usage n) (e_models e));
          e = emit (EvPoll (Some ref) (slot_sorted (map fst usage)) (map (\<lambda>(n, _). (n, head n)) usage) (as_threshold s)
                (fetch_errors es) (window_pcts usage (e_models e))) e;
          (e, w) = (if e_model_checked e then (e, w) else check_model_names quarantined usage e w)
      in if kind_of current w = ''api_key'' \<and> \<not> as_api_keys s
         then ((Inr NoAction, emit (EvNoSwitch ''active-api-key'') e), w)
         else (case decide_trigger e (usage_value usage current) (head current) (w_now w) of
                 (None, e) \<Rightarrow> ((Inr NoAction, e), w)
               | (Some trig, e) \<Rightarrow>
                   if trig = Proactive \<and> in_cooldown e st (w_now w)
                   then ((Inr NoAction, emit (EvNoSwitch ''cooldown'') e), w)
                   else tick_switch env trig (head current) usage quarantined current e w))"

definition tick_inner :: "auto_env \<Rightarrow> engine \<Rightarrow> world \<Rightarrow> ((go_err + tick_outcome) \<times> engine) \<times> world" where
  "tick_inner env e w =
     (let e = e\<lparr>e_sleep_until := None, e_blocked_long := False, e_idle_slow := False\<rparr>; (st, w) = read_state w
      in (case (if e_dry_run e then ((Inr st, e), w) else release_recovered st e w) of
            ((Inl err, e), w) \<Rightarrow> ((Inl err, e), w)
          | ((Inr st, e), w) \<Rightarrow>
              (case current_account_number w of
                 None \<Rightarrow> ((Inr NoAction, no_account e w), w)
               | Some current \<Rightarrow> tick_managed env st current e w)))"

text \<open>\<open>Tick\<close> turns an error, and a recovered panic, into an outcome.\<close>

definition tick :: "auto_env \<Rightarrow> engine \<Rightarrow> world \<Rightarrow> (tick_outcome \<times> engine) \<times> world" where
  "tick env e w =
     (case tick_inner env e w of
        ((Inr r, e), w) \<Rightarrow> ((r, e), w)
      | ((Inl _, e), w) \<Rightarrow> ((TickError, emit (EvError ''tick failed'') e), w))"

section \<open>The loop\<close>

text \<open>\<open>jitter\<close> is the random number in [0, 1).\<close>

definition next_delay :: "engine \<Rightarrow> tick_outcome \<Rightarrow> rat \<Rightarrow> rat \<Rightarrow> rat" where
  "next_delay e outcome now jitter =
     (let interval = as_interval (e_settings e); plain = interval * (9 / 10 + 2 / 10 * jitter)
      in (case outcome of
            Blocked \<Rightarrow>
              (case e_sleep_until e of
                 Some t \<Rightarrow> min (max (t - now) interval) max_sleep_s
               | None \<Rightarrow> if e_blocked_long e then max interval no_reset_fallback_s else plain)
          | NoAction \<Rightarrow> if e_idle_slow e then max interval no_reset_fallback_s else plain
          | _ \<Rightarrow> plain))"

text \<open>One turn of \<open>RunLoop\<close>: the tick, the delay before the next one, and the announcement of a long sleep.\<close>

definition loop_turn :: "auto_env \<Rightarrow> rat \<Rightarrow> engine \<Rightarrow> world \<Rightarrow> (rat \<times> engine) \<times> world" where
  "loop_turn env jitter e w =
     (let ((outcome, e), w) = tick env e w; delay = next_delay e outcome (w_now w) jitter
      in ((delay, if as_interval (e_settings e) * (3 / 2) < delay then emit (EvSleep delay) e else e), w))"

end
