(* ===== verification/AutoTick.thy ===== *)
theory AutoTick
  imports AutoSwitch "HOL-Library.Product_Lexorder"
begin

text \<open>
  The tick of the engine (AutoSwitch): what it touches, the spacing of proactive switches over any
  interleaving of engines, what justifies a switch, the order of the targets, the pause between ticks and
  the announced recovery.
\<close>

section \<open>What a tick touches\<close>

text \<open>Everything but the engine's own state file.\<close>

definition not_auto :: "resource set" where
  "not_auto = - {RAuto}"

lemma touches_switch_values [frames]:
  fixes q :: "seq_data \<times> string list" and q' :: "string option \<times> jtext option" and q'' :: "switch_op \<times> string option" and q3 :: "go_err option \<times> step list"
    and q4 :: "string \<times> string \<times> string"
  shows "(\<And>a b. touches R w (snd (k a b))) \<Longrightarrow> touches R w (snd (case_prod k q))"
    "(\<And>a b. touches R w (snd (k' a b))) \<Longrightarrow> touches R w (snd (case_prod k' q'))"
    "(\<And>a b. touches R w (snd (k'' a b))) \<Longrightarrow> touches R w (snd (case_prod k'' q''))"
    "(\<And>a b. touches R w (snd (k3 a b))) \<Longrightarrow> touches R w (snd (case_prod k3 q3))"
    "(\<And>a b. touches R w (snd (k4 a b))) \<Longrightarrow> touches R w (snd (case_prod k4 q4))"
  by (simp_all add: case_prod_unfold)

lemma touches_list [frames]:
  "touches R w (snd a) \<Longrightarrow> (\<And>x xs. touches R w (snd (b x xs))) \<Longrightarrow> touches R w (snd (case_list a b v))"
  by (cases v) simp_all

lemma touches_self_action [frames]:
  "touches R w (snd a) \<Longrightarrow> touches R w (snd b) \<Longrightarrow> (\<And>p. touches R w (snd (c p))) \<Longrightarrow> touches R w (snd (case_self_action a b c v))"
  by (cases v) simp_all

lemma resources_not_auto [simp]:
  "backup_resources num email \<subseteq> not_auto" "live_resources w \<subseteq> not_auto" "outgoing_resources num email w \<subseteq> not_auto"
  "slot_resources num email w \<subseteq> not_auto" "profile_resources dir w \<subseteq> not_auto"
  "RSeq \<in> not_auto" "RUsage \<in> not_auto" "RStash \<in> not_auto" "RLiveConfig \<in> not_auto" "RLiveCreds \<in> not_auto"
  "RKeychain k \<in> not_auto" "RCredFile p \<in> not_auto" "RConfigFile p \<in> not_auto" "RProfile p \<in> not_auto"
  by (auto simp: not_auto_def backup_resources_def live_resources_def outgoing_resources_def slot_resources_def profile_resources_def)

lemma touches_rollback:
  "touches R w w1 \<Longrightarrow> live_resources w \<subseteq> R \<Longrightarrow> RSeq \<in> R \<Longrightarrow> touches R w (snd (rollback tx ss w1))"
proof (induction ss arbitrary: w1)
  case (Cons s ss)
  have "touches R w (snd (rollback_step tx s w1))"
    using Cons.prems by (cases s) (simp_all, (intro frames; auto simp: live_resources_def)+)
  then show ?case using Cons.IH [OF _ Cons.prems(2,3)] by (simp add: case_prod_unfold Let_def)
qed simp

lemma touches_switch_paths [frames]:
  "touches not_auto w w1 \<Longrightarrow> touches not_auto w (snd (normal_switch target email current cur_email prov d w1))"
  "touches not_auto w w1 \<Longrightarrow> touches not_auto w (snd (direct_activate target email org li current force d w1))"
  unfolding normal_switch_def direct_activate_def snapshot_live_def preserve_live_def Let_def
  by (intro frames touches_rollback; simp)+

lemma touches_perform_switch [frames]:
  "touches not_auto w w1 \<Longrightarrow> touches not_auto w (snd (perform_switch profile target force given w1))"
  unfolding perform_switch_def with_triple_lock_def perform_locked_def Let_def
  by (intro frames; simp)

lemma touches_resolve_account [frames]:
  "touches R w w1 \<Longrightarrow> RSeq \<in> R \<Longrightarrow> touches R w (snd (resolve_account ident w1))"
  unfolding resolve_account_def sequence_migrated_def migrate_org_fields_def by (intro frames; simp)

lemma touches_switch_to [frames]:
  "touches not_auto w w1 \<Longrightarrow> touches not_auto w (snd (switch_to profile asker ident json force w1))"
  unfolding switch_to_def sequence_migrated_def migrate_org_fields_def Let_def
  by (intro frames; simp)

lemma touches_read_state [frames]: "touches R w w1 \<Longrightarrow> touches R w (snd (read_state w1))"
  unfolding read_state_def by (intro frames; simp)

lemma touches_mutate_state [frames]: "touches R w w1 \<Longrightarrow> RAuto \<in> R \<Longrightarrow> touches R w (snd (mutate_state f w1))"
  unfolding mutate_state_def write_state_def Let_def by (intro frames; simp)

lemma touches_persist_backup [frames]:
  "touches not_auto w w1 \<Longrightarrow> touches not_auto w (snd (persist_backup_credentials num email c w1))"
  unfolding persist_backup_credentials_def by (intro frames; simp)

lemma touches_backfill_uuid [frames]:
  "touches R w w1 \<Longrightarrow> RSeq \<in> R \<Longrightarrow> touches R w (snd (backfill_account_uuid num uuid w1))"
  unfolding backfill_account_uuid_def by (intro frames; simp)

lemma touches_note_identity [frames]:
  "touches R w w1 \<Longrightarrow> RSeq \<in> R \<Longrightarrow> touches R w (snd (note_token_identity num ta w1))"
  unfolding note_token_identity_def Let_def by (intro frames; simp)

lemma touches_freshen_target [frames]:
  "touches not_auto w w1 \<Longrightarrow> touches not_auto w (snd (freshen_target env num email w1))"
  unfolding freshen_target_def Let_def by (intro frames; simp split: bool.split)

lemma touches_recovered: "touches R w w1 \<Longrightarrow> touches R w (snd (recovered q nums w1))"
proof (induction nums arbitrary: w1)
  case (Cons num nums)
  have "touches R w (snd (read_account_credentials num x w1))" for x using Cons.prems by (intro frames)
  then show ?case using Cons by (simp add: case_prod_unfold Let_def)
qed simp


section \<open>The record of the last switch\<close>

definition state_of :: "world \<Rightarrow> json gomap" where
  "state_of w = (case auto_file w of None \<Rightarrow> [] | Some t \<Rightarrow> decode_state t)"

definition last_switch :: "world \<Rightarrow> rat option" where
  "last_switch w = as_num (mget (state_of w) ''lastSwitchAt'')"

lemma distinct_state_of: "distinct (gm_keys (state_of w))"
  by (auto simp: state_of_def decode_state_def gm_keys_def [of "[]"] split: option.split jtext.split dest: distinct_as_map)

lemma state_of_not_auto: "touches not_auto w w' \<Longrightarrow> state_of w' = state_of w"
  using touches_same [of not_auto w w' RAuto] by (simp add: not_auto_def state_of_def)

lemma read_state_idle: "faults w = [] \<Longrightarrow> read_state w = (state_of w, w)"
  by (simp add: read_state_def state_of_def os_call_quiet split: option.split)

lemma write_state_idle: 
  "faults w = [] \<Longrightarrow> distinct (gm_keys m) \<Longrightarrow> 
   fst (write_state m w) = None \<and> state_of (snd (write_state m w)) = m \<and> faults (snd (write_state m w)) = [] \<and> w_now (snd (write_state m w)) = w_now w"
  by (simp add: write_state_def os_atomic_quiet state_of_def decode_state_def obj_map_id)

lemma mutate_state_idle:
  assumes "faults w = []" "\<And>m. distinct (gm_keys m) \<Longrightarrow> distinct (gm_keys (f m))"
  obtains w' where "mutate_state f w = (Inr (f (gm_put ''schemaVersion'' (JNum 1) (state_of w))), w')"
    "state_of w' = f (gm_put ''schemaVersion'' (JNum 1) (state_of w))" "faults w' = []"
proof -
  let ?st = "f (gm_put ''schemaVersion'' (JNum 1) (state_of w))"
  have "distinct (gm_keys ?st)" by (intro assms(2) distinct_gm_put distinct_state_of)
  from write_state_idle [OF assms(1) this] obtain w' where
    "write_state ?st w = (None, w')" "state_of w' = ?st" "faults w' = []" by (cases "write_state ?st w") auto
  then show thesis
    using that assms(1) by (simp add: mutate_state_def acquire_lock_idle read_state_idle Let_def)
qed

lemma quarantine_state_idle:
  assumes "faults w = []" "quarantine num email reason e w = ((r, e'), w')"
  shows "last_switch w' = last_switch w \<and> faults w' = [] \<and> e_settings e' = e_settings e \<and> w_now w \<le> w_now w'"
proof -
  obtain creds w1 where c: "read_account_credentials num email w = (creds, w1)" by fastforce
  have t: "touches not_auto w w1" by (rule touches_result [OF c]) (intro frames; simp)
  have f: "faults w1 = []" by (rule touches_idle [OF t assms(1)])
  let ?f = "\<lambda>st. gm_put ''quarantine'' (JObj (gm_put num (quarantine_entry email reason (w_stamp w1) creds) (quarantine_map st))) st"
  have d: "distinct (gm_keys (?f m))" if "distinct (gm_keys m)" for m using that by (rule distinct_gm_put)
  obtain w2 where m: "mutate_state ?f w1 = (Inr (?f (gm_put ''schemaVersion'' (JNum 1) (state_of w1))), w2)"
    "state_of w2 = ?f (gm_put ''schemaVersion'' (JNum 1) (state_of w1))" "faults w2 = []"
    using mutate_state_idle [of w1 ?f, OF f d] by blast
  have tm: "touches UNIV w1 w2" by (rule touches_result [OF m(1)]) (intro frames; simp)
  have "last_switch w2 = last_switch w"
    using m(2) state_of_not_auto [OF t] by (simp add: last_switch_def)
  then show ?thesis using assms(2) c m touches_clock [OF t] touches_clock [OF tm] by (auto simp: quarantine_def emit_def)
qed

lemma foldl_emit: "e_settings (foldl (\<lambda>e (num, email, why). emit (f num email why) e) e out) = e_settings e"
  by (induction out arbitrary: e) (auto simp: emit_def)

lemma distinct_foldl_del: "distinct (gm_keys m) \<Longrightarrow> distinct (gm_keys (foldl (\<lambda>m (num, _). gm_del num m) m out))"
  by (induction out arbitrary: m) (auto intro: distinct_gm_del)

lemma release_state_idle:
  assumes "faults w = []" "release_recovered st e w = ((r, e'), w')"
  shows "last_switch w' = last_switch w \<and> faults w' = [] \<and> e_settings e' = e_settings e \<and> w_now w \<le> w_now w'
    \<and> touches {RAuto} w w' \<and> (st = state_of w \<longrightarrow> r = Inr (state_of w'))"
proof (cases "quarantine_map st = []")
  case True
  then show ?thesis using assms by (auto simp: release_recovered_def)
next
  case False
  obtain out w1 where o: "recovered (quarantine_map st) (slot_sorted (gm_keys (quarantine_map st))) w = (out, w1)" by fastforce
  have t0: "touches {} w w1" by (rule touches_result [OF o]) (rule touches_recovered; simp)
  have t: "touches not_auto w w1" "touches {RAuto} w w1" by (rule touches_mono [OF t0]; simp)+
  have f: "faults w1 = []" by (rule touches_idle [OF t0 assms(1)])
  let ?f = "\<lambda>s. case as_map (mget s ''quarantine'') of None \<Rightarrow> s
      | Some sq \<Rightarrow> gm_put ''quarantine'' (JObj (foldl (\<lambda>m (num, _). gm_del num m) sq out)) s"
  have d: "distinct (gm_keys (?f m))" if "distinct (gm_keys m)" for m
    using that by (auto simp: distinct_gm_put split: option.split)
  show ?thesis
  proof (cases "out = []")
    case True
    then show ?thesis using assms False o f t touches_clock [OF t0] state_of_not_auto [OF t(1)]
      by (auto simp: release_recovered_def last_switch_def)
  next
    case ne: False
    obtain w2 where m: "mutate_state ?f w1 = (Inr (?f (gm_put ''schemaVersion'' (JNum 1) (state_of w1))), w2)"
      "state_of w2 = ?f (gm_put ''schemaVersion'' (JNum 1) (state_of w1))" "faults w2 = []"
      using mutate_state_idle [of w1 ?f, OF f d] by blast
    have tm: "touches {RAuto} w1 w2" by (rule touches_result [OF m(1)]) (intro frames; simp)
    have "last_switch w2 = last_switch w"
      using m(2) state_of_not_auto [OF t(1)] by (auto simp: last_switch_def split: option.split)
    then show ?thesis
      using assms(2) False ne o m foldl_emit [of EvUnquarantine e out] touches_clock [OF t0] touches_clock [OF tm] touches_trans [OF t(2) tm]
      by (auto simp: release_recovered_def Let_def)
  qed
qed

lemma perform_auto_idle:
  assumes "faults w = []" "\<not> e_dry_run e" "perform_auto env num email trig e w = ((r, e'), w')"
  shows "faults w' = [] \<and> e_settings e' = e_settings e \<and> w_now w \<le> w_now w'
    \<and> (r = Inr Switched \<longrightarrow> (\<exists>t. last_switch w' = Some t \<and> w_now w \<le> t \<and> t \<le> w_now w')
          \<and> (trig = Proactive \<longrightarrow> \<not> in_cooldown e (state_of w) (w_now w)))
    \<and> (r \<noteq> Inr Switched \<longrightarrow> last_switch w' = last_switch w)"
proof (cases "trig = Proactive \<and> in_cooldown e (state_of w) (w_now w)")
  case True
  then show ?thesis
    using assms by (auto simp: perform_auto_def acquire_lock_idle read_state_idle emit_def)
next
  case False
  obtain q w1 where s: "switch_to (env_profile env) None num True False w = (q, w1)" by fastforce
  have t: "touches not_auto w w1" by (rule touches_result [OF s]) (intro frames; simp)
  have f: "faults w1 = []" by (rule touches_idle [OF t assms(1)])
  have k: "last_switch w1 = last_switch w" using state_of_not_auto [OF t] by (simp add: last_switch_def)
  note c = touches_clock [OF t]
  show ?thesis
  proof (cases "\<exists>res. q = Inr (Some res) \<and> res_switched res")
    case no: False
    then show ?thesis
      using assms False s f k c
      by (auto simp: perform_auto_def acquire_lock_idle read_state_idle emit_def split: sum.splits option.splits)
  next
    case True
    then obtain res where res: "q = Inr (Some res)" "res_switched res" by blast
    let ?st = "record_switch num (w_now w1) (state_of w)"
    have "distinct (gm_keys ?st)" unfolding record_switch_def by (intro distinct_gm_put distinct_state_of)
    from write_state_idle [OF f this] obtain w2 where w2: "write_state ?st w1 = (None, w2)" "state_of w2 = ?st" "faults w2 = []"
      "w_now w2 = w_now w1" by (cases "write_state ?st w1") auto
    then show ?thesis
      using assms False s res c
      by (auto simp: perform_auto_def acquire_lock_idle read_state_idle emit_def last_switch_def record_switch_def)
  qed
qed


section \<open>Cooldown\<close>

text \<open>
  What may happen between and inside ticks, of any number of engines: a switch decided by an engine on
  whatever it knew, a quarantine entry written or released, and any step of anything else that leaves the
  state file alone. The log has the trigger and the recorded time of each switch.
\<close>

inductive auto_run :: "rat \<Rightarrow> world \<Rightarrow> (trigger \<times> rat) list \<Rightarrow> world \<Rightarrow> bool" for c w0 where
  start: "auto_run c w0 [] w0"
| perform: "auto_run c w0 sw w \<Longrightarrow> faults w = [] \<Longrightarrow> \<not> e_dry_run e \<Longrightarrow> c \<le> as_cooldown (e_settings e) \<Longrightarrow>
    perform_auto env num email trig e w = ((r, e'), w') \<Longrightarrow>
    auto_run c w0 (if r = Inr Switched then sw @ [(trig, the (last_switch w'))] else sw) w'"
| quarantine: "auto_run c w0 sw w \<Longrightarrow> faults w = [] \<Longrightarrow> quarantine num email reason e w = ((q, e'), w') \<Longrightarrow> auto_run c w0 sw w'"
| release: "auto_run c w0 sw w \<Longrightarrow> faults w = [] \<Longrightarrow> release_recovered st e w = ((s, e'), w') \<Longrightarrow> auto_run c w0 sw w'"
| other: "auto_run c w0 sw w \<Longrightarrow> touches not_auto w w' \<Longrightarrow> auto_run c w0 sw w'"

definition spaced :: "rat \<Rightarrow> (trigger \<times> rat) list \<Rightarrow> bool" where
  "spaced c sw \<longleftrightarrow> (\<forall>i. Suc i < length sw \<longrightarrow> fst (sw ! Suc i) = Proactive \<longrightarrow> snd (sw ! i) + c \<le> snd (sw ! Suc i))"

lemma spaced_snoc:
  assumes "spaced c sw" "sw = [] \<or> trig \<noteq> Proactive \<or> snd (last sw) + c \<le> t"
  shows "spaced c (sw @ [(trig, t)])"
  using assms unfolding spaced_def
  by (auto simp: nth_append less_Suc_eq) (metis diff_Suc_1 last_conv_nth length_greater_0_conv zero_less_Suc)

lemma auto_run_invariant:
  "auto_run c w0 sw w \<Longrightarrow> spaced c sw \<and> (sw \<noteq> [] \<longrightarrow> last_switch w = Some (snd (last sw)))"
proof (induction rule: auto_run.induct)
  case (perform sw w e env num email trig r e' w')
  note p = perform_auto_idle [OF perform.hyps(2,3,5)]
  show ?case
  proof (cases "r = Inr Switched")
    case True
    then obtain t where t: "last_switch w' = Some t" "w_now w \<le> t" "trig = Proactive \<longrightarrow> \<not> in_cooldown e (state_of w) (w_now w)"
      using p by auto
    have "sw = [] \<or> trig \<noteq> Proactive \<or> snd (last sw) + c \<le> t"
      using perform.IH t perform.hyps(4) by (auto simp: in_cooldown_def last_switch_def [of w, symmetric])
    then show ?thesis using True t(1) spaced_snoc perform.IH by simp
  qed (use p perform.IH in simp)
next
  case (quarantine sw w num email reason e q e' w')
  then show ?case using quarantine_state_idle by metis
next
  case (release sw w st e s e' w')
  then show ?case using release_state_idle by metis
next
  case (other sw w w')
  then show ?case using state_of_not_auto [OF other.hyps(2)] by (simp add: last_switch_def)
qed (simp add: spaced_def)

text \<open>
  Property C2: the cooldown holds across processes. Whatever several engines do and in whatever order,
  as long as the state file can be read and written, a proactive switch comes at least the cooldown after
  the switch before it, whichever engine made that one and whatever triggered it.
\<close>

theorem proactive_switches_spaced:
  assumes "auto_run c w0 sw w" "Suc i < length sw" "fst (sw ! Suc i) = Proactive"
  shows "snd (sw ! i) + c \<le> snd (sw ! Suc i)"
  using auto_run_invariant [OF assms(1)] assms(2,3) by (simp add: spaced_def)


lemma emit_all: "\<exists>evs. foldl (\<lambda>e (num, email, why). emit (f num email why) e) e out = e\<lparr>e_events := evs\<rparr>"
proof (induction out arbitrary: e)
  case Nil
  show ?case by (rule exI [of _ "e_events e"]) simp
next
  case (Cons x out)
  obtain num email why where x: "x = (num, email, why)" by (metis surj_pair)
  show ?case using Cons.IH [of "emit (f num email why) e"] by (simp add: x emit_def)
qed

lemma release_engine:
  assumes "release_recovered st e w = ((r, e'), w')"
  shows "\<exists>evs. e' = e\<lparr>e_events := evs\<rparr>"
proof -
  have same: "\<exists>evs. e = e\<lparr>e_events := evs\<rparr>" by (rule exI [of _ "e_events e"]) simp
  obtain out w1 where o: "recovered (quarantine_map st) (slot_sorted (gm_keys (quarantine_map st))) w = (out, w1)" by fastforce
  obtain q w2 where m: "mutate_state (\<lambda>s. case as_map (mget s ''quarantine'') of None \<Rightarrow> s
      | Some sq \<Rightarrow> gm_put ''quarantine'' (JObj (foldl (\<lambda>m (num, _). gm_del num m) sq out)) s) w1 = (q, w2)" by fastforce
  have "e' = (if quarantine_map st = [] \<or> out = [] then e else case q of Inl _ \<Rightarrow> e
      | Inr _ \<Rightarrow> foldl (\<lambda>e (num, email, why). emit (EvUnquarantine num email why) e) e out)"
    using assms by (cases q) (simp_all add: release_recovered_def Let_def o m split: if_splits)
  then show ?thesis using emit_all [of EvUnquarantine e out] same by (cases q) (auto split: if_splits)
qed

lemma check_model_names_facts:
  "check_model_names quarantined usage e w = (e', w') \<Longrightarrow> touches {} w w' \<and> e_settings e' = e_settings e \<and> e_dry_run e' = e_dry_run e"
proof -
  assume a: "check_model_names quarantined usage e w = (e', w')"
  have "touches {} w (snd (check_model_names quarantined usage e w))"
    unfolding check_model_names_def Let_def by (intro frames; simp)
  then show ?thesis using a by (auto simp: check_model_names_def emit_def Let_def split: prod.splits if_splits)
qed

lemma decide_trigger_facts:
  "decide_trigger e active head now = (trig, e') \<Longrightarrow> e_settings e' = e_settings e \<and> e_dry_run e' = e_dry_run e"
  by (auto simp: decide_trigger_def emit_def Let_def split: option.splits if_splits)

lemma touches_collect_scheduled:
  assumes "\<And>S w. touches not_auto w (snd (env_collect env S w))" "collect_scheduled env e current q limit w = (es, w')"
  shows "touches not_auto w w'"
proof -
  have c: "touches not_auto w (snd (env_collect env S w1))" if "touches not_auto w w1" for S w1
    using touches_trans [OF that assms(1)] .
  have "touches not_auto w (snd (collect_scheduled env e current q limit w))"
    unfolding collect_scheduled_def Let_def by (intro frames c; simp)
  then show ?thesis using assms(2) by simp
qed

lemma try_targets_run:
  assumes "\<not> e_dry_run e" "c \<le> as_cooldown (e_settings e)" "faults w = []" "auto_run c w0 sw w"
    "try_targets env trig nums transient e w = ((out, e'), w')"
  shows "\<exists>t. auto_run c w0 (if out = Inr Switched then sw @ [(trig, t)] else sw) w'"
  using assms
proof (induction nums arbitrary: transient e w)
  case (Cons num nums)
  let ?email = "account_email num w"
  obtain f w1 where f: "freshen_target env num ?email w = (f, w1)" by fastforce
  have t: "touches not_auto w w1" by (rule touches_result [OF f]) (intro frames; simp)
  have w1: "faults w1 = []" "auto_run c w0 sw w1"
    using touches_idle [OF t] Cons.prems(3) auto_run.other [OF Cons.prems(4) t] by simp_all
  consider (fail) err where "f = Inl err" | (fresh) "f = Inr Fresh" | (live) "f = Inr LiveSession" | (trans) "f = Inr Transient"
    | (bad) fr where "f = Inr fr" "fr = InvalidGrant \<or> fr = IdentityConflict"
    by (metis freshness.exhaust sum.exhaust)
  then show ?case
  proof cases
    case fail
    then show ?thesis using Cons.prems f w1 by auto
  next
    case fresh
    obtain r e2 w2 where p: "perform_auto env num ?email trig e w1 = ((r, e2), w2)" by (metis surj_pair)
    then show ?thesis
      using auto_run.perform [OF w1(2,1) Cons.prems(1,2) p] Cons.prems(1,5) f fresh by auto
  next
    case live
    then show ?thesis using Cons.IH [OF Cons.prems(1,2) w1(1,2)] Cons.prems(1,5) f by simp
  next
    case trans
    then show ?thesis using Cons.IH [OF Cons.prems(1,2) w1(1,2)] Cons.prems(1,5) f by simp
  next
    case bad
    let ?why = "if fr = IdentityConflict then ''identity-conflict'' else ''invalid_grant''"
    obtain r e2 w2 where p: "quarantine num ?email ?why e w1 = ((r, e2), w2)" by (metis surj_pair)
    have n: "auto_run c w0 sw w2" "faults w2 = []" "e_settings e2 = e_settings e"
      using auto_run.quarantine [OF w1(2,1) p] quarantine_state_idle [OF w1(1) p] by simp_all
    have d: "e_dry_run e2 = e_dry_run e"
      using p by (auto simp: quarantine_def emit_def split: prod.splits sum.splits)
    have rest: "try_targets env trig (num # nums) transient e w
        = (case r of Some err \<Rightarrow> ((Inl err, e2), w2) | None \<Rightarrow> try_targets env trig nums transient e2 w2)"
      using bad f p Cons.prems(1) by (auto split: option.split)
    show ?thesis
      using Cons.prems(1,2,5) Cons.IH [of e2 w2 transient] n d unfolding rest by (cases r) auto
  qed
qed (auto split: if_splits)

lemma decide_trigger_sound:
  assumes "decide_trigger e active head now = (Some trig, e')"
  shows "case trig of
      Proactive \<Rightarrow> \<exists>a. head = Some a \<and> 0 < a \<and> as_threshold (e_settings e) \<le> 100 - a
    | AtLimit \<Rightarrow> \<exists>a. head = Some a \<and> a \<le> 0
    | Failover \<Rightarrow> head = None \<and> as_unhealthy (e_settings e) \<le> e_unhealthy e + 1"
  using assms by (auto simp: decide_trigger_def Let_def split: option.splits if_splits trigger.splits)


lemma in_cooldown_settings: "e_settings e' = e_settings e \<Longrightarrow> in_cooldown e' = in_cooldown e"
  by (intro ext) (simp add: in_cooldown_def split: option.split)

lemma in_cooldown_later: "\<not> in_cooldown e st t \<Longrightarrow> t \<le> t' \<Longrightarrow> \<not> in_cooldown e st t'"
  by (auto simp: in_cooldown_def split: option.splits)

lemma check_model_names_fields:
  "check_model_names quarantined usage e w = (e', w') \<Longrightarrow> e_models e' = e_models e \<and> e_unhealthy e' = e_unhealthy e"
  by (auto simp: check_model_names_def emit_def Let_def split: prod.splits if_splits)

lemma decide_trigger_models: "decide_trigger e active head now = (trig, e') \<Longrightarrow> e_models e' = e_models e"
  by (auto simp: decide_trigger_def emit_def Let_def split: option.splits if_splits)

text \<open>
  A tick with a managed account either ends without a switch or comes to the targets \<open>ordered\<close> at the
  moment \<open>v\<close>, when the rotation is read for the last time.
\<close>

lemma tick_managed_steps:
  assumes "tick_managed env st current e w = ((out, e'), w')"
    and "\<And>S w. touches not_auto w (snd (env_collect env S w))"
  obtains (stay) "touches not_auto w w'" "out \<noteq> Inr Switched"
  | (go) es e2 tr w2 v nums ordered oauth known where "touches not_auto w v" "\<exists>S u u'. env_collect env S u = (es, u')"
      "e_settings e2 = e_settings e" "e_dry_run e2 = e_dry_run e" "e_models e2 = e_models e"
      "tr = Proactive \<longrightarrow> \<not> in_cooldown e st (w_now v)"
      "case tr of
         Proactive \<Rightarrow> \<exists>a. headroom_of (usage_value (decision_values es) current) (e_models e) = Some a \<and> 0 < a \<and> as_threshold (e_settings e) \<le> 100 - a
       | AtLimit \<Rightarrow> \<exists>a. headroom_of (usage_value (decision_values es) current) (e_models e) = Some a \<and> a \<le> 0
       | Failover \<Rightarrow> headroom_of (usage_value (decision_values es) current) (e_models e) = None \<and> as_unhealthy (e_settings e) \<le> e_unhealthy e + 1"
      "switchable_account_numbers w2 = (nums, v)" "touches {} w2 v"
      "select_targets e2 tr (headroom_of (usage_value (decision_values es) current) (e_models e)) (usage_value (decision_values es))
         (\<lambda>n. kind_of n v) (filter (\<lambda>n. n \<noteq> current \<and> n \<notin> quarantined_set st) nums) = Selected ordered oauth known"
      "try_targets env tr ordered False e2 v = ((out, e'), w')"
proof -
  let ?q = "quarantined_set st"
  obtain es w1 where es: "collect_scheduled env e current ?q (as_threshold (e_settings e)) w = (es, w1)" by fastforce
  have coll: "\<exists>S u u'. env_collect env S u = (es, u')"
    using es unfolding collect_scheduled_def Let_def by (auto split: prod.splits if_splits)
  define usage where "usage = decision_values es"
  let ?hd = "\<lambda>n. headroom_of (usage_value usage n) (e_models e)"
  define e0 where "e0 = emit (EvPoll (Some (ref_of current (account_email current w))) (slot_sorted (map fst usage))
      (map (\<lambda>(n, _). (n, ?hd n)) usage) (as_threshold (e_settings e)) (fetch_errors es) (window_pcts usage (e_models e))) e"
  have e0: "e_settings e0 = e_settings e" "e_dry_run e0 = e_dry_run e" "e_models e0 = e_models e" "e_unhealthy e0 = e_unhealthy e"
    by (simp_all add: e0_def emit_def)
  obtain e1 w2 where c: "(if e_model_checked e0 then (e0, w1) else check_model_names ?q usage e0 w1) = (e1, w2)" by fastforce
  have e1: "touches {} w1 w2" "e_settings e1 = e_settings e" "e_dry_run e1 = e_dry_run e" "e_models e1 = e_models e" "e_unhealthy e1 = e_unhealthy e"
    using c check_model_names_facts [of ?q usage e0 w1] check_model_names_fields [of ?q usage e0 w1] e0 by (auto split: if_splits)
  have t2: "touches not_auto w w2"
    using touches_trans [OF touches_collect_scheduled [OF assms(2) es]] touches_mono [OF e1(1), of not_auto] by simp
  obtain trig e2 where dt: "decide_trigger e1 (usage_value usage current) (?hd current) (w_now w2) = (trig, e2)" by fastforce
  have e2: "e_settings e2 = e_settings e" "e_dry_run e2 = e_dry_run e" "e_models e2 = e_models e"
    using decide_trigger_facts [OF dt] decide_trigger_models [OF dt] e1 by simp_all
  have eq: "tick_managed env st current e w =
      (if kind_of current w2 = ''api_key'' \<and> \<not> as_api_keys (e_settings e) then ((Inr NoAction, emit (EvNoSwitch ''active-api-key'') e1), w2)
       else (case trig of None \<Rightarrow> ((Inr NoAction, e2), w2)
             | Some tr \<Rightarrow> if tr = Proactive \<and> in_cooldown e2 st (w_now w2) then ((Inr NoAction, emit (EvNoSwitch ''cooldown'') e2), w2)
                          else tick_switch env tr (?hd current) usage ?q current e2 w2))"
    unfolding tick_managed_def Let_def es prod.case usage_def [symmetric] e0_def [symmetric] c dt ..
  show thesis
  proof (cases "\<exists>tr. trig = Some tr \<and> \<not> (tr = Proactive \<and> in_cooldown e st (w_now w2))
        \<and> tick_switch env tr (?hd current) usage ?q current e2 w2 = ((out, e'), w')")
    case False
    then have "w' = w2 \<and> out \<noteq> Inr Switched"
      using assms(1) in_cooldown_settings [OF e2(1)] unfolding eq by (auto split: if_splits option.splits)
    then show thesis using stay t2 by simp
  next
    case True
    then obtain tr where tr: "trig = Some tr" "tr = Proactive \<longrightarrow> \<not> in_cooldown e st (w_now w2)"
      and ts: "tick_switch env tr (?hd current) usage ?q current e2 w2 = ((out, e'), w')" by blast
    obtain nums v where n: "switchable_account_numbers w2 = (nums, v)" by fastforce
    have t3: "touches {} w2 v" by (rule touches_result [OF n]) (intro frames; simp)
    have tv: "touches not_auto w v" using touches_trans [OF t2] touches_mono [OF t3, of not_auto] by simp
    have cool: "tr = Proactive \<longrightarrow> \<not> in_cooldown e st (w_now v)" using tr(2) in_cooldown_later touches_clock [OF t3] by blast
    show thesis
    proof (cases "\<exists>ordered oauth known. select_targets e2 tr (?hd current) (usage_value usage) (\<lambda>n. kind_of n v)
          (filter (\<lambda>n. n \<noteq> current \<and> n \<notin> ?q) nums) = Selected ordered oauth known
        \<and> try_targets env tr ordered False e2 v = ((out, e'), w')")
      case True
      moreover have "case tr of
           Proactive \<Rightarrow> \<exists>a. ?hd current = Some a \<and> 0 < a \<and> as_threshold (e_settings e) \<le> 100 - a
         | AtLimit \<Rightarrow> \<exists>a. ?hd current = Some a \<and> a \<le> 0
         | Failover \<Rightarrow> ?hd current = None \<and> as_unhealthy (e_settings e) \<le> e_unhealthy e + 1"
        using decide_trigger_sound [OF dt [unfolded tr(1)]] e1(2,5) by (cases tr) simp_all
      ultimately show thesis using go [OF tv coll e2 cool _ n t3] unfolding usage_def by blast
    next
      case False
      then have "w' = v" "out \<noteq> Inr Switched"
        using ts n by (auto simp: tick_switch_def Let_def split: selection.splits if_splits)
      then show thesis using stay tv by simp
    qed
  qed
qed

lemma tick_managed_run:
  assumes "auto_run c w0 sw w" "faults w = []" "\<not> e_dry_run e" "c \<le> as_cooldown (e_settings e)"
    and "\<And>S w. touches not_auto w (snd (env_collect env S w))"
    and "tick_managed env st current e w = ((out, e'), w')"
  shows "\<exists>trig t. auto_run c w0 (if out = Inr Switched then sw @ [(trig, t)] else sw) w'"
  using assms(6,5)
proof (cases rule: tick_managed_steps)
  case stay
  then show ?thesis using auto_run.other [OF assms(1) stay(1)] by auto
next
  case (go es e2 tr w2 v nums ordered oauth known)
  have "\<not> e_dry_run e2" "c \<le> as_cooldown (e_settings e2)" "faults v = []" "auto_run c w0 sw v"
    using go(3,4) assms(3,4) touches_idle [OF go(1) assms(2)] auto_run.other [OF assms(1) go(1)] by simp_all
  then show ?thesis using try_targets_run go(11) by blast
qed

text \<open>
  A tick, whatever it reads and decides, is a sequence of the steps above, with exactly one
  switch when its outcome is a switch and none otherwise. So the cooldown holds for whole ticks and for any
  interleaving of their parts.
\<close>

theorem tick_is_run:
  assumes "auto_run c w0 sw w" "faults w = []" "\<not> e_dry_run e" "c \<le> as_cooldown (e_settings e)"
    and "\<And>S w. touches not_auto w (snd (env_collect env S w))"
    and "tick env e w = ((outcome, e'), w')"
  shows "\<exists>trig t. auto_run c w0 (if outcome = Switched then sw @ [(trig, t)] else sw) w'"
proof -
  let ?e = "e\<lparr>e_sleep_until := None, e_blocked_long := False, e_idle_slow := False\<rparr>"
  obtain r e1 w1 where i: "release_recovered (state_of w) ?e w = ((r, e1), w1)" by (metis surj_pair)
  note run1 = auto_run.release [OF assms(1,2) i]
  have idle1: "faults w1 = []" and s1: "e_settings e1 = e_settings e" using release_state_idle [OF assms(2) i] by simp_all
  have d1: "\<not> e_dry_run e1" using release_engine [OF i] assms(3) by auto
  obtain o2 e2 w2 where tk: "tick_inner env e w = ((o2, e2), w2)" by (metis surj_pair)
  have out: "w' = w2" "outcome = Switched \<longleftrightarrow> o2 = Inr Switched"
    using assms(6) tk by (auto simp: tick_def split: sum.splits)
  show ?thesis
  proof (cases r)
    case (Inl err)
    then show ?thesis using out tk i run1 assms(2,3) by (auto simp: tick_inner_def read_state_idle)
  next
    case st: (Inr st)
    show ?thesis
    proof (cases "current_account_number w1")
      case None
      then show ?thesis using out tk i st run1 assms(2,3) by (auto simp: tick_inner_def read_state_idle)
    next
      case (Some current)
      then have m: "tick_managed env st current e1 w1 = ((o2, e2), w2)"
        using tk i st assms(2,3) by (simp add: tick_inner_def read_state_idle)
      have "\<exists>trig t. auto_run c w0 (if o2 = Inr Switched then sw @ [(trig, t)] else sw) w2"
        by (rule tick_managed_run [OF run1 idle1 d1 _ assms(5) m]) (simp add: s1 assms(4))
      then show ?thesis using out by simp
    qed
  qed
qed


section \<open>Why a switch happens\<close>

lemma switch_to_switched:
  assumes "is_digits num" "switch_to profile asker num True force w = (Inr (Some res), w')" "res_switched res"
  shows "\<exists>email. switched_to num email w'"
proof -
  obtain q w1 where sm: "sequence_migrated w = (q, w1)" by fastforce
  obtain data where data: "seq_file w \<noteq> SeqMissing" "q \<noteq> Inl e" "read_sequence (seq_file w1) = Inr data" for e
    using assms(2) sm by (auto simp: switch_to_def split: if_splits sum.splits)
  have ch: "chosen_identifier asker True data num = Inr (Some num)" using assms(1) by (simp add: chosen_identifier_def)
  obtain target e org w2 where ra: "resolve_account num w1 = (Inr (target, e, org), w2)"
    using assms(2) sm data ch by (auto simp: switch_to_def split: if_splits sum.splits prod.splits)
  have target: "target = num"
    using ra assms(1) by (auto simp: resolve_account_def resolve_identifier_def split: prod.splits sum.splits option.splits if_splits)
  have "\<exists>given v op. perform_switch profile num force given v = (Inr op, w')"
    using assms(2,3) sm data ch ra target
    by (auto simp: switch_to_def Let_def switch_noop_def split: if_splits sum.splits prod.splits self_action.splits)
  then show ?thesis using perform_switch_ok by blast
qed


text \<open>What justifies switching from one slot to another on the state file, the usage and the roster of a moment.\<close>

definition justified ::
  "engine \<Rightarrow> string \<Rightarrow> (string \<times> decision) list \<Rightarrow> world \<Rightarrow> trigger \<Rightarrow> string \<Rightarrow> bool" where
  "justified e current usage v trig num \<longleftrightarrow>
     (let s = e_settings e; h = (\<lambda>n. headroom_of (usage_value usage n) (e_models e))
      in num \<noteq> current \<and> num \<notin> quarantined_set (state_of v)
         \<and> (\<exists>d. w_roster v = Some d \<and> num \<in> itoa ` set (seq_nums d) \<and> eligible d v num)
         \<and> (if kind_of num v = ''api_key'' then as_api_keys s else (\<exists>x. h num = Some x \<and> 0 < x))
         \<and> (case trig of
              Proactive \<Rightarrow>
                \<not> in_cooldown e (state_of v) (w_now v)
                \<and> (\<exists>a. h current = Some a \<and> 0 < a \<and> as_threshold s \<le> 100 - a
                     \<and> (kind_of num v \<noteq> ''api_key'' \<longrightarrow>
                          (\<exists>x. h num = Some x \<and> 100 - x < as_threshold s \<and> a + as_hysteresis s \<le> x)))
            | AtLimit \<Rightarrow> (\<exists>a. h current = Some a \<and> a \<le> 0)
            | Failover \<Rightarrow> h current = None \<and> as_unhealthy s \<le> e_unhealthy e + 1))"

lemma perform_auto_switched:
  assumes "perform_auto env num email trig e w = ((Inr Switched, e'), w')" "\<not> e_dry_run e" "is_digits num"
  shows "\<exists>em. switched_to num em w'"
proof -
  obtain l w0 where l: "acquire_lock w = (l, w0)" by fastforce
  obtain st w1 where st: "read_state w0 = (st, w1)" by fastforce
  obtain q w2 where s: "switch_to (env_profile env) None num True False w1 = (q, w2)" by fastforce
  obtain res st' where r: "q = Inr (Some res)" "res_switched res" "write_state st' w2 = (None, w')"
    using assms(1,2) l st s
    by (auto simp: perform_auto_def Let_def split: if_splits option.splits sum.splits prod.splits)
  obtain em where sw: "switched_to num em w2" using switch_to_switched [OF assms(3)] s r(1,2) by blast
  have "touches {RUsage, RAuto} w2 w'"
    by (rule touches_result [OF r(3)]) (unfold write_state_def, intro frames; simp)
  moreover have "kc_state w' = kc_state w2"
    using r(3) by (auto simp: write_state_def kc_state_def dest!: os_atomic_None)
  ultimately show ?thesis using switched_to_kept [OF sw] by blast
qed

lemma try_targets_switched:
  assumes "try_targets env trig nums transient e w = ((Inr Switched, e'), w')" "\<not> e_dry_run e"
  shows "\<exists>num \<in> set nums. is_digits num \<longrightarrow> (\<exists>em. switched_to num em w')"
  using assms
proof (induction nums arbitrary: transient e w)
  case (Cons num nums)
  let ?email = "account_email num w"
  obtain f w1 where f: "freshen_target env num ?email w = (f, w1)" by fastforce
  obtain why where q: "(case f of Inr fr \<Rightarrow> why = (if fr = IdentityConflict then ''identity-conflict'' else ''invalid_grant'') | _ \<Rightarrow> True)"
    by (cases f) auto
  obtain r e2 w2 where p: "quarantine num ?email why e w1 = ((r, e2), w2)" by (metis surj_pair)
  have d: "e_dry_run e2 = e_dry_run e"
    using p by (auto simp: quarantine_def emit_def split: prod.splits sum.splits)
  have "perform_auto env num ?email trig e w1 = ((Inr Switched, e'), w')
      \<or> (\<exists>tr e3 w3. try_targets env trig nums tr e3 w3 = ((Inr Switched, e'), w') \<and> e_dry_run e3 = e_dry_run e)"
    using Cons.prems(1,2) f p q d by (cases f) (auto simp: Let_def split: freshness.splits option.splits)
  then show ?case
  proof
    assume "perform_auto env num ?email trig e w1 = ((Inr Switched, e'), w')"
    then show ?thesis using perform_auto_switched [of env num ?email trig e w1 e' w'] Cons.prems(2) by auto
  next
    assume "\<exists>tr e3 w3. try_targets env trig nums tr e3 w3 = ((Inr Switched, e'), w') \<and> e_dry_run e3 = e_dry_run e"
    then show ?thesis using Cons.IH Cons.prems(2) by (metis list.set_intros(2))
  qed
qed (auto split: if_splits)

lemma qualifying_sound:
  "q_num ` set (qualifying_targets e trig active usage nums)
     = {n \<in> set nums. \<exists>h. headroom_of (usage n) (e_models e) = Some h \<and> qualifies (e_settings e) trig active h}"
  by (induction nums) (auto simp: qualifying_targets_def List.map_filter_simps split: option.splits)

lemma select_targets_sound:
  assumes "select_targets e trig active usage kind cands = Selected ordered oauth known" "num \<in> set ordered"
  shows "num \<in> set cands \<and> (if kind num = ''api_key'' then as_api_keys (e_settings e)
     else (\<exists>h. headroom_of (usage num) (e_models e) = Some h \<and> qualifies (e_settings e) trig active h))"
proof -
  let ?oauth = "filter (\<lambda>n. kind n \<noteq> ''api_key'') cands"
  let ?keys = "if as_api_keys (e_settings e) then filter (\<lambda>n. kind n = ''api_key'') cands else []"
  let ?ord = "map q_num (sort_stable (qual_less (as_strategy (e_settings e)) (as_threshold (e_settings e)))
      (qualifying_targets e trig active usage ?oauth))"
  have "ordered = (if ?ord = [] then ?keys else ?ord)"
    using assms(1) by (simp add: select_targets_def Let_def split: if_splits)
  then have "num \<in> set ?keys \<or> num \<in> q_num ` set (qualifying_targets e trig active usage ?oauth)"
    using assms(2) by (auto split: if_splits)
  then show ?thesis unfolding qualifying_sound by (auto split: if_splits)
qed

lemma switchable_sound:
  assumes "num \<in> set (fst (switchable_account_numbers w))"
  shows "\<exists>d. w_roster w = Some d \<and> num \<in> itoa ` set (seq_nums d) \<and> eligible d w num"
proof (cases "w_roster w")
  case (Some d)
  have "subseq (fst (eligible_in_order (Some d) (seq_nums d) w)) (map itoa (seq_nums d))"
    "\<forall>n \<in> set (fst (eligible_in_order (Some d) (seq_nums d) w)). eligible d w n"
    using eligible_in_order_facts [OF Some, of "seq_nums d"] by simp_all
  then show ?thesis using assms Some by (auto simp: switchable_account_numbers_def dest: list_emb_set)
qed (use assms in \<open>simp add: switchable_account_numbers_def\<close>)

lemma tick_managed_justified:
  assumes "tick_managed env st current e w = ((Inr Switched, e'), w')" "\<not> e_dry_run e"
    and "\<And>S w. touches not_auto w (snd (env_collect env S w))" and "st = state_of w"
  shows "\<exists>v es num. touches not_auto w v \<and> (\<exists>S u u'. env_collect env S u = (es, u'))
    \<and> (\<exists>trig. justified e current (decision_values es) v trig num) \<and> (is_digits num \<longrightarrow> (\<exists>em. switched_to num em w'))"
  using assms(1,3)
proof (cases rule: tick_managed_steps)
  case (go es e2 tr w2 v nums ordered oauth known)
  obtain num where num: "num \<in> set ordered" "is_digits num \<longrightarrow> (\<exists>em. switched_to num em w')"
    using try_targets_switched [OF go(11)] go(4) assms(2) by auto
  have st: "state_of v = st" using state_of_not_auto [OF go(1)] assms(4) by simp
  note sel = select_targets_sound [OF go(10) num(1)]
  have "num \<in> set nums" using sel by simp
  then obtain d where "w_roster w2 = Some d" "num \<in> itoa ` set (seq_nums d)" "eligible d w2 num"
    using switchable_sound [of num w2] go(8) by auto
  moreover have "w_roster v = w_roster w2" using touches_same [OF go(9), of RSeq] by (simp add: w_roster_def)
  moreover have "eligible d v num = eligible d w2 num" by (rule eligible_touches [OF go(9)])
  ultimately have "justified e current (decision_values es) v tr num"
    using sel go(3,5,6,7) unfolding justified_def Let_def st
    by (cases tr) (auto simp: qualifies_def split: if_splits)
  then show ?thesis using go(1,2) num(2) by blast
qed simp


text \<open>
  Property C1: an automatic switch is justified. When the files can be read, a tick that reports a switch
  moved to a slot that at the moment \<open>v\<close> of the decision is in rotation (enabled and backed up), is not the
  active one, is not quarantined, and has known headroom left, or is an API-key slot and these are
  allowed. A proactive switch happens only when the active account has reached the threshold without being
  at its limit, no cooldown is running, and an OAuth target is below the threshold and ahead by the hysteresis
  margin; a failover only after the configured number of unreadable polls. Afterwards that slot is the one
  Claude Code is logged in with.
\<close>

theorem automatic_switch_justified:
  assumes "tick env e w = ((Switched, e'), w')" "\<not> e_dry_run e" "faults w = []"
    and "\<And>S w. touches not_auto w (snd (env_collect env S w))"
  shows "\<exists>v0 v current es num trig. current_account_number v0 = Some current \<and> touches {RAuto} w v0 \<and> touches not_auto v0 v
    \<and> (\<exists>S u u'. env_collect env S u = (es, u')) \<and> justified e current (decision_values es) v trig num
    \<and> (is_digits num \<longrightarrow> (\<exists>em. switched_to num em w'))"
proof -
  let ?e = "e\<lparr>e_sleep_until := None, e_blocked_long := False, e_idle_slow := False\<rparr>"
  obtain r e1 w1 where i: "release_recovered (state_of w) ?e w = ((r, e1), w1)" by (metis surj_pair)
  obtain evs where e1: "e1 = ?e\<lparr>e_events := evs\<rparr>" using release_engine [OF i] by blast
  obtain o2 e2 where tk: "tick_inner env e w = ((o2, e2), w')" "o2 = Inr Switched"
    using assms(1) by (auto simp: tick_def split: prod.splits sum.splits)
  obtain st current where st: "r = Inr st" "current_account_number w1 = Some current"
      "tick_managed env st current e1 w1 = ((Inr Switched, e2), w')"
    using tk i assms(2,3) by (auto simp: tick_inner_def read_state_idle split: sum.splits option.splits)
  have q: "st = state_of w1" "touches {RAuto} w w1" using release_state_idle [OF assms(3) i] st(1) by simp_all
  have "\<not> e_dry_run e1" using e1 assms(2) by simp
  from tick_managed_justified [OF st(3) this assms(4) q(1)] obtain v es num trig where
    v: "touches not_auto w1 v" "\<exists>S u u'. env_collect env S u = (es, u')" "justified e1 current (decision_values es) v trig num"
      "is_digits num \<longrightarrow> (\<exists>em. switched_to num em w')" by blast
  have "in_cooldown e1 = in_cooldown e" by (rule in_cooldown_settings) (simp add: e1)
  then have "justified e current (decision_values es) v trig num"
    using v(3) by (cases trig) (simp_all add: justified_def e1)
  then show ?thesis using st(2) q(2) v by blast
qed

section \<open>The order of the targets\<close>

text \<open>The comparators compare a key lexicographically.\<close>

definition qual_key :: "string \<Rightarrow> rat \<Rightarrow> qual \<Rightarrow> nat \<times> (nat \<times> rat) \<times> rat" where
  "qual_key strategy limit q =
     (if strategy \<noteq> ''soonest-reset'' then (0, (0, 0), - q_headroom q)
      else if 100 - q_headroom q < limit
      then (0, case q_renewal q of Some t \<Rightarrow> (0, t) | None \<Rightarrow> (1, 0), - q_headroom q)
      else (1, (0, 0), - q_headroom q))"

lemma qual_less_key: "qual_less strategy limit a b \<longleftrightarrow> qual_key strategy limit a < qual_key strategy limit b"
  by (cases "strategy = ''soonest-reset''"; cases "100 - q_headroom a < limit"; cases "100 - q_headroom b < limit";
      cases "q_renewal a"; cases "q_renewal b"; auto simp: qual_less_def qual_key_def)

interpretation qual: strict_weak "qual_less strategy limit" for strategy limit
  by unfold_locales (auto simp: qual_less_key)

lemma qualifying_facts:
  "q \<in> set (qualifying_targets e trig active usage nums) \<Longrightarrow>
     headroom_of (usage (q_num q)) (e_models e) = Some (q_headroom q) \<and> q_renewal q = renewal_of (usage (q_num q)) (e_models e)"
  by (induction nums) (auto simp: qualifying_targets_def List.map_filter_simps split: option.splits if_splits)

lemma ordered_targets:
  assumes "select_targets e trig active usage kind cands = Selected ordered oauth known"
    "i < length ordered" "kind (ordered ! i) \<noteq> ''api_key''"
  obtains qs where "ordered = map q_num qs" "sorted_wrt (\<lambda>a b. \<not> qual_less (as_strategy (e_settings e)) (as_threshold (e_settings e)) b a) qs"
    "\<forall>q \<in> set qs. headroom_of (usage (q_num q)) (e_models e) = Some (q_headroom q) \<and> q_renewal q = renewal_of (usage (q_num q)) (e_models e)"
proof -
  let ?oauth = "filter (\<lambda>n. kind n \<noteq> ''api_key'') cands"
  let ?keys = "if as_api_keys (e_settings e) then filter (\<lambda>n. kind n = ''api_key'') cands else []"
  let ?qs = "sort_stable (qual_less (as_strategy (e_settings e)) (as_threshold (e_settings e))) (qualifying_targets e trig active usage ?oauth)"
  have o: "ordered = (if map q_num ?qs = [] then ?keys else map q_num ?qs)"
    using assms(1) by (simp add: select_targets_def Let_def split: if_splits)
  have "map q_num ?qs \<noteq> []"
  proof
    assume none: "map q_num ?qs = []"
    have "ordered = ?keys" by (rule trans [OF o if_P [OF none]])
    then have "ordered ! i \<in> set ?keys" using nth_mem [OF assms(2)] by (simp only:)
    then show False using assms(3) by (auto split: if_splits)
  qed
  from trans [OF o if_not_P [OF this]] have "ordered = map q_num ?qs" .
  moreover have "\<forall>q \<in> set ?qs. headroom_of (usage (q_num q)) (e_models e) = Some (q_headroom q) \<and> q_renewal q = renewal_of (usage (q_num q)) (e_models e)"
    using qualifying_facts by simp
  ultimately show thesis by (rule that [OF _ qual.sorted_sort])
qed

text \<open>
  Property C5: the order of the targets. With \<open>best\<close> an earlier target never has less headroom than a
  later one. With \<open>soonest-reset\<close> a target at or above the threshold never comes before one below it; among
  those below it one whose weekly renewal is unknown never comes before a known one, nor a later
  renewal before an earlier one; and with equal renewals, or at or above the threshold, headroom decides.
\<close>

theorem target_order:
  fixes usage :: "string \<Rightarrow> decision" and e :: engine
  assumes "select_targets e trig active usage kind cands = Selected ordered oauth known"
    "i < j" "j < length ordered" "kind (ordered ! i) \<noteq> ''api_key''"
  defines "n \<equiv> ordered ! i" and "m \<equiv> ordered ! j"
    and "head \<equiv> (\<lambda>n. the (headroom_of (usage n) (e_models e)))" and "renewal \<equiv> (\<lambda>n. renewal_of (usage n) (e_models e))"
    and "below \<equiv> (\<lambda>n. 100 - the (headroom_of (usage n) (e_models e)) < as_threshold (e_settings e))"
  shows "if as_strategy (e_settings e) = ''soonest-reset''
    then (below m \<longrightarrow> below n)
      \<and> (below m \<longrightarrow> (\<forall>y. renewal m = Some y \<longrightarrow> (\<exists>x. renewal n = Some x \<and> x \<le> y)))
      \<and> (\<not> below n \<or> below m \<and> renewal n = renewal m \<longrightarrow> head m \<le> head n)
    else head m \<le> head n"
proof -
  obtain qs where qs: "ordered = map q_num qs" "sorted_wrt (\<lambda>a b. \<not> qual_less (as_strategy (e_settings e)) (as_threshold (e_settings e)) b a) qs"
    "\<forall>q \<in> set qs. headroom_of (usage (q_num q)) (e_models e) = Some (q_headroom q) \<and> q_renewal q = renewal_of (usage (q_num q)) (e_models e)"
    by (rule ordered_targets [OF assms(1) less_trans [OF assms(2,3)] assms(4)])
  have l: "i < length qs" "j < length qs" using assms(2,3) qs(1) by simp_all
  have "\<not> qual_less (as_strategy (e_settings e)) (as_threshold (e_settings e)) (qs ! j) (qs ! i)"
    using sorted_wrt_nth_less [OF qs(2) assms(2) l(2)] .
  moreover have "head n = q_headroom (qs ! i)" "head m = q_headroom (qs ! j)" "renewal n = q_renewal (qs ! i)" "renewal m = q_renewal (qs ! j)"
    using qs(1,3) l by (simp_all add: n_def m_def head_def renewal_def)
  moreover have "below n \<longleftrightarrow> 100 - q_headroom (qs ! i) < as_threshold (e_settings e)"
    "below m \<longleftrightarrow> 100 - q_headroom (qs ! j) < as_threshold (e_settings e)"
    using qs(1,3) l by (simp_all add: n_def m_def below_def)
  ultimately show ?thesis
    by (cases "as_strategy (e_settings e) = ''soonest-reset''"; cases "below n"; cases "below m"; cases "q_renewal (qs ! i)"; cases "q_renewal (qs ! j)";
        auto simp: qual_less_def split: if_splits)
qed

section \<open>The pause between ticks\<close>

text \<open>
  The pause between ticks. For an interval within the range of the settings and a jitter below
  one, the pause is at least nine tenths of the interval and at most six hours; when all accounts are
  exhausted and a recovery is known, the engine sleeps until then or for the six hours.
\<close>

theorem next_delay_bounds:
  assumes "15 \<le> as_interval (e_settings e)" "as_interval (e_settings e) \<le> 3600" "0 \<le> jitter" "jitter < 1"
  shows "9 / 10 * as_interval (e_settings e) \<le> next_delay e outcome now jitter \<and> next_delay e outcome now jitter \<le> 21600
    \<and> (outcome = Blocked \<and> e_sleep_until e = Some t \<longrightarrow>
         t \<le> now + next_delay e outcome now jitter \<or> next_delay e outcome now jitter = 21600)"
proof -
  let ?i = "as_interval (e_settings e)"
  have p: "9 / 10 * ?i \<le> ?i * (9 / 10 + 2 / 10 * jitter)" "?i * (9 / 10 + 2 / 10 * jitter) \<le> 3960"
  proof -
    have "0 \<le> ?i * jitter" using assms by simp
    then show "9 / 10 * ?i \<le> ?i * (9 / 10 + 2 / 10 * jitter)" by (simp add: distrib_left mult.commute)
    have "?i * (9 / 10 + 2 / 10 * jitter) \<le> 3600 * (9 / 10 + 2 / 10 * 1)" using assms by (intro mult_mono) auto
    then show "?i * (9 / 10 + 2 / 10 * jitter) \<le> 3960" by simp
  qed
  then show ?thesis using assms
    by (auto simp: next_delay_def Let_def max_sleep_s_def no_reset_fallback_s_def min_def max_def split: tick_outcome.split option.split)
qed


section \<open>Recovery\<close>

lemma limiting_fold:
  "foldl (\<lambda>best wd. if rw_pct wd < 100 then best else later best (parse_reset_ts (rw_resets wd))) best ws
     = foldl later best (map (\<lambda>wd. parse_reset_ts (rw_resets wd)) (filter (\<lambda>wd. 100 \<le> rw_pct wd) ws))"
  by (induction ws arbitrary: best) auto

lemma limiting_reset_latest:
  assumes "limiting_reset_of v models = Some t"
  shows "(\<exists>wd \<in> set (relevant_windows_of v models). 100 \<le> rw_pct wd \<and> parse_reset_ts (rw_resets wd) = Some t)
    \<and> (\<forall>wd \<in> set (relevant_windows_of v models). \<forall>x. 100 \<le> rw_pct wd \<longrightarrow> parse_reset_ts (rw_resets wd) = Some x \<longrightarrow> x \<le> t)"
proof -
  let ?xs = "map (\<lambda>wd. parse_reset_ts (rw_resets wd)) (filter (\<lambda>wd. 100 \<le> rw_pct wd) (relevant_windows_of v models))"
  have l: "latest_of ?xs = Some t" using assms by (simp add: limiting_reset_of_def limiting_fold latest_of_def)
  have "Some t \<in> set ?xs" using latest_of_mem [OF l] by simp
  moreover have "x \<le> t" if "wd \<in> set (relevant_windows_of v models)" "100 \<le> rw_pct wd" "parse_reset_ts (rw_resets wd) = Some x" for wd x
    using that latest_of_ge [of x ?xs] l by (force simp flip: that(3))
  ultimately show ?thesis by (auto simp del: split_paired_Ex)
qed

lemma earlier_of: "\<exists>b'. (case best of None \<Rightarrow> Some t | Some b \<Rightarrow> Some (if t < b then t else b)) = Some b'
    \<and> b' \<le> (t :: rat) \<and> (\<forall>b. best = Some b \<longrightarrow> b' \<le> b) \<and> (b' = t \<or> best = Some b')"
  by (cases best) auto

lemma earliest_recovery_Some:
  "earliest_recovery models vs best = Some t \<Longrightarrow>
     (\<forall>v \<in> set vs. used_up v models \<longrightarrow> (\<exists>x. limiting_reset_of v models = Some x \<and> t \<le> x))
     \<and> (\<forall>b. best = Some b \<longrightarrow> t \<le> b)
     \<and> (best = Some t \<or> (\<exists>v \<in> set vs. used_up v models \<and> limiting_reset_of v models = Some t))"
proof (induction vs arbitrary: best)
  case (Cons v vs)
  show ?case
  proof (cases "used_up v models")
    case False
    then show ?thesis using Cons.IH [of best] Cons.prems by simp
  next
    case True
    then obtain t0 where t0: "limiting_reset_of v models = Some t0" using Cons.prems by (auto split: option.splits)
    obtain b' where b': "(case best of None \<Rightarrow> Some t0 | Some b \<Rightarrow> Some (if t0 < b then t0 else b)) = Some b'"
      "b' \<le> t0" "\<forall>b. best = Some b \<longrightarrow> b' \<le> b" "b' = t0 \<or> best = Some b'" using earlier_of by blast
    have "earliest_recovery models vs (Some b') = Some t" using Cons.prems True t0 b'(1) by simp
    from Cons.IH [OF this] have ih: "\<forall>v \<in> set vs. used_up v models \<longrightarrow> (\<exists>x. limiting_reset_of v models = Some x \<and> t \<le> x)"
      "t \<le> b'" "b' = t \<or> (\<exists>v \<in> set vs. used_up v models \<and> limiting_reset_of v models = Some t)" by simp_all
    have "t \<le> t0" "\<forall>b. best = Some b \<longrightarrow> t \<le> b" using ih(2) b'(2,3) by (auto intro: order_trans)
    then show ?thesis using True t0 ih(1,3) b'(4) by auto
  qed
qed simp

lemma earliest_recovery_None:
  "earliest_recovery models vs best = None \<Longrightarrow>
     (\<exists>v \<in> set vs. used_up v models \<and> limiting_reset_of v models = None) \<or> best = None \<and> (\<forall>v \<in> set vs. \<not> used_up v models)"
proof (induction vs arbitrary: best)
  case (Cons v vs)
  show ?case
  proof (cases "used_up v models")
    case False
    then show ?thesis using Cons.IH [of best] Cons.prems by auto
  next
    case True
    show ?thesis
    proof (cases "limiting_reset_of v models")
      case (Some t0)
      obtain b' where "(case best of None \<Rightarrow> Some t0 | Some b \<Rightarrow> Some (if t0 < b then t0 else b)) = Some b'" using earlier_of by blast
      then have "earliest_recovery models vs (Some b') = None" using Cons.prems True Some by simp
      from Cons.IH [OF this] show ?thesis by auto
    qed (use True in auto)
  qed
qed simp

text \<open>
  When every account is exhausted, the recovery time announced is the first moment at which one
  of the accounts seen used up becomes usable by the resets it reports: it is the latest reset of one such
  account's used-up windows, and no other such account recovers earlier. No time is announced only if an
  account in use-up reports no readable reset at all, or none is used up.
\<close>

theorem recovery_is_earliest:
  "case earliest_recovery models vs None of
     None \<Rightarrow> (\<exists>v \<in> set vs. used_up v models \<and> limiting_reset_of v models = None) \<or> (\<forall>v \<in> set vs. \<not> used_up v models)
   | Some t \<Rightarrow> (\<forall>v \<in> set vs. used_up v models \<longrightarrow> (\<exists>x. limiting_reset_of v models = Some x \<and> t \<le> x))
       \<and> (\<exists>v \<in> set vs. used_up v models
            \<and> (\<exists>wd \<in> set (relevant_windows_of v models). 100 \<le> rw_pct wd \<and> parse_reset_ts (rw_resets wd) = Some t)
            \<and> (\<forall>wd \<in> set (relevant_windows_of v models). \<forall>x. 100 \<le> rw_pct wd \<longrightarrow> parse_reset_ts (rw_resets wd) = Some x \<longrightarrow> x \<le> t))"
proof (cases "earliest_recovery models vs None")
  case None
  then show ?thesis using earliest_recovery_None [OF None] by simp
next
  case (Some t)
  then show ?thesis using earliest_recovery_Some [OF Some] limiting_reset_latest [of _ models t] by auto
qed

section \<open>Instances\<close>

definition sample_usage :: "(string \<times> usage_entry) list" where
  "sample_usage =
     (let good = (\<lambda>pct. \<lparr>u_sentinel = [], u_last_good = Some [(''five_hour'', JObj [(''pct'', JNum pct)])], u_fetched_at = Some 990,
          u_age_s = Some 10, u_last_attempt = Some 990, u_failures = 0, u_last_error = [], u_backoff_until = None, u_next_poll = None,
          u_poll_interval = None, u_last_429 = None, u_dead_strikes = 0, u_trust_extended = False\<rparr>)
      in [(''1'', good 95), (''2'', good 30)])"

definition sample_auto_env :: auto_env where
  "sample_auto_env = \<lparr>env_collect = (\<lambda>S w. (sample_usage, w)), env_refresh = (\<lambda>w c. \<lparr>ro_credentials = [], ro_error = ''network'', ro_account = None\<rparr>),
     env_profile = (\<lambda>_. None)\<rparr>"

definition sample_engine :: engine where
  "sample_engine = new_engine default_settings False"

definition sample_auto :: "jtext option \<Rightarrow> world" where
  "sample_auto st = (sample_login [])\<lparr>w_now := 1000, auto_file := st,
     cred_files := [''.creds-1-a@x.enc'' \<mapsto> EncData ''{\"claudeAiOauth\":{\"accessToken\":\"A\"}}'',
                    ''.creds-2-a@x.enc'' \<mapsto> EncData ''{\"claudeAiOauth\":{\"accessToken\":\"B\"}}'']\<rparr>"


lemma sample_auto_env_touches: "touches not_auto w (snd (env_collect sample_auto_env S w))"
  by (simp add: sample_auto_env_def touches_refl)

lemma sample_auto_spec [simp]: "faults (sample_auto st) = []" "auto_file (sample_auto st) = st"
    "w_now (sample_auto st) = 1000" "\<not> e_dry_run sample_engine" "as_cooldown (e_settings sample_engine) = 300"
  by (simp_all add: sample_auto_def sample_login_def sample_linux_def sample_engine_def new_engine_def default_settings_def Let_def)

lemma sample_tick: "fst (fst (tick sample_auto_env sample_engine (sample_auto None))) = Switched"
  by code_simp

lemma tick_is_run_witness:
  "\<exists>trig t. auto_run 300 (sample_auto None) [(trig, t)] (snd (tick sample_auto_env sample_engine (sample_auto None)))"
proof -
  obtain e' w' where t: "tick sample_auto_env sample_engine (sample_auto None) = ((Switched, e'), w')"
    using sample_tick by (metis prod.collapse)
  show ?thesis
    using tick_is_run [OF auto_run.start [of 300 "sample_auto None"] _ _ _ sample_auto_env_touches t] by (simp add: t)
qed

lemma automatic_switch_justified_witness:
  "\<exists>v0 v current es num trig. justified sample_engine current (decision_values es) v trig num \<and> current_account_number v0 = Some current"
proof -
  obtain e' w' where t: "tick sample_auto_env sample_engine (sample_auto None) = ((Switched, e'), w')"
    using sample_tick by (metis prod.collapse)
  show ?thesis
  proof -
    have "\<not> e_dry_run sample_engine" "faults (sample_auto None) = []" by simp_all
    from automatic_switch_justified [OF t this sample_auto_env_touches] show ?thesis by blast
  qed
qed

lemma next_delay_bounds_witness:
  "54 \<le> next_delay sample_engine Blocked 0 (1 / 2) \<and> next_delay sample_engine Blocked 0 (1 / 2) \<le> 21600"
  using next_delay_bounds [of sample_engine "1 / 2" Blocked 0]
  by (simp add: sample_engine_def new_engine_def default_settings_def Let_def)

definition limit_usage :: "rat \<Rightarrow> string \<Rightarrow> decision" where
  "limit_usage pct resets = DUsage [(''five_hour'', JObj [(''pct'', JNum pct), (''resets_at'', JStr resets)])]"

lemma recovery_is_earliest_witness:
  "\<exists>t. earliest_recovery [] [limit_usage 100 ''2026-01-02T00:00:00Z'', limit_usage 100 ''2026-01-01T00:00:00Z''] None = Some t
     \<and> limiting_reset_of (limit_usage 100 ''2026-01-01T00:00:00Z'') [] = Some t"
proof -
  let ?vs = "[limit_usage 100 ''2026-01-02T00:00:00Z'', limit_usage 100 ''2026-01-01T00:00:00Z'']"
  let ?t = "parse_reset_ts ''2026-01-01T00:00:00Z''"
  have "earliest_recovery [] ?vs None = ?t" "limiting_reset_of (limit_usage 100 ''2026-01-01T00:00:00Z'') [] = ?t" "?t \<noteq> None"
    by code_simp+
  then show ?thesis using recovery_is_earliest [where models = "[]" and vs = ?vs] by auto
qed

lemma target_order_witness:
  "let u = (\<lambda>n. limit_usage (if n = ''2'' then 30 else 10) [])
   in select_targets sample_engine Failover None u (\<lambda>_. ''oauth'') [''2'', ''3''] = Selected [''3'', ''2''] [''2'', ''3''] True
      \<and> the (headroom_of (u ''2'') (e_models sample_engine)) \<le> the (headroom_of (u ''3'') (e_models sample_engine))"
proof -
  let ?u = "\<lambda>n. limit_usage (if n = ''2'' then 30 else 10) []"
  have s: "select_targets sample_engine Failover None ?u (\<lambda>_. ''oauth'') [''2'', ''3''] = Selected [''3'', ''2''] [''2'', ''3''] True"
    "as_strategy (e_settings sample_engine) \<noteq> ''soonest-reset''" by code_simp+
  show ?thesis using target_order [OF s(1), of 0 1] s by (simp add: Let_def)
qed

lemma proactive_switches_spaced_witness:
  "\<exists>sw w. auto_run 300 (sample_auto None) sw w \<and> length sw = 2 \<and> fst (sw ! 1) = Proactive \<and> snd (sw ! 0) + 300 \<le> snd (sw ! 1)"
proof -
  let ?go = "\<lambda>num trig. perform_auto sample_auto_env num ''a@x'' trig sample_engine"
  let ?w1 = "snd (?go ''2'' AtLimit (sample_auto None))"
  let ?v = "?w1\<lparr>w_now := 1400\<rparr>"
  let ?w2 = "snd (?go ''1'' Proactive ?v)"
  have r: "fst (fst (?go ''2'' AtLimit (sample_auto None))) = Inr Switched" "fst (fst (?go ''1'' Proactive ?v)) = Inr Switched"
    "faults ?v = []" "w_now ?w1 \<le> 1400" by code_simp+
  obtain e1 e2 where g: "?go ''2'' AtLimit (sample_auto None) = ((Inr Switched, e1), ?w1)" "?go ''1'' Proactive ?v = ((Inr Switched, e2), ?w2)"
    using r(1,2) by (metis prod.collapse)
  have t: "touches not_auto ?w1 ?v" by (rule touches_volatile [OF touches_refl]) (use r(4) in simp_all)
  have "auto_run 300 (sample_auto None) [(AtLimit, the (last_switch ?w1))] ?w1"
    using auto_run.perform [OF auto_run.start _ _ _ g(1), of 300] by simp
  from auto_run.perform [OF auto_run.other [OF this t] r(3) _ _ g(2)]
  have run: "auto_run 300 (sample_auto None) [(AtLimit, the (last_switch ?w1)), (Proactive, the (last_switch ?w2))] ?w2" by simp
  then show ?thesis using proactive_switches_spaced [OF run, of 0] by fastforce
qed

text \<open>
  What the comment of \<open>earliestRecovery\<close> calls unprovable, a used-up window without a readable reset, is not
  so when another used-up window of the same account has one: the announced recovery then leaves the first
  one out.
\<close>

lemma unreadable_reset_left_out:
  "let v = DUsage [(''five_hour'', JObj [(''pct'', JNum 100), (''resets_at'', JStr ''2026-01-01T00:00:00Z'')]),
       (''seven_day'', JObj [(''pct'', JNum 100)])]
   in list_ex (\<lambda>wd. 100 \<le> rw_pct wd \<and> parse_reset_ts (rw_resets wd) = None) (relevant_windows_of v [])
      \<and> earliest_recovery [] [v] None = parse_reset_ts ''2026-01-01T00:00:00Z'' \<and> earliest_recovery [] [v] None \<noteq> None"
  by code_simp

end
