(* ===== verification/AutoState.thy ===== *)
theory AutoState
  imports AutoTick
begin

text \<open>
  The engine's state file (internal/autoswitch/state.go): which quarantined accounts are released, and what a
  failed read of the file costs.
\<close>

section \<open>Release from quarantine\<close>

definition stays_quarantined :: "json gomap \<Rightarrow> world \<Rightarrow> string \<Rightarrow> bool" where
  "stays_quarantined q w num \<longleftrightarrow>
     (let entry = decode_record (mget q num); email = account_email num w
      in email \<noteq> [] \<and> email = str_field entry ''email''
         \<and> fingerprint_json (backup_of num email w) = mget entry ''refreshTokenFingerprint'')"

lemma stays_quarantined_touches:
  assumes "touches {} w w'"
  shows "stays_quarantined q w' num = stays_quarantined q w num"
proof -
  have "account_email num w' = account_email num w"
    using touches_same [OF assms, of RSeq] by (simp add: account_email_def w_roster_def)
  moreover have "backup_of num email w' = backup_of num email w" for email by (rule backup_of_touches [OF assms]) simp_all
  ultimately show ?thesis by (simp add: stays_quarantined_def)
qed

lemma recovered_exact:
  "faults w = [] \<Longrightarrow> fst ` set (fst (recovered q nums w)) = {n \<in> set nums. \<not> stays_quarantined q w n}"
proof (induction nums arbitrary: w)
  case (Cons num nums)
  let ?email = "account_email num w"
  obtain creds w1 where r: "read_account_credentials num ?email w = (creds, w1)" by fastforce
  have t: "touches {} w w1" by (rule touches_result [OF r]) (intro frames; simp)
  have creds: "creds = backup_of num ?email w"
    using read_backup_idle [OF Cons.prems, of num ?email] r by (simp add: read_account_credentials_def)
  have ih: "fst ` set (fst (recovered q nums v)) = {n \<in> set nums. \<not> stays_quarantined q w n}" if "v = w \<or> v = w1" for v
    using Cons.IH [OF touches_idle [OF t Cons.prems]] Cons.IH [OF Cons.prems] stays_quarantined_touches [OF t] that by auto
  show ?case
  proof (cases "?email = [] \<or> ?email \<noteq> str_field (decode_record (mget q num)) ''email''")
    case True
    then show ?thesis using ih [of w] by (auto simp: Let_def case_prod_unfold stays_quarantined_def)
  next
    case False
    then show ?thesis using ih [of w1] r creds by (auto simp: Let_def case_prod_unfold stays_quarantined_def)
  qed
qed simp

lemma keys_foldl_del: "set (gm_keys (foldl (\<lambda>m (num, _). gm_del num m) m out)) = set (gm_keys m) - fst ` set out"
  by (induction out arbitrary: m) auto

text \<open>
  Property C6: an account leaves quarantine exactly when it was replaced. When the files can be read and
  written, releasing keeps those quarantined slots whose account is still the one quarantined and whose
  backup still has the fingerprint recorded then, and no other.
\<close>

theorem quarantine_release_exact:
  assumes "faults w = []" "release_recovered (state_of w) e w = ((r, e'), w')"
  shows "quarantined_set (state_of w') = {n \<in> quarantined_set (state_of w). stays_quarantined (quarantine_map (state_of w)) w n}"
proof -
  let ?q = "quarantine_map (state_of w)"
  obtain out w1 where o: "recovered ?q (slot_sorted (gm_keys ?q)) w = (out, w1)" by fastforce
  have t: "touches not_auto w w1" using touches_result [OF o] touches_recovered [of not_auto w w] by simp
  have f: "faults w1 = []" by (rule touches_idle [OF t assms(1)])
  have out: "fst ` set out = {n \<in> quarantined_set (state_of w). \<not> stays_quarantined ?q w n}"
    using recovered_exact [OF assms(1), of ?q "slot_sorted (gm_keys ?q)"] o by (simp add: quarantined_set_def)
  show ?thesis
  proof (cases "?q = [] \<or> out = []")
    case True
    then have "w' = w \<or> w' = w1" using assms(2) o by (auto simp: release_recovered_def split: if_splits)
    then have "state_of w' = state_of w" using state_of_not_auto [OF t] by auto
    then show ?thesis using True out by (auto simp: quarantined_set_def gm_keys_def)
  next
    case False
    let ?f = "\<lambda>s. case as_map (mget s ''quarantine'') of None \<Rightarrow> s
        | Some sq \<Rightarrow> gm_put ''quarantine'' (JObj (foldl (\<lambda>m (num, _). gm_del num m) sq out)) s"
    have d: "distinct (gm_keys (?f m))" if "distinct (gm_keys m)" for m
      using that by (auto simp: distinct_gm_put split: option.split)
    obtain w2 where m: "mutate_state ?f w1 = (Inr (?f (gm_put ''schemaVersion'' (JNum 1) (state_of w1))), w2)"
      "state_of w2 = ?f (gm_put ''schemaVersion'' (JNum 1) (state_of w1))"
      using mutate_state_idle [of w1 ?f, OF f d] by blast
    obtain sq where sq: "as_map (mget (state_of w) ''quarantine'') = Some sq" "sq = ?q"
      using False by (auto simp: quarantine_map_def split: option.splits)
    have "state_of w2 = gm_put ''quarantine'' (JObj (foldl (\<lambda>m (num, _). gm_del num m) sq out)) (gm_put ''schemaVersion'' (JNum 1) (state_of w))"
      using m(2) sq(1) state_of_not_auto [OF t] by simp
    then have "quarantine_map (state_of w2) = foldl (\<lambda>m (num, _). gm_del num m) sq out"
      using distinct_foldl_del [of sq out] distinct_as_map [OF sq(1)] by (simp add: quarantine_map_def obj_map_id)
    moreover have "w' = w2" using assms(2) False o m(1) by (auto simp: release_recovered_def Let_def)
    ultimately show ?thesis using out sq(2) by (auto simp: quarantined_set_def keys_foldl_del)
  qed
qed


section \<open>A failed read of the state\<close>

text \<open>
  Property C7: a failed read of the state file erases it. When the file is there and cannot be read, while
  the lock and the write work, the next change of the state reports success and leaves nothing of the old
  content: the quarantine, the last switch and with it the cooldown are forgotten.
\<close>

theorem failed_read_erases_state:
  assumes "auto_file w \<noteq> None" "faults w = [NoFault, OtherFail l]" "\<And>m. distinct (gm_keys m) \<Longrightarrow> distinct (gm_keys (f m))"
  shows "\<exists>w'. mutate_state f w = (Inr (f [(''schemaVersion'', JNum 1)]), w') \<and> state_of w' = f [(''schemaVersion'', JNum 1)]"
proof -
  obtain t where t: "auto_file w = Some t" using assms(1) by blast
  let ?w = "w\<lparr>faults := []\<rparr>" and ?st = "f [(''schemaVersion'', JNum 1)]"
  have l: "acquire_lock w = (None, w\<lparr>faults := [OtherFail l]\<rparr>)" using assms(2) by (simp add: acquire_lock_def take_fault_def)
  have r: "read_state (w\<lparr>faults := [OtherFail l]\<rparr>) = ([], ?w)" using t by (simp add: read_state_def os_call_def take_fault_def)
  have "distinct (gm_keys ?st)" by (rule assms(3)) (simp add: gm_keys_def)
  then obtain w' where "write_state ?st ?w = (None, w')" "state_of w' = ?st"
    using write_state_idle [of ?w ?st] by (cases "write_state ?st ?w") auto
  then show ?thesis by (simp add: mutate_state_def l r Let_def)
qed

lemma quarantine_release_exact_witness:
  "let w = sample_auto (Some (TJson (JObj [(''quarantine'', JObj [(''1'', quarantine_entry ''old@x'' ''invalid_grant'' ''t1'' []),
       (''2'', quarantine_entry ''a@x'' ''invalid_grant'' ''t1'' ''{\"claudeAiOauth\":{\"accessToken\":\"B\"}}'')])])))
   in quarantined_set (state_of (snd (release_recovered (state_of w) sample_engine w))) = {''2''}"
proof -
  let ?w = "sample_auto (Some (TJson (JObj [(''quarantine'', JObj [(''1'', quarantine_entry ''old@x'' ''invalid_grant'' ''t1'' []),
       (''2'', quarantine_entry ''a@x'' ''invalid_grant'' ''t1'' ''{\"claudeAiOauth\":{\"accessToken\":\"B\"}}'')])])))"
  let ?q = "quarantine_map (state_of ?w)"
  obtain r e' w' where r: "release_recovered (state_of ?w) sample_engine ?w = ((r, e'), w')" by (metis surj_pair)
  have k: "\<not> stays_quarantined ?q ?w ''1''" "stays_quarantined ?q ?w ''2''" by code_simp+
  have "gm_keys ?q = [''1'', ''2'']" by code_simp
  then have "quarantined_set (state_of ?w) = {''1'', ''2''}" by (simp add: quarantined_set_def)
  then have "quarantined_set (state_of w') = {''2''}" using quarantine_release_exact [OF sample_auto_spec(1) r] k by auto
  then show ?thesis by (simp add: Let_def r)
qed

lemma failed_read_erases_state_witness:
  "let w = (sample_auto (Some (TJson (JObj [(''lastSwitchAt'', JNum 990)]))))\<lparr>faults := [NoFault, OtherFail True]\<rparr>
   in last_switch w = Some 990 \<and> last_switch (snd (mutate_state (gm_put ''lastSwitchTo'' (JStr ''2'')) w)) = None"
proof -
  let ?w = "(sample_auto (Some (TJson (JObj [(''lastSwitchAt'', JNum 990)]))))\<lparr>faults := [NoFault, OtherFail True]\<rparr>"
  obtain w' where "mutate_state (gm_put ''lastSwitchTo'' (JStr ''2'')) ?w = (Inr (gm_put ''lastSwitchTo'' (JStr ''2'') [(''schemaVersion'', JNum 1)]), w')"
    "state_of w' = gm_put ''lastSwitchTo'' (JStr ''2'') [(''schemaVersion'', JNum 1)]"
    using failed_read_erases_state [of ?w True "gm_put ''lastSwitchTo'' (JStr ''2'')", OF _ _ distinct_gm_put] by auto
  moreover have "last_switch ?w = Some 990" "as_num (mget (gm_put ''lastSwitchTo'' (JStr ''2'') [(''schemaVersion'', JNum 1)]) ''lastSwitchAt'') = None"
    by code_simp+
  ultimately show ?thesis by (simp add: Let_def last_switch_def)
qed

end
