(* ===== verification/Locks.thy ===== *)
theory Locks
  imports Prelude
begin

text \<open>
  The two locks. internal/cclock takes the directory lock that Claude Code itself uses; internal/filelock is
  the advisory lock between cswap processes. Both wait by polling: the loop is modelled on what each round
  sees (the results of its system calls, the time passed, the random pause), and the protocol of the
  directory lock as a transition system of any number of processes. That the kernel grants a file lock to
  one open file at a time is the kernel's part.
\<close>

section \<open>Polling\<close>

text \<open>The rounds of a loop up to the first that ends it.\<close>

partial_function (option) poll :: "(nat \<Rightarrow> 'r option) \<Rightarrow> nat \<Rightarrow> 'r option" where
  "poll turn k = (case turn k of Some r \<Rightarrow> Some r | None \<Rightarrow> poll turn (Suc k))"

lemma poll_first:
  assumes "turn (k + n) = Some r" "\<And>i. i < n \<Longrightarrow> turn (k + i) = None"
  shows "poll turn k = Some r"
  using assms
proof (induction n arbitrary: k)
  case 0
  then show ?case by (simp add: poll.simps)
next
  case (Suc n)
  then have "turn k = None" by force
  moreover have "poll turn (Suc k) = Some r" using Suc.IH [of "Suc k"] Suc.prems by fastforce
  ultimately show ?case by (simp add: poll.simps [of turn k])
qed

lemma poll_returns:
  assumes "turn n \<noteq> None"
  shows "\<exists>i r. i \<le> n \<and> turn i = Some r \<and> poll turn 0 = Some r"
proof -
  obtain i where i: "turn i \<noteq> None" "\<forall>j < i. turn j = None" using assms exists_least_iff [of "\<lambda>i. turn i \<noteq> None"] by blast
  then obtain r where r: "turn i = Some r" by blast
  have "poll turn 0 = Some r" by (rule poll_first [of turn 0 i r]) (use r i(2) in simp_all)
  moreover have "i \<le> n" using assms i(2) by (metis not_le_imp_less)
  ultimately show ?thesis using r by blast
qed

text \<open>
  A loop with a deadline: a round that starts after the deadline ends it, and each round takes time.
  Then the loop ends, in a number of rounds that depends on the deadline only.
\<close>

lemma elapsed_after:
  fixes elapsed :: "nat \<Rightarrow> rat"
  assumes "\<And>k. elapsed k + least \<le> elapsed (Suc k)" "0 \<le> elapsed 0"
  shows "of_nat k * least \<le> elapsed k"
proof (induction k)
  case (Suc k)
  then show ?case using assms(1) [of k] by (simp add: algebra_simps)
qed (simp add: assms(2))

lemma poll_deadline:
  fixes elapsed :: "nat \<Rightarrow> rat"
  assumes "\<And>k. limit < elapsed k \<Longrightarrow> turn k \<noteq> None" "\<And>k. elapsed k + least \<le> elapsed (Suc k)" "0 \<le> elapsed 0"
    and "limit < of_nat n * least"
  obtains k r where "k \<le> n" "turn k = Some r" "poll turn 0 = Some r"
proof -
  have "turn n \<noteq> None" using assms(1) [of n] assms(4) elapsed_after [of elapsed least n, OF assms(2,3)] by simp
  from poll_returns [of turn n, OF this] show thesis using that by blast
qed


section \<open>Waiting for Claude Code's lock\<close>

definition staleness_s :: rat where "staleness_s = 10"
definition touch_interval_s :: rat where "touch_interval_s = 3"
definition default_timeout_s :: rat where "default_timeout_s = 9"

datatype mkdir_result = Made | Exists | MkdirFailed
datatype stat_result = Gone | StatFailed | Age rat
datatype acquired = Acquired | TimedOut | SysFailed

text \<open>One round of \<open>Acquire\<close>: what its system calls return and the random number in [0, 1).\<close>

record attempt =
  at_mkdir :: mkdir_result
  at_elapsed :: rat
  at_stat :: stat_result
  at_removed :: bool
  at_random :: rat

definition jitter_backoff :: "rat \<Rightarrow> rat" where
  "jitter_backoff random = 1 / 4 + random * (1 / 4)"

text \<open>How a round ends: with a result, or with a pause before the next one.\<close>

definition acquire_round :: "rat \<Rightarrow> attempt \<Rightarrow> acquired + rat" where
  "acquire_round timeout a =
     (case at_mkdir a of
        Made \<Rightarrow> Inl Acquired
      | MkdirFailed \<Rightarrow> Inl SysFailed
      | Exists \<Rightarrow>
          if timeout < at_elapsed a then Inl TimedOut
          else (case at_stat a of
                  Gone \<Rightarrow> Inr 0
                | StatFailed \<Rightarrow> Inl SysFailed
                | Age age \<Rightarrow>
                    if staleness_s < age then Inr (if at_removed a then 0 else 1 / 20)
                    else Inr (jitter_backoff (at_random a))))"

definition outcome_of :: "'r + rat \<Rightarrow> 'r option" where
  "outcome_of x = (case x of Inl r \<Rightarrow> Some r | Inr _ \<Rightarrow> None)"

definition cc_timeout :: "rat \<Rightarrow> rat" where
  "cc_timeout timeout = (if timeout \<le> 0 then default_timeout_s else timeout)"

text \<open>\<open>parent\<close> tells whether the directory's parent could be made.\<close>

definition cc_acquire :: "bool \<Rightarrow> rat \<Rightarrow> (nat \<Rightarrow> attempt) \<Rightarrow> acquired option" where
  "cc_acquire parent timeout rounds =
     (if \<not> parent then Some SysFailed
      else poll (\<lambda>k. outcome_of (acquire_round (cc_timeout timeout) (rounds k))) 0)"


section \<open>Waiting for the store lock\<close>

definition poll_interval_s :: rat where "poll_interval_s = 1 / 10"
definition file_timeout_s :: rat where "file_timeout_s = 10"

text \<open>The errors of \<open>flock\<close> that mean that somebody else holds the lock.\<close>

datatype flock_result = FlockOk | EWouldBlock | EAgain | EAcces | OtherErrno

definition try_lock :: "flock_result \<Rightarrow> bool option" where
  "try_lock r = (case r of FlockOk \<Rightarrow> Some True | OtherErrno \<Rightarrow> None | _ \<Rightarrow> Some False)"

definition file_round :: "rat \<Rightarrow> flock_result \<times> rat \<Rightarrow> acquired + rat" where
  "file_round timeout a =
     (let (r, elapsed) = a
      in (case try_lock r of
            None \<Rightarrow> Inl SysFailed
          | Some True \<Rightarrow> Inl Acquired
          | Some False \<Rightarrow> if timeout < elapsed then Inl TimedOut else Inr poll_interval_s))"

text \<open>The lock's state within the process: who may wait, the open file, and whether it is locked.\<close>

record file_lock =
  fl_timeout :: rat
  fl_hold :: bool
  fl_file :: bool
  fl_locked :: bool

definition new_file_lock :: "rat \<Rightarrow> file_lock" where
  "new_file_lock timeout = \<lparr>fl_timeout = (if timeout \<le> 0 then file_timeout_s else timeout), fl_hold = False, fl_file = False, fl_locked = False\<rparr>"

text \<open>
  \<open>Acquire\<close> once the in-process mutex is free: \<open>opened\<close> tells whether the directory and the lock file could
  be opened.
\<close>

definition file_acquire :: "rat \<Rightarrow> bool \<Rightarrow> (nat \<Rightarrow> flock_result \<times> rat) \<Rightarrow> file_lock \<Rightarrow> (acquired \<times> file_lock) option" where
  "file_acquire timeout opened rounds l =
     (let timeout = (if timeout \<le> 0 then fl_timeout l else timeout)
      in if \<not> opened then Some (SysFailed, l\<lparr>fl_hold := False\<rparr>)
         else (case poll (\<lambda>k. outcome_of (file_round timeout (rounds k))) 0 of
                 None \<Rightarrow> None
               | Some Acquired \<Rightarrow> Some (Acquired, l\<lparr>fl_hold := True, fl_file := True, fl_locked := True\<rparr>)
               | Some r \<Rightarrow> Some (r, l\<lparr>fl_hold := False\<rparr>)))"

definition file_release :: "file_lock \<Rightarrow> file_lock" where
  "file_release l =
     (let l' = l\<lparr>fl_file := False, fl_locked := False\<rparr>
      in if fl_file l \<and> fl_locked l then l'\<lparr>fl_hold := False\<rparr> else l')"

datatype 'e with_error = LockTimeout | LockSystem | BodyError 'e

definition file_with ::
  "bool \<Rightarrow> (nat \<Rightarrow> flock_result \<times> rat) \<Rightarrow> ('s \<Rightarrow> 'e option \<times> 's) \<Rightarrow> file_lock \<Rightarrow> 's \<Rightarrow>
   ('e with_error option \<times> file_lock \<times> 's) option" where
  "file_with opened rounds body l s =
     (case file_acquire (fl_timeout l) opened rounds l of
        None \<Rightarrow> None
      | Some (SysFailed, l) \<Rightarrow> Some (Some LockSystem, l, s)
      | Some (TimedOut, l) \<Rightarrow> Some (Some LockTimeout, l, s)
      | Some (Acquired, l) \<Rightarrow> (let (e, s) = body s in Some (map_option BodyError e, file_release l, s)))"

section \<open>Both loops end\<close>

text \<open>
  A round that found the directory gone, or removed it as stale, goes on at once: each of these follows a
  release or the death of another process. Every other round that does not end the loop sleeps.
\<close>

definition vanished :: "attempt \<Rightarrow> bool" where
  "vanished a \<longleftrightarrow> (case at_stat a of Gone \<Rightarrow> True | StatFailed \<Rightarrow> False | Age age \<Rightarrow> staleness_s < age \<and> at_removed a)"

lemma round_sleeps:
  assumes "acquire_round timeout a = Inr p" "0 \<le> at_random a"
  shows "(if vanished a then 0 else 1 / 20) \<le> p"
  using assms by (auto simp: acquire_round_def vanished_def jitter_backoff_def split: mkdir_result.splits stat_result.splits if_splits)

lemma slept_so_far:
  assumes "\<And>k p. acquire_round timeout (rounds k) = Inr p \<Longrightarrow> at_elapsed (rounds k) + p \<le> at_elapsed (rounds (Suc k))"
    "0 \<le> at_elapsed (rounds 0)" "\<And>k. 0 \<le> at_random (rounds k)"
    "\<And>k. k < j \<Longrightarrow> outcome_of (acquire_round timeout (rounds k)) = None"
  shows "of_nat j / 20 \<le> at_elapsed (rounds j) + of_nat (card {k. k < j \<and> vanished (rounds k)}) / 20"
  using assms(4)
proof (induction j)
  case (Suc j)
  obtain p where p: "acquire_round timeout (rounds j) = Inr p"
    using Suc.prems [of j] by (auto simp: outcome_of_def split: sum.splits)
  have "{k. k < Suc j \<and> vanished (rounds k)} = {k. k < j \<and> vanished (rounds k)} \<union> (if vanished (rounds j) then {j} else {})"
    by (auto simp: less_Suc_eq)
  then have "card {k. k < Suc j \<and> vanished (rounds k)}
      = card {k. k < j \<and> vanished (rounds k)} + (if vanished (rounds j) then 1 else 0)" by simp
  moreover have "of_nat j / 20 \<le> at_elapsed (rounds j) + of_nat (card {k. k < j \<and> vanished (rounds k)}) / 20"
    using Suc by simp
  ultimately show ?case
    using assms(1) [OF p] round_sleeps [OF p assms(3)] by (auto simp: field_simps split: if_splits)
qed (simp add: assms(2))

text \<open>
  Property C9: taking Claude Code's lock ends. The clock is only taken to cover the sleeps that the loop asks
  for. When the directory vanishes from under the waiter, or is removed as stale, at most \<open>m\<close> times, then
  \<open>Acquire\<close> returns by round \<open>m\<close> plus twenty for each second of the timeout; it gives up only after the timeout
  has passed with the lock still held. (The rounds that go on without a sleep are bounded by what the other
  processes do and not by the timeout.)
\<close>

theorem cc_acquire_ends:
  assumes "\<And>k p. acquire_round (cc_timeout timeout) (rounds k) = Inr p \<Longrightarrow> at_elapsed (rounds k) + p \<le> at_elapsed (rounds (Suc k))"
    "0 \<le> at_elapsed (rounds 0)" "\<And>k. 0 \<le> at_random (rounds k)"
    "card {k. k < n \<and> vanished (rounds k)} \<le> m" "of_nat m + 20 * cc_timeout timeout < of_nat n"
  shows "\<exists>k r. k \<le> n \<and> cc_acquire True timeout rounds = Some r \<and> acquire_round (cc_timeout timeout) (rounds k) = Inl r
    \<and> (r = TimedOut \<longrightarrow> cc_timeout timeout < at_elapsed (rounds k) \<and> at_mkdir (rounds k) = Exists)"
proof -
  let ?turn = "\<lambda>k. outcome_of (acquire_round (cc_timeout timeout) (rounds k))"
  have "\<exists>i \<le> n. ?turn i \<noteq> None"
  proof (rule ccontr)
    assume none: "\<not> (\<exists>i \<le> n. ?turn i \<noteq> None)"
    then have "of_nat n / 20 \<le> at_elapsed (rounds n) + of_nat (card {k. k < n \<and> vanished (rounds k)}) / 20"
      by (intro slept_so_far [OF assms(1-3)]) auto
    moreover have "of_nat (card {k. k < n \<and> vanished (rounds k)}) \<le> (of_nat m :: rat)" using assms(4) by simp
    ultimately have "cc_timeout timeout < at_elapsed (rounds n)" using assms(5) by (simp add: field_simps)
    then have "?turn n \<noteq> None" by (simp add: outcome_of_def acquire_round_def split: mkdir_result.split)
    with none show False by blast
  qed
  then obtain i where i: "i \<le> n" "?turn i \<noteq> None" by blast
  obtain k r where k: "k \<le> n" "?turn k = Some r" "poll ?turn 0 = Some r"
    using poll_returns [of ?turn i, OF i(2)] i(1) le_trans by blast
  then have "acquire_round (cc_timeout timeout) (rounds k) = Inl r" by (simp add: outcome_of_def split: sum.splits)
  moreover have "r = TimedOut \<longrightarrow> cc_timeout timeout < at_elapsed (rounds k) \<and> at_mkdir (rounds k) = Exists"
    using calculation by (auto simp: acquire_round_def split: mkdir_result.splits stat_result.splits if_splits)
  ultimately show ?thesis using k(1,3) by (auto simp: cc_acquire_def)
qed

text \<open>A fresh lock that stays, found gone once; the waiter sleeps a quarter of a second in every other round.\<close>

definition waiting_rounds :: "nat \<Rightarrow> attempt" where
  "waiting_rounds k = \<lparr>at_mkdir = Exists, at_elapsed = of_nat k / 4, at_stat = (if k = 3 then Gone else Age 1),
     at_removed = False, at_random = 0\<rparr>"

lemma cc_acquire_ends_witness:
  "\<exists>k \<le> 182. acquire_round (cc_timeout 0) (waiting_rounds k) = Inl TimedOut \<and> cc_acquire True 0 waiting_rounds = Some TimedOut"
proof -
  have p: "at_elapsed (waiting_rounds k) + p \<le> at_elapsed (waiting_rounds (Suc k))"
    if "acquire_round (cc_timeout 0) (waiting_rounds k) = Inr p" for k p
    using that by (auto simp: waiting_rounds_def acquire_round_def jitter_backoff_def staleness_s_def field_simps split: if_splits)
  have "{k. k < 182 \<and> vanished (waiting_rounds k)} \<subseteq> {3}"
    by (auto simp: waiting_rounds_def vanished_def staleness_s_def split: if_splits)
  then have "card {k. k < 182 \<and> vanished (waiting_rounds k)} \<le> card {3 :: nat}" by (rule card_mono [rotated]) simp
  then have m: "card {k. k < 182 \<and> vanished (waiting_rounds k)} \<le> 1" by simp
  have t: "of_nat 1 + 20 * cc_timeout 0 < of_nat 182" by (simp add: cc_timeout_def default_timeout_s_def)
  obtain k r where k: "k \<le> 182" "cc_acquire True 0 waiting_rounds = Some r" "acquire_round (cc_timeout 0) (waiting_rounds k) = Inl r"
  proof -
    have "0 \<le> at_elapsed (waiting_rounds 0)" "\<And>k. 0 \<le> at_random (waiting_rounds k)" by (simp_all add: waiting_rounds_def)
    from cc_acquire_ends [OF p this m t] that show thesis by blast
  qed
  then have "r = TimedOut"
    by (auto simp: waiting_rounds_def acquire_round_def staleness_s_def split: if_splits)
  with k show ?thesis by blast
qed

text \<open>
  \<open>With\<close> always ends, and runs its body exactly when the lock was taken. The polling stops
  within a number of rounds that depends on the timeout only; without the lock the state is untouched and
  the error is that of the lock; afterwards nothing is held, however the body ended.
\<close>

theorem file_with_ends:
  assumes "\<And>k. snd (rounds k) + least \<le> snd (rounds (Suc k))" "0 \<le> snd (rounds 0)" "0 < fl_timeout l"
    and "fl_timeout l < of_nat n * least" "\<not> fl_hold l" "\<not> fl_file l" "\<not> fl_locked l"
  shows "(\<exists>e s'. file_with opened rounds body l s = Some (e, l, s')
      \<and> (case e of
           None \<Rightarrow> body s = (None, s')
         | Some (BodyError x) \<Rightarrow> body s = (Some x, s')
         | Some LockTimeout \<Rightarrow> s' = s \<and> (\<exists>k \<le> n. fl_timeout l < snd (rounds k) \<and> try_lock (fst (rounds k)) = Some False)
         | Some LockSystem \<Rightarrow> s' = s))"
proof -
  let ?turn = "\<lambda>k. outcome_of (file_round (fl_timeout l) (rounds k))"
  have "?turn k \<noteq> None" if "fl_timeout l < snd (rounds k)" for k
    using that by (cases "rounds k") (simp add: outcome_of_def file_round_def split: option.split bool.split)
  then obtain k r where k: "k \<le> n" "?turn k = Some r" "poll ?turn 0 = Some r"
    by (rule poll_deadline [where elapsed = "\<lambda>k. snd (rounds k)", OF _ assms(1,2,4)])
  have t: "r = TimedOut \<Longrightarrow> fl_timeout l < snd (rounds k) \<and> try_lock (fst (rounds k)) = Some False"
    using k(2) by (cases "rounds k") (auto simp: outcome_of_def file_round_def split: option.splits bool.splits if_splits sum.splits)
  have l: "l\<lparr>fl_hold := False\<rparr> = l" "file_release (l\<lparr>fl_hold := True, fl_file := True, fl_locked := True\<rparr>) = l"
    using assms(5-7) by (simp_all add: file_release_def)
  have a: "file_acquire (fl_timeout l) opened rounds l =
      (if \<not> opened then Some (SysFailed, l) else Some (r, if r = Acquired then l\<lparr>fl_hold := True, fl_file := True, fl_locked := True\<rparr> else l))"
    using k(3) l(1) assms(3) by (cases r) (simp_all add: file_acquire_def)
  show ?thesis
  proof (cases "opened \<and> r = Acquired")
    case True
    obtain e s' where "body s = (e, s')" by fastforce
    then show ?thesis using True a l by (cases e) (simp_all add: file_with_def)
  next
    case False
    then show ?thesis using a t k(1) by (cases r) (auto simp: file_with_def)
  qed
qed

lemma file_with_ends_witness:
  "\<exists>e s'. file_with True (\<lambda>k. (EAgain, of_nat k)) (\<lambda>s. (None :: string option, Suc s)) (new_file_lock 0) 0 = Some (e, new_file_lock 0, s')"
  using file_with_ends [of "\<lambda>k. (EAgain, of_nat k)" 1 "new_file_lock 0" 11 True "\<lambda>s. (None :: string option, Suc s)" 0]
  by (auto simp: new_file_lock_def file_timeout_s_def)


section \<open>The directory lock between processes\<close>

text \<open>
  A process is idle, waiting, looking at a directory it failed to make, about to remove one it found stale,
  or holding. The state has the wall clock, the directory's modification time, each process's phase and
  whether its toucher runs. Each action is one system call of \<open>Acquire\<close>, \<open>touchLoop\<close> or \<open>Release\<close>; the calls
  act on the path, whoever made the directory. \<open>Die\<close> ends a process without its release.
\<close>

datatype phase = Idle | Waiting | Looking | Taking | Holding

record locks =
  lk_now :: rat
  lk_dir :: "rat option"
  lk_phase :: "nat \<Rightarrow> phase"
  lk_touching :: "nat \<Rightarrow> bool"

datatype act = Start nat | Mkdir nat | Stat nat | Remove nat | GiveUp nat | Touch nat | Release nat | Die nat | Pass rat

definition set_phase :: "nat \<Rightarrow> phase \<Rightarrow> locks \<Rightarrow> locks" where
  "set_phase p ph s = s\<lparr>lk_phase := (lk_phase s)(p := ph)\<rparr>"

definition set_touching :: "nat \<Rightarrow> bool \<Rightarrow> locks \<Rightarrow> locks" where
  "set_touching p b s = s\<lparr>lk_touching := (lk_touching s)(p := b)\<rparr>"

definition try_mkdir :: "nat \<Rightarrow> locks \<Rightarrow> locks" where
  "try_mkdir p s =
     (case lk_dir s of
        None \<Rightarrow> set_touching p True (set_phase p Holding (s\<lparr>lk_dir := Some (lk_now s)\<rparr>))
      | Some _ \<Rightarrow> set_phase p Looking s)"

definition look :: "nat \<Rightarrow> locks \<Rightarrow> locks" where
  "look p s =
     set_phase p (case lk_dir s of None \<Rightarrow> Waiting | Some m \<Rightarrow> if staleness_s < lk_now s - m then Taking else Waiting) s"

definition take_over :: "nat \<Rightarrow> locks \<Rightarrow> locks" where
  "take_over p s = set_phase p Waiting (s\<lparr>lk_dir := None\<rparr>)"

definition touch_loop :: "nat \<Rightarrow> locks \<Rightarrow> locks" where
  "touch_loop p s = (case lk_dir s of None \<Rightarrow> set_touching p False s | Some _ \<Rightarrow> s\<lparr>lk_dir := Some (lk_now s)\<rparr>)"

definition release_dir :: "nat \<Rightarrow> locks \<Rightarrow> locks" where
  "release_dir p s = set_touching p False (set_phase p Idle (s\<lparr>lk_dir := None\<rparr>))"

fun enabled :: "act \<Rightarrow> locks \<Rightarrow> bool" where
  "enabled (Start p) s = (lk_phase s p = Idle)"
| "enabled (Mkdir p) s = (lk_phase s p = Waiting)"
| "enabled (Stat p) s = (lk_phase s p = Looking)"
| "enabled (Remove p) s = (lk_phase s p = Taking)"
| "enabled (GiveUp p) s = (lk_phase s p = Looking)"
| "enabled (Touch p) s = lk_touching s p"
| "enabled (Release p) s = (lk_phase s p = Holding)"
| "enabled (Die p) s = True"
| "enabled (Pass d) s = (0 < d)"

fun do_act :: "act \<Rightarrow> locks \<Rightarrow> locks" where
  "do_act (Start p) s = set_phase p Waiting s"
| "do_act (Mkdir p) s = try_mkdir p s"
| "do_act (Stat p) s = look p s"
| "do_act (Remove p) s = take_over p s"
| "do_act (GiveUp p) s = set_phase p Idle s"
| "do_act (Touch p) s = touch_loop p s"
| "do_act (Release p) s = release_dir p s"
| "do_act (Die p) s = set_touching p False (set_phase p Idle s)"
| "do_act (Pass d) s = s\<lparr>lk_now := lk_now s + d\<rparr>"

inductive lock_step :: "act \<Rightarrow> locks \<Rightarrow> locks \<Rightarrow> bool" where
  "enabled a s \<Longrightarrow> lock_step a s (do_act a s)"

inductive_cases lock_stepE: "lock_step a s s'"

definition no_locks :: locks where
  "no_locks = \<lparr>lk_now = 0, lk_dir = None, lk_phase = (\<lambda>_. Idle), lk_touching = (\<lambda>_. False)\<rparr>"

text \<open>
  The runs, as actions with the states they lead to, in which the directory is never older than the
  staleness limit: its holder's toucher keeps up.
\<close>

definition kept_fresh :: "locks \<Rightarrow> bool" where
  "kept_fresh s \<longleftrightarrow> (\<forall>m. lk_dir s = Some m \<longrightarrow> lk_now s - m \<le> staleness_s)"

fun fresh_run :: "locks \<Rightarrow> (act \<times> locks) list \<Rightarrow> bool" where
  "fresh_run s [] = True"
| "fresh_run s ((a, t) # tr) = (lock_step a s t \<and> kept_fresh t \<and> fresh_run t tr)"

definition holders :: "locks \<Rightarrow> nat set" where
  "holders s = {p. lk_phase s p = Holding}"

text \<open>
  The abstract lock: free, or owned by one process. Only making the directory takes it, only when it is
  free; the owner's release or death frees it, and nothing else changes the owner.
\<close>

inductive mutex_step :: "act \<Rightarrow> nat option \<Rightarrow> nat option \<Rightarrow> bool" where
  take: "mutex_step (Mkdir p) None (Some p)"
| release: "mutex_step (Release p) (Some p) None"
| die: "mutex_step (Die p) (Some p) None"
| other: "\<forall>p. x = Some p \<longrightarrow> a \<noteq> Release p \<and> a \<noteq> Die p \<Longrightarrow> mutex_step a x x"

fun mutex_run :: "nat option \<Rightarrow> (act \<times> nat option) list \<Rightarrow> bool" where
  "mutex_run x [] = True"
| "mutex_run x ((a, y) # tr) = (mutex_step a x y \<and> mutex_run y tr)"

definition lock_inv :: "locks \<Rightarrow> nat option \<Rightarrow> bool" where
  "lock_inv s x \<longleftrightarrow> (\<forall>p. lk_phase s p = Holding \<longrightarrow> x = Some p) \<and> (\<forall>p. x = Some p \<longrightarrow> lk_phase s p = Holding)
     \<and> (x \<noteq> None \<longrightarrow> lk_dir s \<noteq> None) \<and> (\<forall>p. lk_phase s p \<noteq> Taking)"

lemmas act_defs = set_phase_def set_touching_def try_mkdir_def look_def take_over_def touch_loop_def release_dir_def

lemma lock_inv_step:
  assumes "lock_inv s x" "kept_fresh s" "lock_step a s s'"
  shows "\<exists>x'. mutex_step a x x' \<and> lock_inv s' x'"
proof -
  have e: "enabled a s" "s' = do_act a s" using assms(3) by (auto elim: lock_stepE)
  consider (mk) p where "a = Mkdir p" "lk_dir s = None" | (gone) p where "x = Some p" "a = Release p \<or> a = Die p"
    | (same) "\<forall>p. a = Mkdir p \<longrightarrow> lk_dir s \<noteq> None" "\<forall>p. x = Some p \<longrightarrow> a \<noteq> Release p \<and> a \<noteq> Die p" by blast
  then show ?thesis
  proof cases
    case mk
    then have "x = None" "lock_inv s' (Some p)" using assms(1) e by (auto simp: lock_inv_def act_defs)
    then show ?thesis using mk(1) mutex_step.take by blast
  next
    case gone
    then have "\<forall>q. lk_phase s q = Holding \<longrightarrow> q = p" "\<forall>q. lk_phase s q \<noteq> Taking" using assms(1) by (auto simp: lock_inv_def)
    then have "lock_inv s' None" using gone(2) e(2) by (auto simp: lock_inv_def act_defs split: if_splits)
    then show ?thesis using gone mutex_step.release mutex_step.die by blast
  next
    case same
    have inv: "\<And>p. x = Some p \<longleftrightarrow> lk_phase s p = Holding" "x \<noteq> None \<longrightarrow> lk_dir s \<noteq> None" "\<And>p. lk_phase s p \<noteq> Taking"
      using assms(1) unfolding lock_inv_def by blast+
    have "lk_phase s' q = Holding \<longleftrightarrow> lk_phase s q = Holding" for q
      unfolding e(2) using same e(1) inv(1) by (cases a) (simp_all add: act_defs split: option.split, blast+)
    moreover have "lk_phase s' q \<noteq> Taking" for q
      unfolding e(2) using assms(2) inv(3) [of q] by (cases a) (simp_all add: act_defs kept_fresh_def split: option.split, force)
    moreover have "lk_dir s' \<noteq> None" if "x \<noteq> None"
      unfolding e(2) using that same e(1) inv by (cases a) (simp_all add: act_defs split: option.split, blast)
    ultimately have "lock_inv s' x" using assms(1) unfolding lock_inv_def by blast
    then show ?thesis using mutex_step.other [of x a] same(2) by blast
  qed
qed

lemma fresh_run_mutex:
  "fresh_run s tr \<Longrightarrow> kept_fresh s \<Longrightarrow> lock_inv s x \<Longrightarrow>
   \<exists>xs. mutex_run x (zip (map fst tr) xs) \<and> list_all2 (\<lambda>(a, t) y. lock_inv t y) tr xs"
proof (induction s tr arbitrary: x rule: fresh_run.induct)
  case (2 s a t tr)
  obtain y where y: "mutex_step a x y" "lock_inv t y" using lock_inv_step [OF "2.prems"(3,2)] "2.prems"(1) by auto
  then obtain ys where "mutex_run y (zip (map fst tr) ys)" "list_all2 (\<lambda>(a, t) y. lock_inv t y) tr ys"
    using "2.IH" "2.prems"(1) by auto
  then show ?case using y by (intro exI [of _ "y # ys"]) simp
qed simp

text \<open>
  Property C8: the directory lock refines a mutex. As long as the directory never grows older than the
  staleness limit, which the touchers are there for, every run of any number of processes is, action by
  action, a run of the abstract lock whose owner is the one process that holds the lock: it is taken only
  when it is free, and it changes hands only after its owner's release or death.
\<close>

theorem lock_is_mutex:
  assumes "fresh_run no_locks tr"
  shows "\<exists>xs. mutex_run None (zip (map fst tr) xs) \<and> list_all2 (\<lambda>(a, t) x. holders t = set_option x) tr xs"
proof -
  have "lock_inv no_locks None" "kept_fresh no_locks" by (simp_all add: lock_inv_def kept_fresh_def no_locks_def)
  then obtain xs where xs: "mutex_run None (zip (map fst tr) xs)" "list_all2 (\<lambda>(a, t) x. lock_inv t x) tr xs"
    using fresh_run_mutex [OF assms] by blast
  have "holders t = set_option x" if "lock_inv t x" for t x
    using that by (cases x) (auto simp: holders_def lock_inv_def)
  then show ?thesis using xs by (intro exI [of _ xs]) (auto elim!: list_all2_mono)
qed

fun run_acts :: "act list \<Rightarrow> locks \<Rightarrow> locks option" where
  "run_acts [] s = Some s"
| "run_acts (a # as) s = (if enabled a s then run_acts as (do_act a s) else None)"

lemma lock_is_mutex_witness:
  "let s1 = do_act (Start 1) no_locks; s2 = do_act (Mkdir 1) s1; s3 = do_act (Release 1) s2
   in fresh_run no_locks [(Start 1, s1), (Mkdir 1, s2), (Release 1, s3)] \<and> holders s2 = {1} \<and> holders s3 = {}
    \<and> (\<exists>x y z. mutex_run None [(Start 1, x), (Mkdir 1, y), (Release 1, z)] \<and> y = Some 1 \<and> z = None)"
proof -
  let ?s1 = "do_act (Start 1) no_locks" and ?s2 = "do_act (Mkdir 1) (do_act (Start 1) no_locks)"
  let ?s3 = "do_act (Release 1) ?s2"
  have r: "fresh_run no_locks [(Start 1, ?s1), (Mkdir 1, ?s2), (Release 1, ?s3)]"
    by (auto simp: kept_fresh_def no_locks_def act_defs staleness_s_def simp del: do_act.simps intro!: lock_step.intros)
      (simp_all add: no_locks_def act_defs staleness_s_def)
  have h: "holders ?s2 = {1}" "holders ?s3 = {}" by (auto simp: holders_def no_locks_def act_defs)
  obtain xs where xs: "mutex_run None (zip [Start 1, Mkdir 1, Release 1] xs)"
    "list_all2 (\<lambda>(a, t) x. holders t = set_option x) [(Start 1, ?s1), (Mkdir 1, ?s2), (Release 1, ?s3)] xs"
    using lock_is_mutex [OF r] by auto
  obtain x y z where v: "xs = [x, y, z]" "holders ?s2 = set_option y" "holders ?s3 = set_option z"
    using xs(2) unfolding list_all2_Cons1 list_all2_Nil by force
  with h have "set_option y = {1}" "set_option z = {}" by (simp_all del: do_act.simps)
  then have "y = Some 1" "z = None" by (cases y; cases z; auto)+
  then show ?thesis using r h xs(1) v(1) by (auto simp: Let_def simp del: do_act.simps fresh_run.simps mutex_run.simps)
qed

text \<open>
  Taking over a stale lock is a race. After a holder died, two waiters that both found its
  directory stale can both come to hold the lock, though neither has died and no toucher was late: the second
  removes the directory that the first has just made. The release of one then removes the other's.
\<close>

theorem takeover_race:
  "\<exists>as s. run_acts as no_locks = Some s \<and> holders s = {2, 3} \<and> Die 2 \<notin> set as \<and> Die 3 \<notin> set as
    \<and> lk_dir s = Some (lk_now s) \<and> lk_dir (do_act (Release 2) s) = None"
proof -
  let ?as = "[Start 1, Mkdir 1, Die 1, Pass 11, Start 2, Start 3, Mkdir 2, Mkdir 3, Stat 2, Stat 3,
      Remove 2, Mkdir 2, Remove 3, Mkdir 3]"
  obtain s where s: "run_acts ?as no_locks = Some s" "lk_dir s = Some (lk_now s)"
    "lk_phase s = (\<lambda>_. Idle)(1 := Idle, 2 := Holding, 3 := Holding)"
    by (simp add: no_locks_def act_defs staleness_s_def fun_eq_iff)
  then have "holders s = {2, 3}" by (auto simp: holders_def)
  then show ?thesis using s by (intro exI [of _ ?as] exI [of _ s]) (simp add: act_defs)
qed

text \<open>A lock whose holder died is free again after the staleness limit: the next waiter takes it.\<close>

lemma dead_lock_taken:
  assumes "lk_dir s = Some m" "staleness_s < lk_now s - m" "lk_phase s p = Waiting"
  shows "\<exists>s'. run_acts [Mkdir p, Stat p, Remove p, Mkdir p] s = Some s' \<and> lk_phase s' p = Holding"
  using assms by (simp add: act_defs)

end
