(* ===== verification/OAuthFetch.thy ===== *)
theory OAuthFetch
  imports AutoTick
begin

text \<open>
  internal/oauth: one usage fetch for one account (fetch.go), the classification of its errors (classify.go),
  the answer of the usage endpoint (client.go) and its normalization (normalize.go). The network is a
  parameter: a request is a point where anything else may happen to the world, so a client call returns a
  world as well. The display strings of a reset time (\<open>FormatReset\<close>, in local time) are a parameter too.
\<close>

section \<open>The client\<close>

text \<open>
  What comes back for a usage request: a transport error, or a status with the decoded body (none if it is
  no JSON object or null) and the Retry-After header.
\<close>

datatype transport_error = TimedOutError | NetError | OtherTransport string

datatype usage_reply = NoReply transport_error | Reply int "json gomap option option" string

datatype usage_error = HttpError int string | Transport transport_error | BadBody

record client =
  cl_refresh :: "string \<Rightarrow> world \<Rightarrow> refresh_outcome \<times> world"
  cl_usage :: "string \<Rightarrow> world \<Rightarrow> usage_reply \<times> world"
  cl_instances :: "world \<Rightarrow> nat option"
  cl_format_reset :: "string \<Rightarrow> rat \<Rightarrow> (string \<times> string) option"
  cl_random :: "string \<Rightarrow> rat"

text \<open>\<open>HTTPClient.Usage\<close> on the reply.\<close>

definition usage_of_reply :: "usage_reply \<Rightarrow> usage_error + json gomap option" where
  "usage_of_reply r =
     (case r of
        NoReply t \<Rightarrow> Inl (Transport t)
      | Reply code body retry_after \<Rightarrow>
          if 400 \<le> code then Inl (HttpError code retry_after)
          else (case body of None \<Rightarrow> Inl BadBody | Some m \<Rightarrow> Inr m))"

definition parse_retry_after :: "string \<Rightarrow> go_float option" where
  "parse_retry_after raw =
     (let raw = trim_space raw
      in if raw = [] then None
         else (case parse_float raw of
                 None \<Rightarrow> None
               | Some (Fin r) \<Rightarrow> Some (Fin (max r 0))
               | Some (Infinite neg) \<Rightarrow> Some (if neg then Fin 0 else Infinite False)
               | Some NaN \<Rightarrow> Some NaN))"

text \<open>Delays are rationals from here on: an infinite one, or NaN, is left out.\<close>

definition finite_delay :: "go_float option \<Rightarrow> rat option" where
  "finite_delay f = (case f of Some (Fin r) \<Rightarrow> Some r | _ \<Rightarrow> None)"

definition is_401 :: "usage_error \<Rightarrow> bool" where
  "is_401 e \<longleftrightarrow> (case e of HttpError code _ \<Rightarrow> code = 401 | _ \<Rightarrow> False)"

definition classify_usage_error :: "usage_error \<Rightarrow> string \<times> rat option" where
  "classify_usage_error e =
     (case e of
        HttpError code retry_after \<Rightarrow> (''http-'' @ itoa code, finite_delay (parse_retry_after retry_after))
      | Transport TimedOutError \<Rightarrow> (''timeout'', None)
      | Transport NetError \<Rightarrow> (''network'', None)
      | Transport (OtherTransport name) \<Rightarrow> (name, None)
      | BadBody \<Rightarrow> (''bad-response'', None))"

section \<open>Normalization\<close>

definition add_reset :: "(string \<Rightarrow> (string \<times> string) option) \<Rightarrow> json gomap \<Rightarrow> json gomap \<Rightarrow> json gomap" where
  "add_reset format m entry =
     (let ra = str_field m ''resets_at''
      in if ra = [] then entry
         else (let entry = gm_put ''resets_at'' (JStr ra) entry
               in (case format ra of
                     None \<Rightarrow> entry
                   | Some (countdown, clk) \<Rightarrow> gm_put ''clock'' (JStr clk) (gm_put ''countdown'' (JStr countdown) entry))))"

definition simple_window :: "(string \<Rightarrow> (string \<times> string) option) \<Rightarrow> json \<Rightarrow> json gomap option" where
  "simple_window format v =
     (case as_map v of
        None \<Rightarrow> None
      | Some m \<Rightarrow> if m = [] then None else Some (add_reset format m [(''pct'', mget m ''utilization'')]))"

definition spend_entry :: "(string \<Rightarrow> (string \<times> string) option) \<Rightarrow> json \<Rightarrow> json gomap option" where
  "spend_entry format v =
     (case as_map v of
        None \<Rightarrow> None
      | Some m \<Rightarrow>
          if m = [] \<or> \<not> bool_field m ''is_enabled'' then None
          else (case (as_num (mget m ''used_credits''), as_num (mget m ''monthly_limit''), as_num (mget m ''utilization'')) of
                  (Some used, Some limit, Some util) \<Rightarrow>
                    (let currency = (if str_field m ''currency'' = [] then ''USD'' else str_field m ''currency'')
                     in Some (add_reset format m
                          [(''used'', JNum (used / 100)), (''limit'', JNum (limit / 100)), (''pct'', JNum util), (''currency'', JStr currency)]))
                | _ \<Rightarrow> None))"

definition scoped_entry :: "(string \<Rightarrow> (string \<times> string) option) \<Rightarrow> json \<Rightarrow> json option" where
  "scoped_entry format v =
     (case as_map v of
        None \<Rightarrow> None
      | Some lm \<Rightarrow>
          (let scope = (case as_map (mget lm ''scope'') of None \<Rightarrow> [] | Some s \<Rightarrow> s);
               name = (case as_map (mget scope ''model'') of None \<Rightarrow> [] | Some model \<Rightarrow> str_field model ''display_name'')
           in (case as_num (mget lm ''percent'') of
                 None \<Rightarrow> None
               | Some pct \<Rightarrow>
                   if name = [] then None
                   else Some (JObj (add_reset format lm [(''name'', JStr name), (''pct'', JNum pct)])))))"

definition scoped_entries :: "(string \<Rightarrow> (string \<times> string) option) \<Rightarrow> json \<Rightarrow> json list" where
  "scoped_entries format v =
     (case as_arr v of None \<Rightarrow> [] | Some items \<Rightarrow> List.map_filter (scoped_entry format) items)"

definition opt_member :: "string \<Rightarrow> json option \<Rightarrow> json gomap" where
  "opt_member k v = (case v of None \<Rightarrow> [] | Some x \<Rightarrow> [(k, x)])"

definition build_usage_result :: "(string \<Rightarrow> (string \<times> string) option) \<Rightarrow> json gomap option \<Rightarrow> json gomap option" where
  "build_usage_result format raw =
     (case raw of
        None \<Rightarrow> None
      | Some m \<Rightarrow>
          (let scoped = scoped_entries format (mget m ''limits'');
               result = opt_member ''five_hour'' (map_option JObj (simple_window format (mget m ''five_hour'')))
                 @ opt_member ''seven_day'' (map_option JObj (simple_window format (mget m ''seven_day'')))
                 @ opt_member ''spend'' (map_option JObj (spend_entry format (mget m ''extra_usage'')))
                 @ (if scoped = [] then [] else [(''scoped'', JArr scoped)])
           in if result = [] then None else Some result))"

section \<open>Token expiry\<close>

text \<open>\<open>IsOAuthTokenExpired\<close>: milliseconds are cut to integers; no number means not expired.\<close>

definition oauth_expiry_buffer_ms :: int where "oauth_expiry_buffer_ms = 300000"

definition token_expired_at :: "json \<Rightarrow> rat \<Rightarrow> bool" where
  "token_expired_at v now \<longleftrightarrow>
     (case as_num v of None \<Rightarrow> False | Some ms \<Rightarrow> (if 0 \<le> ms then \<lfloor>ms\<rfloor> else \<lceil>ms\<rceil>) \<le> \<lfloor>now * 1000\<rfloor> + oauth_expiry_buffer_ms)"

section \<open>One fetch\<close>

record usage_outcome =
  uo_usage :: "json gomap option"
  uo_error :: string
  uo_retry :: "rat option"

definition failed_fetch :: "string \<Rightarrow> rat option \<Rightarrow> usage_outcome" where
  "failed_fetch e r = \<lparr>uo_usage = None, uo_error = e, uo_retry = r\<rparr>"

text \<open>Keeping a rotated credential: no callback, or one that tells whether the credential was dropped.\<close>

type_synonym persist = "(string \<Rightarrow> world \<Rightarrow> bool \<times> world) option"

definition persist_credentials :: "persist \<Rightarrow> string \<Rightarrow> world \<Rightarrow> bool \<times> world" where
  "persist_credentials persist creds w = (case persist of None \<Rightarrow> (False, w) | Some f \<Rightarrow> f creds w)"

definition request_usage :: "client \<Rightarrow> string \<Rightarrow> world \<Rightarrow> (usage_error + json gomap option) \<times> world" where
  "request_usage cl token w = (let (r, w) = cl_usage cl token w in (usage_of_reply r, w))"

definition normalized :: "client \<Rightarrow> json gomap option \<Rightarrow> world \<Rightarrow> usage_outcome" where
  "normalized cl raw w = \<lparr>uo_usage = build_usage_result (\<lambda>ra. cl_format_reset cl ra (w_now w)) raw, uo_error = [], uo_retry = None\<rparr>"

text \<open>The second attempt after a 401: refresh, keep, ask once more.\<close>

definition retry_after_401 :: "client \<Rightarrow> persist \<Rightarrow> string \<Rightarrow> bool \<Rightarrow> world \<Rightarrow> (usage_outcome \<times> bool) \<times> world" where
  "retry_after_401 cl persist creds dropped w =
     (let (r, w) = cl_refresh cl creds w
      in if ro_credentials r = []
         then ((failed_fetch (if ro_error r = ''invalid_grant'' then ''invalid_grant'' else ''refresh-failed'') None, dropped), w)
         else (let (d, w) = persist_credentials persist (ro_credentials r) w; dropped = (dropped \<or> d);
                   token = extract_access_token (ro_credentials r)
               in if token = [] then ((failed_fetch ''refresh-failed'' None, dropped), w)
                  else (case request_usage cl token w of
                          (Inr raw, w) \<Rightarrow> ((normalized cl raw w, dropped), w)
                        | (Inl e, w) \<Rightarrow> (let (kind, retry) = classify_usage_error e in ((failed_fetch kind retry, dropped), w)))))"

text \<open>Asking with the token in hand: the answer, or the second attempt.\<close>

definition ask_usage ::
  "client \<Rightarrow> persist \<Rightarrow> bool \<Rightarrow> string \<Rightarrow> string \<Rightarrow> json gomap \<Rightarrow> bool \<Rightarrow> world \<Rightarrow> (usage_outcome \<times> bool) \<times> world" where
  "ask_usage cl persist active creds token oauth dropped w =
     (case request_usage cl token w of
        (Inr raw, w) \<Rightarrow> ((normalized cl raw w, dropped), w)
      | (Inl e, w) \<Rightarrow>
          if is_401 e \<and> \<not> active \<and> str_field oauth ''refreshToken'' \<noteq> []
          then retry_after_401 cl persist creds dropped w
          else (let (kind, retry) = classify_usage_error e in ((failed_fetch kind retry, dropped), w)))"

definition try_fetch_usage :: "client \<Rightarrow> string \<Rightarrow> bool \<Rightarrow> persist \<Rightarrow> world \<Rightarrow> (usage_outcome \<times> bool) \<times> world" where
  "try_fetch_usage cl creds active persist w =
     (let token = extract_access_token creds
      in (case extract_oauth_data creds of
            None \<Rightarrow> ((failed_fetch ''no-access-token'' None, False), w)
          | Some oauth \<Rightarrow>
              if token = [] then ((failed_fetch ''no-access-token'' None, False), w)
              else if \<not> active \<and> str_field oauth ''refreshToken'' \<noteq> [] \<and> token_expired_at (mget oauth ''expiresAt'') (w_now w)
              then (let (r, w) = cl_refresh cl creds w
                    in if ro_credentials r \<noteq> []
                       then (let (d, w) = persist_credentials persist (ro_credentials r) w; new = ro_credentials r;
                                 oauth' = (case extract_oauth_data new of None \<Rightarrow> oauth | Some o2 \<Rightarrow> o2);
                                 token' = (if str_field oauth' ''accessToken'' = [] then token else str_field oauth' ''accessToken'')
                             in ask_usage cl persist active new token' oauth' d w)
                       else if ro_error r = ''invalid_grant'' then ((failed_fetch ''invalid_grant'' None, False), w)
                       else ask_usage cl persist active creds token oauth False w)
              else ask_usage cl persist active creds token oauth False w))"

end
