(* ===== verification/Collect.thy ===== *)
theory Collect
  imports OAuthFetch
begin

text \<open>
  internal/reporting, the collection of usage (info.go, fetch.go, collect.go, pollinputs.go): the accounts
  with their credentials, what can be told without a request, the fetch of the active account and of the
  others with the keeping of rotated credentials, and the collection over the shared usage table. Fetches run
  one after the other here; in the program they start 250 ms apart and overlap.
\<close>

section \<open>The accounts\<close>

record account_info =
  ai_number :: int
  ai_email :: string
  ai_org_name :: string
  ai_org :: string
  ai_active :: bool
  ai_creds :: string
  ai_alias :: string
  ai_kc_unavailable :: bool

definition ai_num :: "account_info \<Rightarrow> string" where
  "ai_num i = itoa (ai_number i)"

definition info_email :: "json gomap \<Rightarrow> string" where
  "info_email rec = (if map_of rec ''email'' = None then ''unknown'' else str_field rec ''email'')"

definition build_info :: "seq_data \<Rightarrow> string \<Rightarrow> int \<Rightarrow> world \<Rightarrow> account_info \<times> world" where
  "build_info d active_slot n w =
     (let num = itoa n; rec = (case record_for (Some d) num of None \<Rightarrow> [] | Some r \<Rightarrow> r); email = info_email rec;
          active = (active_slot \<noteq> [] \<and> num = active_slot);
          ((creds, unavailable), w) =
            (if active then (case read_active w of (Inl _, w) \<Rightarrow> (([], False), w) | (Inr v, w) \<Rightarrow> (v, w))
             else (let (c, w) = read_account_credentials num email w in ((c, False), w)))
      in (\<lparr>ai_number = n, ai_email = email, ai_org_name = str_field rec ''organizationName'',
           ai_org = str_field rec ''organizationUuid'', ai_active = active, ai_creds = creds,
           ai_alias = str_field rec ''alias'', ai_kc_unavailable = unavailable\<rparr>, w))"

fun build_infos :: "seq_data \<Rightarrow> string \<Rightarrow> int list \<Rightarrow> world \<Rightarrow> account_info list \<times> world" where
  "build_infos d active_slot [] w = ([], w)"
| "build_infos d active_slot (n # ns) w =
     (let (i, w) = build_info d active_slot n w; (is, w) = build_infos d active_slot ns w in (i # is, w))"

definition build_accounts_info :: "world \<Rightarrow> account_info list \<times> world" where
  "build_accounts_info w =
     (case sequence_migrated w of
        (Inr (Some d), w) \<Rightarrow>
          build_infos d (case current_account w of None \<Rightarrow> [] | Some (email, org) \<Rightarrow> find_account_slot (Some d) email org) (seq_nums d) w
      | (_, w) \<Rightarrow> ([], w))"

section \<open>Without a request\<close>

text \<open>\<open>activeCCRunning\<close>: a probe that fails counts as a running instance.\<close>

definition active_cc_running :: "client \<Rightarrow> world \<Rightarrow> bool" where
  "active_cc_running cl w \<longleftrightarrow> (case cl_instances cl w of None \<Rightarrow> True | Some n \<Rightarrow> 0 < n)"

definition owned :: "client \<Rightarrow> string \<Rightarrow> string \<Rightarrow> world \<Rightarrow> bool" where
  "owned cl num email w \<longleftrightarrow> active_cc_running cl w \<or> live_session_pids_for num email w \<noteq> []"

definition expired_creds :: "string \<Rightarrow> rat \<Rightarrow> bool" where
  "expired_creds creds now \<longleftrightarrow>
     (case extract_oauth_data creds of None \<Rightarrow> False | Some oauth \<Rightarrow> token_expired_at (mget oauth ''expiresAt'') now)"

definition static_sentinel :: "client \<Rightarrow> account_info \<Rightarrow> world \<Rightarrow> string" where
  "static_sentinel cl i w =
     (if looks_like_api_key (ai_creds i) then ''api key''
      else if ai_creds i = [] \<or> extract_access_token (ai_creds i) = []
      then (if ai_active i \<and> ai_kc_unavailable i then ''keychain unavailable'' else ''no credentials'')
      else if ai_active i \<and> expired_creds (ai_creds i) (w_now w) \<and> owned cl (ai_num i) (ai_email i) w then ''token expired''
      else [])"

section \<open>Session profiles as a source\<close>

definition profile_value :: "string \<Rightarrow> world \<Rightarrow> string option \<times> world" where
  "profile_value dir w =
     (case profiles w dir of
        None \<Rightarrow> (None, w)
      | Some p \<Rightarrow>
          (case prof_creds p of
             None \<Rightarrow> (None, w)
           | Some c \<Rightarrow> (case os_call (\<lambda>w. w) w of (Some _, w) \<Rightarrow> (None, w) | (None, w) \<Rightarrow> (Some c, w))))"

definition read_session_credentials :: "string \<Rightarrow> world \<Rightarrow> string option \<times> world" where
  "read_session_credentials dir w =
     (if \<not> dir_exists dir w then (None, w)
      else if macos w
      then (let v = keychain w (keychain_service_name dir w, w_user w); (err, w) = kc_call (\<lambda>w. w) w
            in if err = None \<and> or_empty v \<noteq> [] then (v, w) else profile_value dir w)
      else profile_value dir w)"

definition read_session_identity :: "string \<Rightarrow> world \<Rightarrow> (string \<times> string) option \<times> world" where
  "read_session_identity dir w =
     (case (case profiles w dir of None \<Rightarrow> None | Some p \<Rightarrow> prof_config p) of
        None \<Rightarrow> (None, w)
      | Some t \<Rightarrow>
          (case os_call (\<lambda>w. w) w of
             (Some _, w) \<Rightarrow> (None, w)
           | (None, w) \<Rightarrow> (oauth_identity (case t of TRaw _ \<Rightarrow> None | TJson v \<Rightarrow> as_map v), w)))"

definition session_identity_drifted :: "string \<Rightarrow> string \<Rightarrow> string \<Rightarrow> world \<Rightarrow> bool \<times> world" where
  "session_identity_drifted dir email org w =
     (case read_session_identity dir w of
        (None, w) \<Rightarrow> (False, w)
      | (Some (e, o'), w) \<Rightarrow> (e \<noteq> email \<or> o' \<noteq> [] \<and> org \<noteq> [] \<and> o' \<noteq> org, w))"

section \<open>The fetch of one account\<close>

definition record_from :: "usage_outcome \<Rightarrow> fetch_record" where
  "record_from out = \<lparr>fr_usage = uo_usage out, fr_error = uo_error out, fr_retry_after = uo_retry out, fr_sentinel = []\<rparr>"

definition sentinel_record :: "string \<Rightarrow> fetch_record" where
  "sentinel_record s = \<lparr>fr_usage = None, fr_error = [], fr_retry_after = None, fr_sentinel = s\<rparr>"

definition refresh_token_of :: "string \<Rightarrow> string" where
  "refresh_token_of creds = (case extract_oauth_data creds of None \<Rightarrow> [] | Some oauth \<Rightarrow> str_field oauth ''refreshToken'')"

definition fingerprints_equal :: "string \<Rightarrow> string \<Rightarrow> bool" where
  "fingerprints_equal a b \<longleftrightarrow> credential_fingerprint a \<noteq> None \<and> credential_fingerprint a = credential_fingerprint b"

text \<open>
  Keeping a rotated live credential, under the three locks: nothing is written if an owner has appeared or
  the live credential has another refresh token than the one refreshed; \<open>True\<close> says that it was dropped.
\<close>

definition keep_active ::
  "client \<Rightarrow> string \<Rightarrow> string \<Rightarrow> string \<Rightarrow> string \<Rightarrow> world \<Rightarrow> (go_err + bool) \<times> world" where
  "keep_active cl original num email new w =
     (let (live, w) = read_active_value w
      in if owned cl num email w \<or> refresh_token_of (or_empty live) \<noteq> original then (Inr True, w)
         else (case write_active new w of
                 (Some e, w) \<Rightarrow> (Inl e, w)
               | (None, w) \<Rightarrow>
                   (case write_account_credentials num email new w of (Some e, w) \<Rightarrow> (Inl e, w) | (None, w) \<Rightarrow> (Inr False, w))))"

definition persist_active :: "client \<Rightarrow> string \<Rightarrow> string \<Rightarrow> string \<Rightarrow> string \<Rightarrow> world \<Rightarrow> bool \<times> world" where
  "persist_active cl original num email new w =
     (case with_triple_lock (keep_active cl original num email new) w of (Inl _, w) \<Rightarrow> (True, w) | (Inr d, w) \<Rightarrow> (d, w))"

definition show_or_expired :: "string \<Rightarrow> usage_outcome \<Rightarrow> world \<Rightarrow> fetch_record" where
  "show_or_expired creds out w =
     (if uo_usage out = None \<and> expired_creds creds (w_now w) then sentinel_record ''token expired'' else record_from out)"

definition fetch_active_usage :: "client \<Rightarrow> string \<Rightarrow> string \<Rightarrow> string \<Rightarrow> world \<Rightarrow> fetch_record \<times> world" where
  "fetch_active_usage cl num email creds w =
     (if extract_access_token creds = [] then (sentinel_record ''no credentials'', w)
      else
        (let own = owned cl num email w;
             (unattributed, w) =
               (if own then (False, w)
                else (let (backup, w) = read_account_credentials num email w
                      in (creds \<noteq> backup \<and> \<not> fingerprints_equal creds backup, w)))
         in if own \<or> unattributed
            then (if expired_creds creds (w_now w) then (sentinel_record ''token expired'', w)
                  else (let ((out, _), w) = try_fetch_usage cl creds True None w in (show_or_expired creds out w, w)))
            else (let ((out, dropped), w) =
                        try_fetch_usage cl creds False (Some (persist_active cl (refresh_token_of creds) num email)) w
                  in (if dropped then sentinel_record ''token expired'' else show_or_expired creds out w, w))))"

text \<open>For a slot that is not active a failed write of the rotated credential is only reported.\<close>

definition persist_backup :: "string \<Rightarrow> string \<Rightarrow> string \<Rightarrow> world \<Rightarrow> bool \<times> world" where
  "persist_backup num email new w = (let (e, w) = persist_backup_credentials num email new w in (e \<noteq> None, w))"

definition fetch_inactive_usage :: "client \<Rightarrow> account_info \<Rightarrow> world \<Rightarrow> fetch_record \<times> world" where
  "fetch_inactive_usage cl i w =
     (let num = ai_num i; live = live_session_pids_for num (ai_email i) w \<noteq> []; dir = session_dir num (ai_email i) w;
          (session, w) = read_session_credentials dir w;
          (drifted, w) = (case session of None \<Rightarrow> (False, w) | Some _ \<Rightarrow> session_identity_drifted dir (ai_email i) (ai_org i) w);
          live = (live \<and> \<not> drifted); session = (if drifted then None else session);
          usable = (case session of None \<Rightarrow> False | Some c \<Rightarrow> extract_access_token c \<noteq> [])
      in if usable \<and> \<not> expired_creds (or_empty session) (w_now w)
         then (let ((out, _), w) = try_fetch_usage cl (or_empty session) True None w in (record_from out, w))
         else if usable \<and> live then (sentinel_record ''token expired'', w)
         else (let ((out, _), w) = try_fetch_usage cl (ai_creds i) live (Some (persist_backup num (ai_email i))) w
               in (record_from out, w)))"

definition fetch_account_usage :: "client \<Rightarrow> account_info \<Rightarrow> world \<Rightarrow> fetch_record \<times> world" where
  "fetch_account_usage cl i =
     (if ai_active i then fetch_active_usage cl (ai_num i) (ai_email i) (ai_creds i) else fetch_inactive_usage cl i)"

fun run_usage_fetches :: "client \<Rightarrow> account_info list \<Rightarrow> world \<Rightarrow> (string \<times> fetch_record) list \<times> world" where
  "run_usage_fetches cl [] w = ([], w)"
| "run_usage_fetches cl (i # is) w =
     (let (r, w) = fetch_account_usage cl i w; (rs, w) = run_usage_fetches cl is w in ((ai_num i, r) # rs, w))"

section \<open>Poll plans\<close>

type_synonym poll_inputs = "(rat \<times> string list) option"

definition resolve_poll_inputs :: "poll_inputs \<Rightarrow> world \<Rightarrow> (rat \<times> string list) \<times> world" where
  "resolve_poll_inputs override w =
     (case override of
        Some inputs \<Rightarrow> (inputs, w)
      | None \<Rightarrow> (let (s, w) = load_settings w in ((as_threshold s, parse_model_names (as_model s)), w)))"

definition recent_429_window_s :: rat where "recent_429_window_s = 3600"

definition plan_for ::
  "client \<Rightarrow> rat \<Rightarrow> rat \<times> string list \<Rightarrow> string \<Rightarrow> bool \<Rightarrow> usage_entry \<Rightarrow> usage_entry \<Rightarrow> poll_plan" where
  "plan_for cl now inputs num active pre post =
     (let (next, interval) = plan_after_fetch
            \<lparr>prev_interval_s = u_poll_interval pre, prev_usage = (case u_last_good pre of None \<Rightarrow> [] | Some m \<Rightarrow> m),
             cur_usage = (case u_last_good post of None \<Rightarrow> [] | Some m \<Rightarrow> m), is_active = active, threshold = fst inputs,
             plan_models = snd inputs,
             recent_429 = (case u_last_429 pre of None \<Rightarrow> False | Some t \<Rightarrow> now - t < recent_429_window_s),
             plan_now = now, plan_rng = cl_random cl num\<rparr>
      in (Some next, Some interval))"

definition persist_poll_plans ::
  "client \<Rightarrow> poll_inputs \<Rightarrow> (string \<times> fetch_record) list \<Rightarrow> (string \<Rightarrow> usage_entry) \<Rightarrow> (string \<Rightarrow> usage_entry) \<Rightarrow>
   (string \<Rightarrow> bool) \<Rightarrow> (string \<Rightarrow> identity) \<Rightarrow> world \<Rightarrow> world" where
  "persist_poll_plans cl override records pre post active ids w =
     (let now = w_now w; (inputs, w) = resolve_poll_inputs override w;
          plans = List.map_filter (\<lambda>(num, r).
            if fr_sentinel r \<noteq> [] \<or> fr_error r \<noteq> [] \<or> u_fetched_at (post num) = None then None
            else Some (num, plan_for cl now inputs num (active num) (pre num) (post num))) records
      in if plans = [] then w else ignoring (set_poll_plan plans ids) w)"

section \<open>The collection\<close>

definition info_of :: "account_info list \<Rightarrow> string \<Rightarrow> account_info option" where
  "info_of infos num = map_of (rev (map (\<lambda>i. (ai_num i, i)) infos)) num"

definition ids_of :: "account_info list \<Rightarrow> string \<Rightarrow> identity" where
  "ids_of infos num = (case info_of infos num of None \<Rightarrow> ([], []) | Some i \<Rightarrow> (ai_email i, ai_org i))"

definition entry_map :: "(string \<times> usage_entry) list \<Rightarrow> string \<Rightarrow> usage_entry" where
  "entry_map es num = (case map_of es num of None \<Rightarrow> empty_entry | Some e \<Rightarrow> e)"

definition read_entries :: "account_info list \<Rightarrow> world \<Rightarrow> (string \<Rightarrow> usage_entry) \<times> world" where
  "read_entries infos w =
     (let (es, w) = entries (map (\<lambda>i. (ai_num i, ids_of infos (ai_num i))) infos) w in (entry_map es, w))"

text \<open>The sentinels known before any request: the static ones, then dead tokens.\<close>

definition static_sentinels :: "client \<Rightarrow> account_info list \<Rightarrow> world \<Rightarrow> (string \<times> string) list" where
  "static_sentinels cl infos w =
     rev (filter (\<lambda>(_, s). s \<noteq> []) (map (\<lambda>i. (ai_num i, static_sentinel cl i w)) infos))"

definition sentinel_of :: "(string \<times> string) list \<Rightarrow> string \<Rightarrow> string" where
  "sentinel_of m num = or_empty (map_of m num)"

definition with_dead :: "string list \<Rightarrow> (string \<Rightarrow> usage_entry) \<Rightarrow> (string \<times> string) list \<Rightarrow> (string \<times> string) list" where
  "with_dead nums es m = map (\<lambda>num. (num, ''re-login needed'')) (filter (\<lambda>num. token_dead (es num)) nums) @ m"

definition collect_requests ::
  "client \<Rightarrow> poll_inputs \<Rightarrow> account_info list \<Rightarrow> bool \<Rightarrow> string list \<Rightarrow> (string \<Rightarrow> usage_entry) \<Rightarrow> (string \<times> string) list \<Rightarrow> world \<Rightarrow>
   ((string \<Rightarrow> usage_entry) \<times> (string \<times> string) list) \<times> world" where
  "collect_requests cl override infos respect requested pre sentinels w =
     (let ids = ids_of infos; (won, w) = reserve requested ids respect w; nums = (case won of Inl _ \<Rightarrow> [] | Inr ns \<Rightarrow> ns)
      in if nums = [] then ((pre, sentinels), w)
         else
           (let (records, w) = run_usage_fetches cl (List.map_filter (info_of infos) nums) w;
                w = ignoring (record_outcomes records ids) w;
                sentinels = rev (List.map_filter (\<lambda>(num, r). if fr_sentinel r = [] then None else Some (num, fr_sentinel r)) records) @ sentinels;
                (post, w) = read_entries infos w;
                w = persist_poll_plans cl override records pre post
                      (\<lambda>num. case info_of infos num of None \<Rightarrow> False | Some i \<Rightarrow> ai_active i) ids w
            in ((post, with_dead nums post sentinels), w)))"

definition collect_usage_entries ::
  "client \<Rightarrow> poll_inputs \<Rightarrow> account_info list \<Rightarrow> string set option \<Rightarrow> world \<Rightarrow> (string \<times> usage_entry) list \<times> world" where
  "collect_usage_entries cl override infos fetch w =
     (let static = static_sentinels cl infos w; (pre, w) = read_entries infos w; nums = map ai_num infos;
          sentinels = with_dead (filter (\<lambda>n. sentinel_of static n = []) nums) pre static;
          requested = filter (\<lambda>n. sentinel_of sentinels n = [] \<and> (case fetch of None \<Rightarrow> True | Some S \<Rightarrow> n \<in> S)) nums;
          ((es, sentinels), w) =
            (if requested = [] then ((pre, sentinels), w)
             else collect_requests cl override infos (fetch = None) requested pre sentinels w)
      in (map (\<lambda>n. (n, with_sentinel (es n) (sentinel_of sentinels n))) nums, w))"

definition usage_entries_by_account ::
  "client \<Rightarrow> poll_inputs \<Rightarrow> string set option \<Rightarrow> world \<Rightarrow> (string \<times> usage_entry) list \<times> world" where
  "usage_entries_by_account cl override fetch w =
     (let (infos, w) = build_accounts_info w in collect_usage_entries cl override infos fetch w)"

definition usage_by_account :: "client \<Rightarrow> poll_inputs \<Rightarrow> world \<Rightarrow> (string \<times> decision) list \<times> world" where
  "usage_by_account cl override w =
     (let (es, w) = usage_entries_by_account cl override None w in (decision_values es, w))"

end
