(* ===== verification/Collected.thy ===== *)
theory Collected
  imports Collect
begin

text \<open>
  The collection of usage (Collect): what it leaves alone, that usage is shown only for the token in hand
  or for a rotated credential that was kept, what two rotations in one fetch do, and the accounts that need
  no request.
\<close>

section \<open>What a collection touches\<close>

text \<open>A client whose requests, and whatever happens during them, change only some places.\<close>

definition client_within :: "resource set \<Rightarrow> client \<Rightarrow> bool" where
  "client_within R cl \<longleftrightarrow> (\<forall>c w. touches R w (snd (cl_refresh cl c w))) \<and> (\<forall>t w. touches R w (snd (cl_usage cl t w)))"

lemma touches_client:
  "client_within R cl \<Longrightarrow> touches R w w1 \<Longrightarrow> touches R w (snd (cl_refresh cl c w1))"
  "client_within R cl \<Longrightarrow> touches R w w1 \<Longrightarrow> touches R w (snd (cl_usage cl t w1))"
  unfolding client_within_def by (blast intro: touches_trans)+

lemma touches_collect_values [frames]:
  fixes q :: "usage_outcome \<times> bool" and q2 :: "string \<times> rat option" and q3 :: "string \<times> bool"
    and q4 :: "(string \<Rightarrow> usage_entry) \<times> (string \<times> string) list" and q5 :: "rat \<times> string list" and q6 :: "string list \<times> json gomap"
  shows "(\<And>a b. touches R w (snd (k a b))) \<Longrightarrow> touches R w (snd (case_prod k q))"
    "(\<And>a b. touches R w (snd (k2 a b))) \<Longrightarrow> touches R w (snd (case_prod k2 q2))"
    "(\<And>a b. touches R w (snd (k3 a b))) \<Longrightarrow> touches R w (snd (case_prod k3 q3))"
    "(\<And>a b. touches R w (snd (k4 a b))) \<Longrightarrow> touches R w (snd (case_prod k4 q4))"
    "(\<And>a b. touches R w (snd (k5 a b))) \<Longrightarrow> touches R w (snd (case_prod k5 q5))"
    "(\<And>a b. touches R w (snd (k6 a b))) \<Longrightarrow> touches R w (snd (case_prod k6 q6))"
  by (simp_all add: case_prod_unfold)

definition persist_within :: "resource set \<Rightarrow> persist \<Rightarrow> bool" where
  "persist_within R p \<longleftrightarrow> (\<forall>f c w. p = Some f \<longrightarrow> touches R w (snd (f c w)))"

lemma touches_persist:
  assumes "persist_within R p" "touches R w w1"
  shows "touches R w (snd (persist_credentials p c w1))"
  using assms touches_trans [OF assms(2)] by (cases p) (auto simp: persist_within_def persist_credentials_def)

lemma touches_request_usage: "client_within R cl \<Longrightarrow> touches R w w1 \<Longrightarrow> touches R w (snd (request_usage cl t w1))"
  using touches_client(2) by (simp add: request_usage_def case_prod_unfold Let_def)

lemma touches_try_fetch:
  assumes "client_within R cl" "persist_within R p" "touches R w w1"
  shows "touches R w (snd (try_fetch_usage cl creds active p w1))"
proof -
  note t = touches_client [OF assms(1)] touches_persist [OF assms(2)] touches_request_usage [OF assms(1)]
  have r: "touches R w (snd (retry_after_401 cl p c d w2))" if "touches R w w2" for c d w2
    unfolding retry_after_401_def Let_def using that by (intro frames t) simp_all
  have a: "touches R w (snd (ask_usage cl p active c tok oauth d w2))" if "touches R w w2" for c tok oauth d w2
    unfolding ask_usage_def Let_def using that by (intro frames t r)
  show ?thesis unfolding try_fetch_usage_def Let_def using assms(3) by (intro frames t a) simp_all
qed

lemma touches_keep_active [frames]:
  "touches not_auto w w1 \<Longrightarrow> touches not_auto w (snd (keep_active cl orig num email new w1))"
  unfolding keep_active_def Let_def by (intro frames; simp)

lemma touches_fetch:
  assumes "client_within not_auto cl" "touches not_auto w w1"
  shows "touches not_auto w (snd (fetch_account_usage cl i w1))"
proof -
  have pa: "persist_within not_auto (Some (persist_active cl orig num email))" for orig num email
    unfolding persist_within_def persist_active_def with_triple_lock_def
    by (auto intro!: frames touches_refl)
  have pb: "persist_within not_auto (Some (persist_backup num email))" for num email
    unfolding persist_within_def persist_backup_def Let_def by (auto intro!: frames touches_refl)
  have pn: "persist_within not_auto None" by (simp add: persist_within_def)
  note t = touches_try_fetch [OF assms(1) pa] touches_try_fetch [OF assms(1) pb] touches_try_fetch [OF assms(1) pn]
  have "touches not_auto w (snd (fetch_active_usage cl num email creds w1))" for num email creds
    unfolding fetch_active_usage_def Let_def using assms(2) by (intro frames t; simp)
  moreover have "touches not_auto w (snd (fetch_inactive_usage cl i w1))"
    unfolding fetch_inactive_usage_def read_session_credentials_def session_identity_drifted_def read_session_identity_def
      profile_value_def Let_def
    using assms(2) by (intro frames t; simp)
  ultimately show ?thesis by (simp add: fetch_account_usage_def)
qed

lemma touches_fetches:
  "client_within not_auto cl \<Longrightarrow> touches not_auto w w1 \<Longrightarrow> touches not_auto w (snd (run_usage_fetches cl is w1))"
proof (induction "is" arbitrary: w1)
  case (Cons i "is")
  have "touches not_auto w (snd (fetch_account_usage cl i w1))" by (rule touches_fetch [OF Cons.prems])
  then show ?case using Cons.IH [OF Cons.prems(1)] by (simp add: case_prod_unfold Let_def)
qed simp

lemma touches_build_infos: "touches R w w1 \<Longrightarrow> touches R w (snd (build_infos d a ns w1))"
proof (induction ns arbitrary: w1)
  case (Cons n ns)
  have "touches R w (snd (build_info d a n w1))"
    using Cons.prems unfolding build_info_def Let_def by (intro frames; simp split: prod.split)
  then show ?case using Cons.IH by (simp add: case_prod_unfold Let_def)
qed simp

lemma touches_collect:
  assumes "client_within not_auto cl" "touches not_auto w w1"
  shows "touches not_auto w (snd (usage_entries_by_account cl override fetch w1))"
proof -
  note t = touches_fetches [OF assms(1)] touches_build_infos
  show ?thesis
    unfolding usage_entries_by_account_def build_accounts_info_def collect_usage_entries_def collect_requests_def
      read_entries_def entries_def persist_poll_plans_def resolve_poll_inputs_def load_settings_def read_raw_def
      reserve_def record_outcomes_def Let_def
    using assms(2) by (intro frames t; simp)
qed

section \<open>Rotated credentials\<close>

definition live_stored :: "string \<Rightarrow> world \<Rightarrow> bool" where
  "live_stored c w \<longleftrightarrow> keychain w (claude_code_service, w_user w) = Some c \<or> live_creds w = Some c"

text \<open>A rotated credential is kept: in the live store and in the slot's backup.\<close>

definition kept :: "string \<Rightarrow> string \<Rightarrow> string \<Rightarrow> world \<Rightarrow> bool" where
  "kept num email c w \<longleftrightarrow> live_stored c w \<and> backup_of num email w = c"

lemma live_stored_touches:
  assumes "touches R w w'" "RKeychain (claude_code_service, w_user w) \<notin> R" "RLiveCreds \<notin> R"
  shows "live_stored c w' = live_stored c w"
  using touches_same [OF assms(1,2)] touches_same [OF assms(1,3)] touches_facts(2) [OF assms(1)] by (simp add: live_stored_def)

lemma kept_touches: "touches {} w w' \<Longrightarrow> kept num email c w' = kept num email c w"
  using live_stored_touches [of "{}" w w' c] backup_of_touches [of "{}" w w' num email] by (simp add: kept_def)

lemma live_place_apart [simp]:
  "claude_code_service \<noteq> keychain_service_name dir w" "claude_code_service \<noteq> security_service"
  by (metis profile_places_apart(2)) (metis services_differ(3))

lemma keep_active_kept:
  assumes "keep_active cl orig num email new w = (Inr False, w')" "oauth_credential new"
  shows "kept num email new w'"
proof -
  obtain w1 w2 where w: "write_active new w1 = (None, w2)" "write_account_credentials num email new w2 = (None, w')"
    using assms(1) by (auto simp: keep_active_def Let_def split: prod.splits option.splits if_splits)
  have "live_stored new w2"
    using write_active_held [OF w(1) assms(2)] by (auto simp: login_held_def live_stored_def keychain_val_def or_empty_def split: if_splits option.splits)
  moreover have "touches (backup_resources num email \<union> profile_resources (session_dir num email w2) w2) w2 w'"
    by (rule touches_result [OF w(2)]) (intro frames; auto)
  then have "live_stored new w' = live_stored new w2"
    by (rule live_stored_touches) (auto simp: backup_resources_def profile_resources_def)
  moreover have "new \<noteq> []" using assms(2) by (auto simp: oauth_credential_def)
  ultimately show ?thesis using write_account_credentials_ok [OF w(2)] by (simp add: kept_def)
qed

lemma persist_active_kept:
  assumes "persist_active cl orig num email new w = (False, w')" "oauth_credential new"
  shows "kept num email new w'"
proof -
  have "with_triple_lock (keep_active cl orig num email new) w = (Inr False, w')"
    using assms(1) by (auto simp: persist_active_def split: prod.splits sum.splits)
  then obtain w1 where "keep_active cl orig num email new w1 = (Inr False, w')" by (rule with_triple_lock_ok)
  then show ?thesis by (rule keep_active_kept [OF _ assms(2)])
qed

text \<open>The usage was reported for that token.\<close>

definition reported :: "client \<Rightarrow> string \<Rightarrow> json gomap \<Rightarrow> bool" where
  "reported cl token u \<longleftrightarrow>
     (\<exists>v raw now. usage_of_reply (fst (cl_usage cl token v)) = Inr raw \<and> build_usage_result (\<lambda>ra. cl_format_reset cl ra now) raw = Some u)"

lemma request_reported:
  assumes "request_usage cl token w = (Inr raw, w')" "uo_usage (normalized cl raw w') = Some u"
  shows "reported cl token u"
  using assms unfolding reported_def request_usage_def normalized_def by (auto simp: Let_def case_prod_unfold)

definition quiet_requests :: "client \<Rightarrow> bool" where
  "quiet_requests cl \<longleftrightarrow> (\<forall>t w. touches {} w (snd (cl_usage cl t w)))"

definition oauth_refreshes :: "client \<Rightarrow> bool" where
  "oauth_refreshes cl \<longleftrightarrow> (\<forall>c w. ro_credentials (fst (cl_refresh cl c w)) \<noteq> [] \<longrightarrow> oauth_credential (ro_credentials (fst (cl_refresh cl c w))))"

lemma request_quiet: "quiet_requests cl \<Longrightarrow> request_usage cl t w = (r, w') \<Longrightarrow> touches {} w w'"
  by (auto simp: quiet_requests_def request_usage_def Let_def case_prod_unfold)

lemma retry_kept:
  assumes "quiet_requests cl" "oauth_refreshes cl"
    "retry_after_401 cl (Some (persist_active cl orig num email)) creds d w = ((out, False), w')" "uo_usage out = Some u"
  shows "\<exists>new. kept num email new w' \<and> reported cl (extract_access_token new) u"
proof -
  obtain r w1 where r: "cl_refresh cl creds w = (r, w1)" by fastforce
  obtain d' w2 where d: "persist_active cl orig num email (ro_credentials r) w1 = (d', w2)" by fastforce
  obtain q w3 where q: "request_usage cl (extract_access_token (ro_credentials r)) w2 = (q, w3)" by fastforce
  obtain raw where k: "ro_credentials r \<noteq> []" "\<not> d'" "q = Inr raw" "out = normalized cl raw w3" "w3 = w'"
    using assms(3,4) r d q
    by (auto simp: retry_after_401_def persist_credentials_def failed_fetch_def Let_def split: if_splits sum.splits prod.splits)
  have "oauth_credential (ro_credentials r)" using assms(2) r k(1) by (metis oauth_refreshes_def fst_conv)
  then have "kept num email (ro_credentials r) w2" using persist_active_kept d k(2) by simp
  then have "kept num email (ro_credentials r) w'" using kept_touches [OF request_quiet [OF assms(1) q]] k(5) by simp
  then show ?thesis using request_reported [OF q [unfolded k(3)]] assms(4) k(4) by blast
qed

lemma ask_kept:
  assumes "quiet_requests cl" "oauth_refreshes cl"
    "ask_usage cl (Some (persist_active cl orig num email)) False creds token oauth d w = ((out, False), w')" "uo_usage out = Some u"
  shows "\<not> d \<and> touches {} w w' \<and> reported cl token u \<or> (\<exists>new. kept num email new w' \<and> reported cl (extract_access_token new) u)"
proof -
  obtain q w1 where q: "request_usage cl token w = (q, w1)" by fastforce
  show ?thesis
  proof (cases q)
    case (Inr raw)
    then have "out = normalized cl raw w1" "\<not> d" "w' = w1" using assms(3) q by (auto simp: ask_usage_def)
    then show ?thesis using request_reported [OF q [unfolded Inr]] assms(4) request_quiet [OF assms(1) q] by blast
  next
    case (Inl e)
    then have "retry_after_401 cl (Some (persist_active cl orig num email)) creds d w1 = ((out, False), w')"
      using assms(3,4) q by (auto simp: ask_usage_def failed_fetch_def split: if_splits prod.splits)
    then show ?thesis using retry_kept [OF assms(1,2) _ assms(4)] by blast
  qed
qed

lemma try_fetch_kept:
  assumes "quiet_requests cl" "oauth_refreshes cl"
    "try_fetch_usage cl creds False (Some (persist_active cl orig num email)) w = ((out, False), w')" "uo_usage out = Some u"
  shows "reported cl (extract_access_token creds) u \<or> (\<exists>new. kept num email new w' \<and> reported cl (extract_access_token new) u)"
proof -
  let ?token = "extract_access_token creds" and ?p = "Some (persist_active cl orig num email)"
  obtain oauth where oauth: "extract_oauth_data creds = Some oauth" "?token \<noteq> []"
    using assms(3,4) by (auto simp: try_fetch_usage_def failed_fetch_def Let_def split: option.splits if_splits)
  obtain r w1 where r: "cl_refresh cl creds w = (r, w1)" by fastforce
  obtain d w2 where d: "persist_active cl orig num email (ro_credentials r) w1 = (d, w2)" by fastforce
  define new where "new = ro_credentials r"
  define o2 where "o2 = (case extract_oauth_data new of None \<Rightarrow> oauth | Some o' \<Rightarrow> o')"
  define t2 where "t2 = (if str_field o2 ''accessToken'' = [] then ?token else str_field o2 ''accessToken'')"
  consider (old) v where "ask_usage cl ?p False creds ?token oauth False v = ((out, False), w')"
    | (rot) "new \<noteq> []" "ask_usage cl ?p False new t2 o2 d w2 = ((out, False), w')"
    using assms(3,4) oauth r d unfolding new_def t2_def o2_def
    by (auto simp: try_fetch_usage_def failed_fetch_def persist_credentials_def Let_def split: if_splits)
  then show ?thesis
  proof cases
    case old
    then show ?thesis using ask_kept [OF assms(1,2) old assms(4)] by blast
  next
    case rot
    have oc: "oauth_credential new" using assms(2) r rot(1) unfolding new_def by (metis oauth_refreshes_def fst_conv)
    have t2: "t2 = ?token \<or> t2 = extract_access_token new"
      using oauth by (auto simp: t2_def o2_def extract_access_token_def split: option.splits)
    from ask_kept [OF assms(1,2) rot(2) assms(4)] show ?thesis
    proof
      assume a: "\<not> d \<and> touches {} w2 w' \<and> reported cl t2 u"
      then have "kept num email new w'" using persist_active_kept [of cl orig num email new w1 w2] d oc kept_touches unfolding new_def by auto
      then show ?thesis using a t2 by auto
    qed blast
  qed
qed

text \<open>The live credential may be rotated: no other process uses it, and it is the slot's own.\<close>

definition may_rotate :: "client \<Rightarrow> string \<Rightarrow> string \<Rightarrow> string \<Rightarrow> world \<Rightarrow> bool" where
  "may_rotate cl num email creds w \<longleftrightarrow>
     \<not> owned cl num email w \<and> (let backup = fst (read_account_credentials num email w) in creds = backup \<or> fingerprints_equal creds backup)"

lemma try_fetch_as_is:
  assumes "quiet_requests cl" "try_fetch_usage cl creds True None w = ((out, d), w')"
  shows "touches {} w w'" "uo_usage out = Some u \<Longrightarrow> reported cl (extract_access_token creds) u"
proof -
  obtain q w1 where q: "request_usage cl (extract_access_token creds) w = (q, w1)" by fastforce
  have "w' = w \<or> w' = w1"
    using assms(2) q by (auto simp: try_fetch_usage_def ask_usage_def Let_def split: option.splits if_splits prod.splits sum.splits)
  then show "touches {} w w'" using request_quiet [OF assms(1) q] by auto
  show "reported cl (extract_access_token creds) u" if "uo_usage out = Some u"
    using assms(2) that request_reported
    by (auto simp: try_fetch_usage_def ask_usage_def failed_fetch_def Let_def split: option.splits if_splits prod.splits sum.splits)
qed

lemma fetch_active_cases:
  assumes "fetch_active_usage cl num email creds w = (rec, w')" "fr_usage rec = Some u"
  obtains (as_is) out d v where "touches {} w v" "try_fetch_usage cl creds True None v = ((out, d), w')" "uo_usage out = Some u"
      "\<not> may_rotate cl num email creds w"
    | (rotating) out v where "try_fetch_usage cl creds False (Some (persist_active cl (refresh_token_of creds) num email)) v = ((out, False), w')"
        "uo_usage out = Some u" "may_rotate cl num email creds w"
proof -
  have shown: "uo_usage out = Some u" if "fr_usage (show_or_expired creds out v) = Some u" for out v
    using that by (auto simp: show_or_expired_def sentinel_record_def record_from_def split: if_splits)
  obtain b w1 where b: "read_account_credentials num email w = (b, w1)" by fastforce
  have t: "touches {} w w1" by (rule touches_result [OF b]) (intro frames; simp)
  show ?thesis
  proof (cases "may_rotate cl num email creds w")
    case True
    then show ?thesis
      using assms shown b rotating
      by (auto simp: fetch_active_usage_def may_rotate_def sentinel_record_def Let_def split: if_splits prod.splits)
  next
    case False
    then show ?thesis
      using assms shown b as_is [OF touches_refl] as_is [OF t]
      by (auto simp: fetch_active_usage_def may_rotate_def sentinel_record_def Let_def split: if_splits prod.splits)
  qed
qed

text \<open>
  Property C3: the usage shown for the active account belongs to a token that was not lost. When the fetch
  of the active account yields usage, under any faults, then it was reported for the access token the
  credential was read with, or for the token of a rotated credential that is now both the live credential
  and the slot's backup. And a credential some other process uses, or one that is not the slot's own (neither
  equal to what the backup read as, nor sharing its refresh token), is not rotated at all: the usage was
  reported for its token, and no file or Keychain entry changed. (The requests for usage leave the files
  alone, and a refresh returns OAuth credentials; during a refresh anything else may happen.)
\<close>

theorem shown_usage_was_kept:
  assumes "quiet_requests cl" "oauth_refreshes cl" "fetch_active_usage cl num email creds w = (rec, w')" "fr_usage rec = Some u"
  shows "(reported cl (extract_access_token creds) u
      \<or> (\<exists>new. live_stored new w' \<and> backup_of num email w' = new \<and> reported cl (extract_access_token new) u))
    \<and> (\<not> may_rotate cl num email creds w \<longrightarrow> touches {} w w' \<and> reported cl (extract_access_token creds) u)"
  using assms(3,4)
proof (cases rule: fetch_active_cases)
  case (as_is out d v)
  then show ?thesis using try_fetch_as_is [OF assms(1)] by (blast intro: touches_trans)
next
  case (rotating out v)
  then show ?thesis using try_fetch_kept [OF assms(1,2)] unfolding kept_def by blast
qed

section \<open>Accounts that need no request\<close>

lemma reserve_rows_subset: "reserve_rows ids now rp nums rows = (won, rows') \<Longrightarrow> set won \<subseteq> set nums"
proof (induction nums arbitrary: rows won rows')
  case (Cons num nums)
  then show ?case
    by (cases "row_matches (mget rows num) (ids num) \<and> \<not> row_eligible (decode_record (mget rows num)) now rp")
      (auto simp: Let_def split: prod.splits dest!: Cons.IH)
qed simp

lemma reserve_subset: "reserve nums ids rp w = (Inr won, w') \<Longrightarrow> set won \<subseteq> set nums"
  by (auto simp: reserve_def Let_def split: if_splits option.splits prod.splits dest!: reserve_rows_subset)

lemma fetched_numbers: "map fst (fst (run_usage_fetches cl is w)) = map ai_num is"
  by (induction "is" arbitrary: w) (auto simp: Let_def case_prod_unfold)

lemma info_of_num: "info_of infos n = Some i \<Longrightarrow> ai_num i = n"
  by (auto simp: info_of_def dest!: map_of_SomeD)

lemma map_of_skip: "k \<notin> fst ` set xs \<Longrightarrow> map_of (xs @ ys) k = map_of ys k"
  by (induction xs) auto

lemma record_sentinels: "fst ` set (List.map_filter (\<lambda>(num, r). if P r then None else Some (num, g r)) records) \<subseteq> fst ` set records"
proof (induction records)
  case (Cons x records)
  then show ?case by (cases x) (simp add: List.map_filter_simps, blast)
qed (simp add: List.map_filter_simps)

lemma map_of_tabulate: "n \<in> set ns \<Longrightarrow> map_of (map (\<lambda>n. (n, f n)) ns) n = Some (f n)"
  by (induction ns) auto

lemma with_dead_skip: "n \<notin> set nums \<Longrightarrow> sentinel_of (with_dead nums es m) n = sentinel_of m n"
  unfolding sentinel_of_def with_dead_def by (subst map_of_skip) auto

lemma collect_requests_keeps:
  assumes "n \<notin> set requested" "collect_requests cl override infos rp requested pre m w = ((es, m'), w')"
  shows "sentinel_of m' n = sentinel_of m n"
proof -
  obtain won w1 where r: "reserve requested (ids_of infos) rp w = (won, w1)" by fastforce
  let ?nums = "case won of Inl _ \<Rightarrow> [] | Inr ns \<Rightarrow> ns"
  have nums: "set ?nums \<subseteq> set requested" using r reserve_subset by (cases won) auto
  obtain records w2 where f: "run_usage_fetches cl (List.map_filter (info_of infos) ?nums) w1 = (records, w2)" by fastforce
  have "fst ` set records \<subseteq> set ?nums"
  proof -
    have "map fst records = map ai_num (List.map_filter (info_of infos) ?nums)"
      using fetched_numbers [of cl "List.map_filter (info_of infos) ?nums" w1] f by simp
    then have "fst ` set records = ai_num ` set (List.map_filter (info_of infos) ?nums)" by (metis list.set_map)
    then show ?thesis using info_of_num by (force simp: List.map_filter_def split: option.splits)
  qed
  then have "n \<notin> fst ` set records" "n \<notin> set ?nums" using nums assms(1) by auto
  then have skip: "sentinel_of (with_dead ?nums post
      (rev (List.map_filter (\<lambda>(num, r). if fr_sentinel r = [] then None else Some (num, fr_sentinel r)) records) @ m)) n = sentinel_of m n" for post
    unfolding with_dead_skip [OF \<open>n \<notin> set ?nums\<close>] unfolding sentinel_of_def
    using record_sentinels [of "\<lambda>r. fr_sentinel r = []" fr_sentinel records] \<open>n \<notin> fst ` set records\<close>
    by (subst map_of_skip) auto
  show ?thesis
  proof (cases "?nums = []")
    case True
    then show ?thesis using assms(2) r by (simp add: collect_requests_def Let_def)
  next
    case False
    then show ?thesis
      using assms(2) r f skip by (auto simp: collect_requests_def Let_def case_prod_unfold)
  qed
qed

text \<open>
  What is known without a request is shown. An account that holds an API key, that has no usable
  credential, or whose expired credential belongs to a running Claude Code is reported as such in every
  collection, whatever the usage table holds, and it is never reserved or fetched.
\<close>

theorem known_state_shown:
  assumes "distinct (map ai_num infos)" "i \<in> set infos" "static_sentinel cl i w \<noteq> []"
    and "collect_usage_entries cl override infos fetch w = (out, w')"
  shows "\<exists>e. map_of out (ai_num i) = Some e \<and> decision_value e = DSentinel (static_sentinel cl i w)"
proof -
  let ?s = "static_sentinel cl i w" and ?n = "ai_num i" and ?static = "static_sentinels cl infos w"
  have "(?n, ?s) \<in> set ?static" using assms(2,3) by (auto simp: static_sentinels_def)
  moreover have "distinct (map fst ?static)"
    using assms(1) by (auto simp: static_sentinels_def rev_map [symmetric] comp_def intro!: distinct_map_filter)
  ultimately have st: "sentinel_of ?static ?n = ?s" by (simp add: sentinel_of_def or_empty_def)
  obtain pre w1 where p: "read_entries infos w = (pre, w1)" by fastforce
  let ?m = "with_dead (filter (\<lambda>n. sentinel_of ?static n = []) (map ai_num infos)) pre ?static"
  let ?req = "filter (\<lambda>n. sentinel_of ?m n = [] \<and> (case fetch of None \<Rightarrow> True | Some S \<Rightarrow> n \<in> S)) (map ai_num infos)"
  have m: "sentinel_of ?m ?n = ?s" using st assms(3) by (subst with_dead_skip) auto
  define x where "x = (if ?req = [] then ((pre, ?m), w1) else collect_requests cl override infos (fetch = None) ?req pre ?m w1)"
  obtain es m' w2 where "x = ((es, m'), w2)" by (metis surj_pair)
  note c = this [unfolded x_def]
  have "sentinel_of m' ?n = ?s"
    using c collect_requests_keeps [of ?n ?req] m assms(3) by (auto split: if_splits)
  moreover have "out = map (\<lambda>n. (n, with_sentinel (es n) (sentinel_of m' n))) (map ai_num infos)"
    using assms(4) unfolding collect_usage_entries_def Let_def p prod.case c by (simp only: prod.inject)
  moreover have "?n \<in> set (map ai_num infos)" using assms(2) by simp
  ultimately have "map_of out ?n = Some (with_sentinel (es ?n) ?s)"
    using map_of_tabulate [of ?n "map ai_num infos" "\<lambda>n. with_sentinel (es n) (sentinel_of m' n)"] by (simp only:)
  then show ?thesis using assms(3) by (simp add: with_sentinel_def decision_value_def)
qed

section \<open>Two rotations in one fetch\<close>

text \<open>A login and what the refreshes make of it; every refresh replaces the refresh token.\<close>

definition token_doc :: "string \<Rightarrow> string" where
  "token_doc n = ''{\"claudeAiOauth\":{\"accessToken\":\"A'' @ n @ ''\",\"refreshToken\":\"R'' @ n @ ''\",\"expiresAt\":0}}''"

definition sample_client :: "string \<Rightarrow> client" where
  "sample_client rejected =
     \<lparr>cl_refresh = (\<lambda>c w. (if c = token_doc ''0'' then \<lparr>ro_credentials = token_doc ''1'', ro_error = [], ro_account = None\<rparr>
                          else if c = token_doc ''1'' then \<lparr>ro_credentials = token_doc ''2'', ro_error = [], ro_account = None\<rparr>
                          else \<lparr>ro_credentials = [], ro_error = ''invalid_grant'', ro_account = None\<rparr>, w)),
      cl_usage = (\<lambda>t w. (if t = rejected then Reply 401 None [] else Reply 200 (Some (Some [(''five_hour'', JObj [(''utilization'', JNum 40)])])) [], w)),
      cl_instances = (\<lambda>_. Some 0), cl_format_reset = (\<lambda>_ _. None), cl_random = (\<lambda>_. 0)\<rparr>"

definition sample_rotation :: world where
  "sample_rotation = (sample_login [])\<lparr>live_creds := Some (token_doc ''0''),
     cred_files := [''.creds-1-a@x.enc'' \<mapsto> EncData (token_doc ''0'')]\<rparr>"

text \<open>
  A second rotation in one fetch loses the login. If the token obtained by the first refresh is
  rejected with a 401, the fetch refreshes again; the check that the live credential is still the one first
  refreshed then fails because of the fetch's own first write, and the second credential is dropped. The
  live store and the backup are left with a refresh token that has been used up: refreshing it is refused.
\<close>

theorem second_rotation_dropped:
  "\<exists>cl w rec w'. fetch_active_usage cl ''1'' ''a@x'' (token_doc ''0'') w = (rec, w') \<and> fr_sentinel rec = ''token expired''
    \<and> live_creds w = Some (token_doc ''0'') \<and> live_creds w' = Some (token_doc ''1'') \<and> backup_of ''1'' ''a@x'' w' = token_doc ''1''
    \<and> ro_credentials (fst (cl_refresh cl (token_doc ''1'') w')) = token_doc ''2''"
proof -
  let ?cl = "sample_client ''A1''"
  let ?f = "fetch_active_usage ?cl ''1'' ''a@x'' (token_doc ''0'') sample_rotation"
  have "fr_sentinel (fst ?f) = ''token expired''" by code_simp
  moreover have "live_creds (snd ?f) = Some (token_doc ''1'')" by code_simp
  moreover have "backup_of ''1'' ''a@x'' (snd ?f) = token_doc ''1''" by code_simp
  moreover have "token_doc ''1'' \<noteq> token_doc ''0''" by code_simp
  then have "ro_credentials (fst (cl_refresh ?cl (token_doc ''1'') (snd ?f))) = token_doc ''2''" by (simp add: sample_client_def)
  moreover have "live_creds sample_rotation = Some (token_doc ''0'')" by (simp add: sample_rotation_def)
  ultimately show ?thesis by (metis prod.collapse)
qed

lemma shown_usage_was_kept_witness:
  "let w' = snd (fetch_active_usage (sample_client []) ''1'' ''a@x'' (token_doc ''0'') sample_rotation)
   in live_stored (token_doc ''1'') w' \<and> backup_of ''1'' ''a@x'' w' = token_doc ''1''"
proof -
  let ?cl = "sample_client []"
  let ?f = "fetch_active_usage ?cl ''1'' ''a@x'' (token_doc ''0'') sample_rotation"
  have q: "quiet_requests ?cl" by (simp add: quiet_requests_def sample_client_def touches_refl)
  have "oauth_credential (token_doc ''1'')" "oauth_credential (token_doc ''2'')" by code_simp+
  then have o: "oauth_refreshes ?cl" by (simp add: oauth_refreshes_def sample_client_def)
  have u: "fr_usage (fst ?f) = Some [(''five_hour'', JObj [(''pct'', JNum 40)])]" by code_simp
  have "live_creds (snd ?f) = Some (token_doc ''1'')" by code_simp
  moreover have "backup_of ''1'' ''a@x'' (snd ?f) = token_doc ''1''" by code_simp
  ultimately have "live_stored (token_doc ''1'') (snd ?f) \<and> backup_of ''1'' ''a@x'' (snd ?f) = token_doc ''1''"
    by (simp add: live_stored_def)
  with shown_usage_was_kept [OF q o prod.collapse [symmetric] u] show ?thesis by (simp add: Let_def)
qed

lemma known_state_shown_witness:
  "\<exists>e. map_of (fst (collect_usage_entries (sample_client []) None
        [\<lparr>ai_number = 1, ai_email = ''a@x'', ai_org_name = [], ai_org = [], ai_active = True, ai_creds = ''sk-ant-api03-k'', ai_alias = [], ai_kc_unavailable = False\<rparr>]
        None sample_rotation)) ''1'' = Some e \<and> decision_value e = DSentinel ''api key''"
proof -
  let ?i = "\<lparr>ai_number = 1, ai_email = ''a@x'', ai_org_name = [], ai_org = [], ai_active = True, ai_creds = ''sk-ant-api03-k'', ai_alias = [], ai_kc_unavailable = False\<rparr>"
  have n: "ai_num ?i = ''1''" "static_sentinel (sample_client []) ?i sample_rotation = ''api key''" by code_simp+
  have d: "distinct (map ai_num [?i])" by simp
  show ?thesis
    using known_state_shown [OF d _ _ prod.collapse [symmetric], of ?i "sample_client []" sample_rotation None None] n by simp
qed


section \<open>The engine over the collector\<close>

text \<open>The views the engine gets when it is built on the real collection.\<close>

definition collector_env :: "client \<Rightarrow> (string \<Rightarrow> resolved_id option) \<Rightarrow> poll_inputs \<Rightarrow> auto_env" where
  "collector_env cl profile override =
     \<lparr>env_collect = (\<lambda>S. usage_entries_by_account cl override (Some S)), env_refresh = (\<lambda>w c. fst (cl_refresh cl c w)), env_profile = profile\<rparr>"

lemma collector_env_touches:
  "client_within not_auto cl \<Longrightarrow> touches not_auto w (snd (env_collect (collector_env cl profile override) S w))"
  unfolding collector_env_def auto_env.simps by (rule touches_collect [OF _ touches_refl])

text \<open>
  Property C4: a tick over the real collection, with its fetches, rotations and table updates, is a run of the
  step system on which the cooldown is proved, with one switch exactly when it reports one. All that is
  asked of the network is that nothing writes the engine's state file during a request.
\<close>

theorem collecting_tick_is_run:
  assumes "auto_run c w0 sw w" "faults w = []" "\<not> e_dry_run e" "c \<le> as_cooldown (e_settings e)" "client_within not_auto cl"
    and "tick (collector_env cl profile override) e w = ((outcome, e'), w')"
  shows "\<exists>trig t. auto_run c w0 (if outcome = Switched then sw @ [(trig, t)] else sw) w'"
  by (rule tick_is_run [OF assms(1-4) collector_env_touches [OF assms(5)] assms(6)])

lemma collecting_tick_is_run_witness:
  "\<exists>sw. auto_run 300 sample_rotation sw (snd (tick (collector_env (sample_client []) (\<lambda>_. None) None) sample_engine sample_rotation))"
proof -
  have f: "faults sample_rotation = []" by (simp add: sample_rotation_def sample_login_def sample_linux_def)
  have c: "client_within not_auto (sample_client [])" by (simp add: client_within_def sample_client_def touches_refl)
  obtain outcome e' w' where t: "tick (collector_env (sample_client []) (\<lambda>_. None) None) sample_engine sample_rotation = ((outcome, e'), w')"
    by (metis surj_pair)
  show ?thesis using collecting_tick_is_run [OF auto_run.start [of 300 sample_rotation] f _ _ c t] by (auto simp: t)
qed

end
