(* ===== verification/Adding.thy ===== *)
theory Adding
  imports Switching
begin

text \<open>
  internal/lifecycle/add.go: adding the live login to the managed accounts. What
  the user types is an argument, and so is what other processes do to the machine between the question and
  the commit. Console output and logging are not modelled.
\<close>

section \<open>What is read before anything is written\<close>

text \<open>The directories are made with one verdict for all of them; they are not part of the state.\<close>

definition setup_directories :: "world \<Rightarrow> go_err option \<times> world" where
  "setup_directories = os_call (\<lambda>w. w)"

definition read_active_credential :: "world \<Rightarrow> (go_err + string) \<times> world" where
  "read_active_credential w =
     (case read_active w of
        (Inl _, w) \<Rightarrow> (Inl (Err KindCredentialRead ''Failed to read credentials for current account''), w)
      | (Inr (v, _), w) \<Rightarrow>
          if v = [] then (Inl (Err KindCredentialRead ''No credentials found for current account''), w) else (Inr v, w))"

definition reject_live_api_key_capture :: "string \<Rightarrow> go_err option" where
  "reject_live_api_key_capture creds =
     (if looks_like_api_key creds then Some (Err KindValidation ''Active login is an API-key account'') else None)"

definition read_live_config_text :: "world \<Rightarrow> (go_err + jtext) \<times> world" where
  "read_live_config_text w =
     (case live_config w of
        None \<Rightarrow> (Inl config_missing, w)
      | Some t \<Rightarrow>
          (case take_fault w of
             (NoFault, w) \<Rightarrow> (Inr t, w)
           | (Unusable _, w) \<Rightarrow> (Inl (Err KindConfig ''Permission denied reading Claude config''), w)
           | (OtherFail _, w) \<Rightarrow> (Inl OsErr, w)))"

text \<open>The material of the live login: a credential that is no API key, and the configuration text.\<close>

definition read_login :: "world \<Rightarrow> (go_err + string \<times> jtext) \<times> world" where
  "read_login w =
     (case read_active_credential w of
        (Inl e, w) \<Rightarrow> (Inl e, w)
      | (Inr creds, w) \<Rightarrow>
          (case reject_live_api_key_capture creds of
             Some e \<Rightarrow> (Inl e, w)
           | None \<Rightarrow>
               (case read_live_config_text w of
                  (Inl e, w) \<Rightarrow> (Inl e, w) | (Inr t, w) \<Rightarrow> (Inr (creds, t), w))))"

text \<open>\<open>parseOAuthConfig\<close>: account, organization and its name; empty where the document has none.\<close>

definition parse_oauth_config :: "jtext \<Rightarrow> string \<times> string \<times> string" where
  "parse_oauth_config t =
     (case unmarshal_map t of
        Inl _ \<Rightarrow> ([], [], [])
      | Inr m \<Rightarrow>
          (let oauth = (case as_map (mget m ''oauthAccount'') of None \<Rightarrow> [] | Some o' \<Rightarrow> o')
           in (str_field oauth ''accountUuid'', str_field oauth ''organizationUuid'', str_field oauth ''organizationName'')))"

section \<open>Displacing the occupant of a slot\<close>

record displace_info =
  di_num :: string
  di_email :: string
  di_org :: string
  di_org_name :: string

definition same_identity :: "displace_info option \<Rightarrow> displace_info option \<Rightarrow> bool" where
  "same_identity a b \<longleftrightarrow>
     (case (a, b) of
        (Some x, Some y) \<Rightarrow> di_num x = di_num y \<and> di_email x = di_email y \<and> di_org x = di_org y
      | _ \<Rightarrow> False)"

text \<open>The record in the slot when it is not the identity that is added.\<close>

definition slot_occupant :: "seq_data \<Rightarrow> string \<Rightarrow> string \<Rightarrow> string \<Rightarrow> displace_info option" where
  "slot_occupant d num email org =
     (case map_of (accounts d) num of
        None \<Rightarrow> None
      | Some raw \<Rightarrow>
          (let rec = decode_record raw; email' = str_field rec ''email''; org' = str_field rec ''organizationUuid''
           in if email' = email \<and> org' = org then None
              else Some \<lparr>di_num = num, di_email = email', di_org = org', di_org_name = str_field rec ''organizationName''\<rparr>))"

text \<open>The question before the lock: the occupant the user agreed to displace, or \<open>None\<close> when cancelled.\<close>

definition confirm_displacement ::
  "int option \<Rightarrow> bool \<Rightarrow> string \<Rightarrow> string \<Rightarrow> string option \<Rightarrow> world \<Rightarrow> (go_err + displace_info option option) \<times> world" where
  "confirm_displacement slot assume_yes email org answer w =
     (case slot of
        None \<Rightarrow> (Inr (Some None), w)
      | Some n \<Rightarrow>
          if assume_yes then (Inr (Some None), w)
          else (case with_roster_locked (\<lambda>d w. (Inr (slot_occupant d (itoa n) email org), w)) w of
                  (Inl e, w) \<Rightarrow> (Inl e, w)
                | (Inr None, w) \<Rightarrow> (Inr (Some None), w)
                | (Inr (Some occ), w) \<Rightarrow>
                    (case map_option (\<lambda>a. go_lower (trim_space a)) answer of
                       None \<Rightarrow> (Inr None, w)
                     | Some a \<Rightarrow> (Inr (if a = ''y'' \<or> a = ''yes'' then Some (Some occ) else None), w))))"

definition revalidate_displacement ::
  "seq_data \<Rightarrow> string \<Rightarrow> string \<Rightarrow> string \<Rightarrow> displace_info option \<Rightarrow> bool \<Rightarrow> go_err + displace_info option" where
  "revalidate_displacement d num email org confirmed assume_yes =
     (let occupant = slot_occupant d num email org
      in if occupant = None then Inr None
         else if assume_yes then Inr occupant
         else if same_identity confirmed occupant then Inr occupant
         else if confirmed \<noteq> None then Inl (Err KindConfig (''Slot '' @ num @ '' changed while the confirmation was open''))
         else Inl (Err KindConfig (''Slot '' @ num @ '' was free when the command started'')))"

definition evict :: "string \<Rightarrow> string \<Rightarrow> seq_data \<Rightarrow> world \<Rightarrow> go_err option \<times> world" where
  "evict num email d = and_then (delete_account_files num email) (write_sequence (drop_slot num d))"

definition displace :: "displace_info option \<Rightarrow> seq_data \<Rightarrow> world \<Rightarrow> (go_err + seq_data) \<times> world" where
  "displace occ d w =
     (case occ of
        None \<Rightarrow> (Inr d, w)
      | Some i \<Rightarrow>
          (case evict (di_num i) (di_email i) d w of
             (Some e, w) \<Rightarrow> (Inl e, w)
           | (None, w) \<Rightarrow> (Inr (drop_slot (di_num i) d), snd (prune_account (di_email i) (di_org i) w))))"

text \<open>The same identity leaves the slot it had.\<close>

definition vacate :: "string \<Rightarrow> seq_data \<Rightarrow> world \<Rightarrow> (go_err + seq_data) \<times> world" where
  "vacate from d w =
     (if from = [] then (Inr d, w)
      else (case evict from (rec_email d from) d w of
              (Some e, w) \<Rightarrow> (Inl e, w) | (None, w) \<Rightarrow> (Inr (drop_slot from d), w)))"

definition make_room :: "displace_info option \<Rightarrow> string \<Rightarrow> seq_data \<Rightarrow> world \<Rightarrow> (go_err + seq_data) \<times> world" where
  "make_room occ from d w =
     (case displace occ d w of (Inl e, w) \<Rightarrow> (Inl e, w) | (Inr d, w) \<Rightarrow> vacate from d w)"

section \<open>Storing the account\<close>

definition clear_dead :: "string \<Rightarrow> string \<Rightarrow> string \<Rightarrow> world \<Rightarrow> world" where
  "clear_dead num email org = ignoring (clear_dead_token [num] (\<lambda>_. (email, org)))"

definition store_backups :: "string \<Rightarrow> string \<Rightarrow> string \<Rightarrow> string \<Rightarrow> jtext \<Rightarrow> world \<Rightarrow> go_err option \<times> world" where
  "store_backups num email org creds config w =
     (case and_then (write_account_credentials num email creds) (write_account_config num email config) w of
        (Some e, w) \<Rightarrow> (Some e, w) | (None, w) \<Rightarrow> (None, clear_dead num email org w))"

definition slot_value :: "string \<Rightarrow> int" where
  "slot_value num = (case parse_slot num of None \<Rightarrow> 0 | Some n \<Rightarrow> n)"

definition enter_slot :: "string \<Rightarrow> json gomap \<Rightarrow> seq_data \<Rightarrow> seq_data" where
  "enter_slot num rec d =
     (let n = slot_value num
      in (put_record num rec d)\<lparr>seq_nums := (if n \<in> set (seq_nums d) then seq_nums d else sort (seq_nums d @ [n]))\<rparr>)"

definition commit_roster :: "string \<Rightarrow> seq_data \<Rightarrow> world \<Rightarrow> (go_err + string) \<times> world" where
  "commit_roster num d w =
     (case write_sequence (stamp_roster w d) w of (Some e, w) \<Rightarrow> (Inl e, w) | (None, w) \<Rightarrow> (Inr num, w))"

text \<open>Makes room, stores the backups and commits the record: the tail both commands share.\<close>

definition install ::
  "displace_info option \<Rightarrow> string \<Rightarrow> string \<Rightarrow> string \<Rightarrow> string \<Rightarrow> string \<Rightarrow> jtext \<Rightarrow> (seq_data \<Rightarrow> world \<Rightarrow> seq_data)
   \<Rightarrow> seq_data \<Rightarrow> world \<Rightarrow> (go_err + string) \<times> world" where
  "install occ from num email org creds config entry d w =
     (case make_room occ from d w of
        (Inl e, w) \<Rightarrow> (Inl e, w)
      | (Inr d, w) \<Rightarrow>
          (case store_backups num email org creds config w of
             (Some e, w) \<Rightarrow> (Inl e, w) | (None, w) \<Rightarrow> commit_roster num (entry d w) w))"

text \<open>
  Where the account goes: the slot, whom it displaces and which slot it leaves. A given slot is checked
  again under the lock.
\<close>

definition choose_slot ::
  "int option \<Rightarrow> string \<Rightarrow> string \<Rightarrow> displace_info option \<Rightarrow> bool \<Rightarrow> seq_data
   \<Rightarrow> go_err + string \<times> displace_info option \<times> string" where
  "choose_slot slot email org confirmed assume_yes d =
     (case slot of
        None \<Rightarrow> Inr (itoa (next_account_number_from (Some d)), None, [])
      | Some n \<Rightarrow>
          if n < 1 then Inl (Err KindConfig ''Slot number must be >= 1'')
          else (let num = itoa n; old = find_account_slot (Some d) email org
                in (case revalidate_displacement d num email org confirmed assume_yes of
                      Inl e \<Rightarrow> Inl e
                    | Inr occ \<Rightarrow> Inr (num, occ, if old \<noteq> [] \<and> old \<noteq> num then old else []))))"

definition alias_conflict :: "string option \<Rightarrow> string \<Rightarrow> seq_data \<Rightarrow> go_err option" where
  "alias_conflict alias num d =
     (case alias of
        None \<Rightarrow> None
      | Some a \<Rightarrow>
          (let conflict = alias_in_use (Some d) a num
           in if conflict = [] then None
              else Some (Err KindValidation (''Alias '' @ a @ '' is already used by account '' @ conflict))))"

section \<open>Adding the live login\<close>

definition live_record :: "string \<Rightarrow> jtext \<Rightarrow> string \<Rightarrow> world \<Rightarrow> json gomap" where
  "live_record email config alias w =
     (let (uuid, org, org_name) = parse_oauth_config config
      in [(''email'', JStr email), (''uuid'', JStr uuid), (''organizationUuid'', JStr org),
          (''organizationName'', JStr org_name), (''added'', JStr (w_stamp w))]
         @ (if alias = [] then [] else [(''alias'', JStr alias)]))"

text \<open>The alias that stays: the slot's own if it holds the identity, that of the slot it leaves first.\<close>

definition carried_alias :: "int option \<Rightarrow> string \<Rightarrow> string \<Rightarrow> string \<Rightarrow> string \<Rightarrow> seq_data \<Rightarrow> string" where
  "carried_alias slot num from email org d =
     (if slot = None then []
      else (let own = (case record_for (Some d) num of
                         None \<Rightarrow> []
                       | Some rec \<Rightarrow> if str_field rec ''email'' = email \<and> str_field rec ''organizationUuid'' = org
                                     then str_field rec ''alias'' else []);
                old = (if from = [] then [] else rec_alias d from)
            in if old \<noteq> [] then old else own))"

definition add_refresh_in_place ::
  "string \<Rightarrow> string \<Rightarrow> string \<Rightarrow> string option \<Rightarrow> seq_data \<Rightarrow> world \<Rightarrow> (go_err + string) \<times> world" where
  "add_refresh_in_place num email org alias d w =
     (case alias_conflict alias num d of
        Some e \<Rightarrow> (Inl e, w)
      | None \<Rightarrow>
          (case read_login w of
             (Inl e, w) \<Rightarrow> (Inl e, w)
           | (Inr (creds, config), w) \<Rightarrow>
               (case store_backups num email org creds config w of
                  (Some e, w) \<Rightarrow> (Inl e, w)
                | (None, w) \<Rightarrow>
                    commit_roster num
                      ((case alias of None \<Rightarrow> d | Some a \<Rightarrow> put_record num (gm_put ''alias'' (JStr a) (rec_at d num)) d)
                       \<lparr>active_num := Some (slot_value num)\<rparr>) w)))"

definition add_new ::
  "int option \<Rightarrow> string \<Rightarrow> string \<Rightarrow> string option \<Rightarrow> displace_info option \<Rightarrow> bool \<Rightarrow> seq_data \<Rightarrow> world
   \<Rightarrow> (go_err + string) \<times> world" where
  "add_new slot email org alias confirmed assume_yes d w =
     (case choose_slot slot email org confirmed assume_yes d of
        Inl e \<Rightarrow> (Inl e, w)
      | Inr (num, occ, from) \<Rightarrow>
          (case alias_conflict alias num d of
             Some e \<Rightarrow> (Inl e, w)
           | None \<Rightarrow>
               (case read_login w of
                  (Inl e, w) \<Rightarrow> (Inl e, w)
                | (Inr (creds, config), w) \<Rightarrow>
                    (let kept = (case alias of None \<Rightarrow> carried_alias slot num from email org d | Some a \<Rightarrow> a)
                     in install occ from num email (fst (snd (parse_oauth_config config))) creds config
                          (\<lambda>d w. (enter_slot num (live_record email config kept w) d)\<lparr>active_num := Some (slot_value num)\<rparr>) d w))))"

definition add_body ::
  "int option \<Rightarrow> string \<Rightarrow> string \<Rightarrow> string option \<Rightarrow> displace_info option \<Rightarrow> bool \<Rightarrow> seq_data \<Rightarrow> world
   \<Rightarrow> (go_err + string) \<times> world" where
  "add_body slot email org alias confirmed assume_yes d w =
     (let existing = (if slot = None then find_account_slot (Some d) email org else [])
      in if existing \<noteq> [] then add_refresh_in_place existing email org alias d w
         else add_new slot email org alias confirmed assume_yes d w)"

text \<open>The slot that holds the account, or \<open>None\<close> when the user cancels.\<close>

definition add_account ::
  "int option \<Rightarrow> bool \<Rightarrow> string option \<Rightarrow> string option \<Rightarrow> (world \<Rightarrow> world) \<Rightarrow> world \<Rightarrow> (go_err + string option) \<times> world" where
  "add_account slot assume_yes alias answer meanwhile w =
     (case setup_directories w of
        (Some e, w) \<Rightarrow> (Inl e, w)
      | (None, w) \<Rightarrow>
          (case (case alias of None \<Rightarrow> Inr None | Some a \<Rightarrow> map_sum id Some (normalize_alias a)) of
             Inl e \<Rightarrow> (Inl e, w)
           | Inr al \<Rightarrow>
               (case current_account w of
                  None \<Rightarrow> (Inl (Err KindConfig ''No active Claude account found. Please log in first.''), w)
                | Some (email, org) \<Rightarrow>
                    if (case slot of None \<Rightarrow> False | Some n \<Rightarrow> n < 1)
                    then (Inl (Err KindConfig ''Slot number must be >= 1''), w)
                    else (case confirm_displacement slot assume_yes email org answer w of
                            (Inl e, w) \<Rightarrow> (Inl e, w)
                          | (Inr None, w) \<Rightarrow> (Inr None, w)
                          | (Inr (Some confirmed), w) \<Rightarrow>
                              (case with_roster_locked (add_body slot email org al confirmed assume_yes) (meanwhile w) of
                                 (Inl e, w) \<Rightarrow> (Inl e, w) | (Inr num, w) \<Rightarrow> (Inr (Some num), w))))))"

section \<open>What the commands touch\<close>

text \<open>Everything kept for a slot, under whatever e-mail address.\<close>

definition slot_files :: "string \<Rightarrow> world \<Rightarrow> resource set" where
  "slot_files num w = (\<Union>email. slot_resources num email w)"

lemma slot_files_mem: "slot_resources num email w \<subseteq> slot_files num w"
  by (auto simp: slot_files_def)

lemma slot_files_touches: "touches R w w' \<Longrightarrow> slot_files num w' = slot_files num w"
  using touches_names by (simp add: slot_files_def slot_resources_def)

lemma slot_files_apart:
  assumes "is_digits n" "is_digits num" "n \<noteq> num"
  shows "RCredFile (backup_enc_path n email) \<notin> slot_files num w"
    "RKeychain (security_service, backup_username n email) \<notin> slot_files num w"
    "RConfigFile (config_backup_path n email) \<notin> slot_files num w"
  using slot_names_apart [OF assms(2,1)] none_names_apart [OF assms(1)] config_paths_apart [OF assms(2,1)] assms(3)
  by (auto simp: slot_files_def slot_resources_def backup_resources_def profile_resources_def)

lemma touches_read_login [frames]:
  "touches R w w1 \<Longrightarrow> touches R w (snd (read_login w1))"
  unfolding read_login_def read_active_credential_def read_live_config_text_def by (intro frames; simp)

lemma touches_evict [frames]:
  "touches R w w1 \<Longrightarrow> slot_files num w \<subseteq> R \<Longrightarrow> RSeq \<in> R \<Longrightarrow> touches R w (snd (evict num email d w1))"
  unfolding evict_def using slot_files_mem [of num email w] by (intro frames; auto)

lemma touches_make_room [frames]:
  "touches R w w1 \<Longrightarrow> (\<And>i. occ = Some i \<Longrightarrow> slot_files (di_num i) w \<subseteq> R) \<Longrightarrow> (from \<noteq> [] \<Longrightarrow> slot_files from w \<subseteq> R) \<Longrightarrow>
   {RSeq, RMappings} \<subseteq> R \<Longrightarrow> touches R w (snd (make_room occ from d w1))"
  unfolding make_room_def displace_def vacate_def
  by (cases occ; cases "from = []"; simp cong: sum.case_cong prod.case_cong; intro frames; simp)

lemma touches_store_backups [frames]:
  "touches R w w1 \<Longrightarrow> slot_files num w \<subseteq> R \<Longrightarrow> RUsage \<in> R \<Longrightarrow> touches R w (snd (store_backups num email org creds config w1))"
  unfolding store_backups_def clear_dead_def using slot_files_mem [of num email w]
  by (intro frames; auto simp: slot_resources_def)

lemma touches_locked:
  "touches R w w1 \<Longrightarrow> RSeq \<in> R \<Longrightarrow> (\<And>d w2. touches R w w2 \<Longrightarrow> touches R w (snd (fn d w2))) \<Longrightarrow>
   touches R w (snd (with_roster_locked fn w1))"
  unfolding with_roster_locked_def by (intro frames; simp)

lemma touches_confirm [frames]:
  "touches R w w1 \<Longrightarrow> RSeq \<in> R \<Longrightarrow> touches R w (snd (confirm_displacement slot yes email org answer w1))"
  unfolding confirm_displacement_def by (intro frames touches_locked; simp)

lemma touches_commit_roster [frames]:
  "touches R w w1 \<Longrightarrow> RSeq \<in> R \<Longrightarrow> touches R w (snd (commit_roster num d w1))"
  unfolding commit_roster_def by (intro frames; simp)

lemma touches_install [frames]:
  "touches R w w1 \<Longrightarrow> (\<And>i. occ = Some i \<Longrightarrow> slot_files (di_num i) w \<subseteq> R) \<Longrightarrow> (from \<noteq> [] \<Longrightarrow> slot_files from w \<subseteq> R) \<Longrightarrow>
   {RSeq, RMappings, RUsage} \<union> slot_files num w \<subseteq> R \<Longrightarrow>
   touches R w (snd (install occ from num email org creds config entry d w1))"
  unfolding install_def by (intro frames; simp)

lemma find_account_slot_mem:
  "find_account_slot (Some d) email org \<noteq> [] \<Longrightarrow> find_account_slot (Some d) email org \<in> dom (map_of (accounts d))"
proof -
  let ?p = "\<lambda>num. rec_email d num = email \<and> rec_org d num = org"
  assume "find_account_slot (Some d) email org \<noteq> []"
  then obtain k ks where "filter ?p (sorted_slot_keys d) = k # ks" "find_account_slot (Some d) email org = k"
    by (auto simp: find_account_slot_def first_slot_def split: list.splits)
  moreover from this have "k \<in> set (sorted_slot_keys d)" by (metis filter_is_subset list.set_intros(1) subsetD)
  ultimately show ?thesis by simp
qed

lemma find_account_slot_holds:
  "find_account_slot (Some d) email org \<noteq> [] \<Longrightarrow>
   rec_email d (find_account_slot (Some d) email org) = email \<and> rec_org d (find_account_slot (Some d) email org) = org"
proof -
  let ?p = "\<lambda>num. rec_email d num = email \<and> rec_org d num = org"
  assume "find_account_slot (Some d) email org \<noteq> []"
  then obtain k ks where "filter ?p (sorted_slot_keys d) = k # ks" "find_account_slot (Some d) email org = k"
    by (auto simp: find_account_slot_def first_slot_def split: list.splits)
  moreover from this have "?p k" by (metis (mono_tags, lifting) filter_eq_ConsD)
  ultimately show ?thesis by simp
qed

text \<open>The slot an add ends in.\<close>

definition add_target :: "int option \<Rightarrow> string \<Rightarrow> string \<Rightarrow> seq_data \<Rightarrow> string" where
  "add_target slot email org d =
     (case slot of
        Some n \<Rightarrow> itoa n
      | None \<Rightarrow> (let old = find_account_slot (Some d) email org
                 in if old \<noteq> [] then old else itoa (next_account_number_from (Some d))))"

lemma slot_occupant_num: "slot_occupant d num email org = Some i \<Longrightarrow> di_num i = num"
  by (auto simp: slot_occupant_def Let_def split: option.splits if_splits)

lemma choose_slot_facts:
  assumes "choose_slot slot email org confirmed yes d = Inr (num, occ, from)" "slot = None \<Longrightarrow> find_account_slot (Some d) email org = []"
  shows "num = add_target slot email org d"
    "occ = None \<or> slot \<noteq> None \<and> occ = slot_occupant d num email org \<and> (yes \<or> same_identity confirmed occ)"
    "slot \<noteq> None \<Longrightarrow> occ = slot_occupant d num email org"
    "from = [] \<or> from = find_account_slot (Some d) email org \<and> from \<noteq> num"
  using assms
  by (auto simp: choose_slot_def add_target_def revalidate_displacement_def Let_def split: option.splits if_splits sum.splits)

section \<open>Nobody else's account is lost\<close>

text \<open>The roster in the file keeps the records of \<open>d\<close> but for those of the slots \<open>S\<close>.\<close>

definition keeps_records :: "string set \<Rightarrow> seq_data \<Rightarrow> world \<Rightarrow> bool" where
  "keeps_records S d w \<longleftrightarrow> (\<exists>d'. seq_file w = SeqRoster d' \<and> (\<forall>n. n \<notin> S \<longrightarrow> map_of (accounts d') n = map_of (accounts d) n))"

lemma keeps_records_same: "keeps_records S d w \<Longrightarrow> touches R w w' \<Longrightarrow> RSeq \<notin> R \<Longrightarrow> keeps_records S d w'"
  using touches_same [of R w w' RSeq] by (simp add: keeps_records_def)

lemma keeps_records_mono: "keeps_records S d w \<Longrightarrow> S \<subseteq> T \<Longrightarrow> keeps_records T d w"
  unfolding keeps_records_def by blast

lemma write_keeps:
  assumes "write_sequence d1 w = (e, w')" "keeps_records S d w" "\<And>n. n \<notin> S \<Longrightarrow> map_of (accounts d1) n = map_of (accounts d) n"
  shows "keeps_records S d w'"
proof (cases e)
  case None
  then show ?thesis using write_sequence_ok assms(1,3) unfolding keeps_records_def by blast
next
  case (Some x)
  then have "touches {} w w'" using assms(1) os_atomic_Some unfolding write_sequence_def by blast
  then show ?thesis by (rule keeps_records_same [OF assms(2)]) simp
qed

lemma evict_keeps:
  assumes "evict num email d1 w = (e, w')" "keeps_records S d w" "num \<in> S" "\<And>n. n \<notin> S \<Longrightarrow> map_of (accounts d1) n = map_of (accounts d) n"
  shows "keeps_records S d w'" "\<And>n. n \<notin> S \<Longrightarrow> map_of (accounts (drop_slot num d1)) n = map_of (accounts d) n"
proof -
  show dr: "map_of (accounts (drop_slot num d1)) n = map_of (accounts d) n" if "n \<notin> S" for n
    using assms(3,4) that by (auto simp: drop_slot_def)
  obtain r w1 where r: "delete_account_files num email w = (r, w1)" by fastforce
  have "touches (slot_resources num email w) w w1" by (rule touches_result [OF r]) (intro frames; simp)
  then have k: "keeps_records S d w1"
    by (rule keeps_records_same [OF assms(2)]) (auto simp: slot_resources_def backup_resources_def profile_resources_def)
  show "keeps_records S d w'"
  proof (cases r)
    case (Some x)
    then show ?thesis using assms(1) r k by (simp add: evict_def and_then_def)
  next
    case None
    then have "write_sequence (drop_slot num d1) w1 = (e, w')" using assms(1) r by (simp add: evict_def and_then_def)
    then show ?thesis by (rule write_keeps [OF _ k]) (rule dr)
  qed
qed

lemma make_room_keeps:
  assumes "make_room occ from d w = (r, w')" "keeps_records S d w" "\<And>i. occ = Some i \<Longrightarrow> di_num i \<in> S" "from \<noteq> [] \<Longrightarrow> from \<in> S"
  shows "keeps_records S d w'" "r = Inr d' \<Longrightarrow> n \<notin> S \<Longrightarrow> map_of (accounts d') n = map_of (accounts d) n"
proof -
  obtain q w1 where q: "displace occ d w = (q, w1)" by fastforce
  have 1: "keeps_records S d w1 \<and> (\<forall>d1. q = Inr d1 \<longrightarrow> (\<forall>n. n \<notin> S \<longrightarrow> map_of (accounts d1) n = map_of (accounts d) n))"
  proof (cases occ)
    case None
    then show ?thesis using q assms(2) by (auto simp: displace_def)
  next
    case (Some i)
    obtain e w2 where e: "evict (di_num i) (di_email i) d w = (e, w2)" by fastforce
    note k = evict_keeps [OF e assms(2) assms(3) [OF Some] refl]
    have "touches {RMappings} w2 (snd (prune_account (di_email i) (di_org i) w2))" by (intro frames; simp)
    then have "keeps_records S d (snd (prune_account (di_email i) (di_org i) w2))" by (rule keeps_records_same [OF k(1)]) simp
    then show ?thesis using q Some e k by (cases e) (auto simp: displace_def)
  qed
  have 2: "keeps_records S d w' \<and> (\<forall>d1. r = Inr d1 \<longrightarrow> (\<forall>n. n \<notin> S \<longrightarrow> map_of (accounts d1) n = map_of (accounts d) n))"
  proof (cases "(\<exists>e. q = Inl e) \<or> from = []")
    case True
    then show ?thesis using assms(1) q 1 by (auto simp: make_room_def vacate_def split: sum.splits)
  next
    case False
    then obtain d1 where d1: "q = Inr d1" "from \<noteq> []" by (cases q) auto
    obtain e w2 where e: "evict from (rec_email d1 from) d1 w1 = (e, w2)" by fastforce
    have "keeps_records S d w1" "from \<in> S" "\<And>n. n \<notin> S \<Longrightarrow> map_of (accounts d1) n = map_of (accounts d) n"
      using 1 d1 assms(4) by auto
    note k = evict_keeps [OF e this]
    show ?thesis using assms(1) q d1 e k by (cases e) (auto simp: make_room_def vacate_def)
  qed
  show "keeps_records S d w'" "r = Inr d' \<Longrightarrow> n \<notin> S \<Longrightarrow> map_of (accounts d') n = map_of (accounts d) n" using 2 by auto
qed

lemma commit_roster_keeps:
  assumes "commit_roster num d1 w = (r, w')" "keeps_records S d w" "\<And>n. n \<notin> S \<Longrightarrow> map_of (accounts d1) n = map_of (accounts d) n"
  shows "keeps_records S d w'"
proof -
  obtain e w1 where "write_sequence (stamp_roster w d1) w = (e, w1)" by fastforce
  moreover from this have "w' = w1" using assms(1) by (cases e) (auto simp: commit_roster_def)
  ultimately show ?thesis using write_keeps [OF _ assms(2)] assms(3) by (simp add: stamp_roster_def)
qed

lemma store_backups_keeps:
  assumes "store_backups num email org creds config w = (e, w')" "keeps_records S d w"
  shows "keeps_records S d w'"
proof -
  have "touches (slot_files num w \<union> {RUsage}) w w'" by (rule touches_result [OF assms(1)]) (intro frames; auto)
  then show ?thesis
    by (rule keeps_records_same [OF assms(2)])
      (auto simp: slot_files_def slot_resources_def backup_resources_def profile_resources_def)
qed

lemma install_keeps:
  assumes "install occ from num email org creds config entry d w = (r, w')" "keeps_records S d w"
    "\<And>i. occ = Some i \<Longrightarrow> di_num i \<in> S" "from \<noteq> [] \<Longrightarrow> from \<in> S"
    "\<And>d1 w n. n \<notin> S \<Longrightarrow> map_of (accounts (entry d1 w)) n = map_of (accounts d1) n"
  shows "keeps_records S d w'"
proof -
  obtain q w1 where q: "make_room occ from d w = (q, w1)" by fastforce
  have k: "keeps_records S d w1" "\<And>d' n. q = Inr d' \<Longrightarrow> n \<notin> S \<Longrightarrow> map_of (accounts d') n = map_of (accounts d) n"
    using make_room_keeps [OF q assms(2)] assms(3,4) by blast+
  show ?thesis
  proof (cases q)
    case (Inl e)
    then show ?thesis using assms(1) q k(1) by (simp add: install_def)
  next
    case (Inr d1)
    obtain e w2 where e: "store_backups num email org creds config w1 = (e, w2)" by fastforce
    have k2: "keeps_records S d w2" by (rule store_backups_keeps [OF e k(1)])
    show ?thesis
    proof (cases e)
      case (Some x)
      then show ?thesis using assms(1) q Inr e k2 by (simp add: install_def)
    next
      case None
      then have "commit_roster num (entry d1 w2) w2 = (r, w')" using assms(1) q Inr e by (simp add: install_def)
      then show ?thesis by (rule commit_roster_keeps [OF _ k2]) (use k(2) [OF Inr] assms(5) in auto)
    qed
  qed
qed

lemma enter_slot_other: "n \<noteq> num \<Longrightarrow> map_of (accounts ((enter_slot num rec d)\<lparr>active_num := a\<rparr>)) n = map_of (accounts d) n"
  "n \<noteq> num \<Longrightarrow> map_of (accounts (enter_slot num rec d)) n = map_of (accounts d) n"
  by (simp_all add: enter_slot_def put_record_def Let_def)

text \<open>The slots a commit may write: the target, and the one the identity leaves.\<close>

definition add_slots :: "int option \<Rightarrow> string \<Rightarrow> string \<Rightarrow> seq_data \<Rightarrow> string set" where
  "add_slots slot email org d =
     insert (add_target slot email org d)
       (if find_account_slot (Some d) email org = [] then {} else {find_account_slot (Some d) email org})"

definition add_resources :: "int option \<Rightarrow> string \<Rightarrow> string \<Rightarrow> seq_data \<Rightarrow> world \<Rightarrow> resource set" where
  "add_resources slot email org d w = {RSeq, RMappings, RUsage} \<union> (\<Union>n \<in> add_slots slot email org d. slot_files n w)"

text \<open>A commit either displaces nobody but whom the user agreed to displace, or leaves the roster and all files alone.\<close>

definition may_displace :: "int option \<Rightarrow> string \<Rightarrow> string \<Rightarrow> displace_info option \<Rightarrow> bool \<Rightarrow> seq_data \<Rightarrow> bool" where
  "may_displace slot email org confirmed yes d \<longleftrightarrow>
     (case slot of
        None \<Rightarrow> True
      | Some n \<Rightarrow> (let occ = slot_occupant d (itoa n) email org in occ = None \<or> yes \<or> same_identity confirmed occ))"

lemma choose_slot_refused:
  "slot = Some n \<Longrightarrow> \<not> may_displace slot email org confirmed yes d \<Longrightarrow> \<exists>e. choose_slot slot email org confirmed yes d = Inl e"
  by (auto simp: may_displace_def choose_slot_def revalidate_displacement_def Let_def)

lemma add_new_facts:
  assumes "add_new slot email org alias confirmed yes d w = (r, w')" "seq_file w = SeqRoster d"
    "slot = None \<Longrightarrow> find_account_slot (Some d) email org = []"
  shows "touches (add_resources slot email org d w) w w'" "keeps_records (add_slots slot email org d) d w'"
    "\<not> may_displace slot email org confirmed yes d \<Longrightarrow> w' = w"
proof -
  let ?R = "add_resources slot email org d w" and ?S = "add_slots slot email org d"
  have k0: "keeps_records T d w" for T using assms(2) by (auto simp: keeps_records_def)
  have still: "touches ?R w w1 \<and> keeps_records ?S d w1" if "touches {} w w1" for w1
    using that keeps_records_same [OF k0 that] touches_mono by blast
  have "touches ?R w w' \<and> keeps_records ?S d w'"
  proof (cases "choose_slot slot email org confirmed yes d")
    case (Inl e)
    then show ?thesis using assms(1) still by (simp add: add_new_def)
  next
    case (Inr c)
    obtain num occ src where c: "c = (num, occ, src)" by (cases c)
    note f = choose_slot_facts [OF Inr [unfolded c] assms(3)]
    obtain l w1 where l: "read_login w = (l, w1)" by fastforce
    have t1: "touches {} w w1" by (rule touches_result [OF l]) (intro frames; simp)
    show ?thesis
    proof (cases "alias_conflict alias num d \<noteq> None \<or> (\<exists>e. l = Inl e)")
      case True
      then have "w' = w \<or> w' = w1" using assms(1) Inr c l by (cases "alias_conflict alias num d") (auto simp: add_new_def)
      then show ?thesis using still t1 by auto
    next
      case False
      then obtain creds config where lo: "l = Inr (creds, config)" "alias_conflict alias num d = None" by (cases l) auto
      obtain kept where run: "install occ src num email (fst (snd (parse_oauth_config config))) creds config
           (\<lambda>d w. (enter_slot num (live_record email config kept w) d)\<lparr>active_num := Some (slot_value num)\<rparr>) d w1 = (r, w')"
        using assms(1) Inr c l lo by (auto simp: add_new_def Let_def)
      have occ: "di_num i \<in> ?S" if "occ = Some i" for i
        using f(1,2) that slot_occupant_num by (auto simp: add_slots_def)
      have fr: "src \<in> ?S" if "src \<noteq> []" using f(4) that by (auto simp: add_slots_def)
      have num: "num \<in> ?S" using f(1) by (simp add: add_slots_def)
      have "touches ?R w w'"
        by (rule touches_result [OF run], intro frames touches_mono [OF t1])
          (use occ fr num in \<open>auto simp: add_resources_def\<close>)
      moreover have "keeps_records ?S d w'"
        by (rule install_keeps [OF run keeps_records_same [OF k0 t1]])
          (use occ fr num enter_slot_other(1) in \<open>auto\<close>, metis enter_slot_other(2) num)
      ultimately show ?thesis by blast
    qed
  qed
  then show "touches ?R w w'" "keeps_records ?S d w'" by auto
  show "w' = w" if "\<not> may_displace slot email org confirmed yes d"
  proof (cases slot)
    case None
    with that show ?thesis by (simp add: may_displace_def)
  next
    case (Some n)
    then show ?thesis using choose_slot_refused [OF Some that] assms(1) by (auto simp: add_new_def)
  qed
qed

lemma touches_split: "(\<And>a b. touches R w (snd (f a b))) \<Longrightarrow> touches R w (snd (case q of (a, b) \<Rightarrow> f a b))"
  by (cases q) simp

lemma add_refresh_facts:
  assumes "add_refresh_in_place num email org alias d w = (r, w')" "seq_file w = SeqRoster d"
  shows "touches ({RSeq, RUsage} \<union> slot_files num w) w w'" "keeps_records {num} d w'"
proof -
  have k0: "keeps_records T d w" for T using assms(2) by (auto simp: keeps_records_def)
  show "touches ({RSeq, RUsage} \<union> slot_files num w) w w'"
    by (rule touches_result [OF assms(1)]) (unfold add_refresh_in_place_def, intro frames touches_split; auto)
  obtain l w1 where l: "read_login w = (l, w1)" by fastforce
  have "touches {} w w1" by (rule touches_result [OF l]) (intro frames; simp)
  then have k1: "keeps_records {num} d w1" by (rule keeps_records_same [OF k0]) simp
  show "keeps_records {num} d w'"
  proof (cases "alias_conflict alias num d \<noteq> None \<or> (\<exists>e. l = Inl e)")
    case True
    then have "w' = w \<or> w' = w1" using assms(1) l by (cases "alias_conflict alias num d") (auto simp: add_refresh_in_place_def)
    then show ?thesis using k0 k1 by auto
  next
    case False
    then obtain creds config where lo: "l = Inr (creds, config)" "alias_conflict alias num d = None" by (cases l) auto
    obtain e w2 where e: "store_backups num email org creds config w1 = (e, w2)" by fastforce
    have k2: "keeps_records {num} d w2" by (rule store_backups_keeps [OF e k1])
    show ?thesis
    proof (cases e)
      case (Some x)
      then show ?thesis using assms(1) l lo e k2 by (auto simp: add_refresh_in_place_def)
    next
      case None
      then have "commit_roster num ((case alias of None \<Rightarrow> d | Some a \<Rightarrow> put_record num (gm_put ''alias'' (JStr a) (rec_at d num)) d)
                       \<lparr>active_num := Some (slot_value num)\<rparr>) w2 = (r, w')"
        using assms(1) l lo e by (simp add: add_refresh_in_place_def)
      then show ?thesis
        by (rule commit_roster_keeps [OF _ k2]) (auto simp: put_record_def split: option.split)
    qed
  qed
qed

lemma add_body_facts:
  assumes "add_body slot email org alias confirmed yes d w = (r, w')" "seq_file w = SeqRoster d"
  shows "touches (add_resources slot email org d w) w w'" "keeps_records (add_slots slot email org d) d w'"
    "\<not> may_displace slot email org confirmed yes d \<Longrightarrow> w' = w"
proof -
  let ?old = "find_account_slot (Some d) email org"
  have "touches (add_resources slot email org d w) w w' \<and> keeps_records (add_slots slot email org d) d w'
    \<and> (\<not> may_displace slot email org confirmed yes d \<longrightarrow> w' = w)"
  proof (cases "slot = None \<and> ?old \<noteq> []")
    case True
    then have b: "add_refresh_in_place ?old email org alias d w = (r, w')" using assms(1) by (simp add: add_body_def)
    have s: "?old \<in> add_slots slot email org d" using True by (simp add: add_slots_def)
    from add_refresh_facts [OF b assms(2)] have "touches (add_resources slot email org d w) w w'"
      by (elim touches_mono) (use s in \<open>auto simp: add_resources_def\<close>)
    moreover have "keeps_records (add_slots slot email org d) d w'"
      using keeps_records_mono [OF add_refresh_facts(2) [OF b assms(2)]] s by blast
    ultimately show ?thesis using True by (simp add: may_displace_def)
  next
    case False
    then have "add_new slot email org alias confirmed yes d w = (r, w')" using assms(1) by (auto simp: add_body_def Let_def split: if_splits)
    from add_new_facts [OF this assms(2)] False show ?thesis by auto
  qed
  then show "touches (add_resources slot email org d w) w w'" "keeps_records (add_slots slot email org d) d w'"
    "\<not> may_displace slot email org confirmed yes d \<Longrightarrow> w' = w" by auto
qed

text \<open>
  Property C29: adding the live login never costs another account its slot unasked. Whatever calls fail
  while the commit runs on a roster of numbered slots, every slot but the target and the one the same
  identity leaves keeps its record, its credential and its configuration; and when the target holds
  another identity that the user was neither shown in that slot nor agreed to displace in advance, the
  commit changes no record and no backup at all.
\<close>

theorem adding_spares_others:
  assumes "with_roster_locked (add_body slot email org alias confirmed yes) w = (r, w')"
    "seq_file w = SeqRoster d" "\<not> needs_org_backfill d"
    "\<forall>k \<in> insert (add_target slot email org d) (dom (map_of (accounts d))). is_digits k"
  shows "\<exists>d'. seq_file w' = SeqRoster d'
     \<and> (\<forall>n raw. map_of (accounts d) n = Some raw
          \<and> (n \<notin> {add_target slot email org d, find_account_slot (Some d) email org}
             \<or> slot \<noteq> None \<and> \<not> yes \<and> slot_occupant d (add_target slot email org d) email org \<noteq> None
               \<and> \<not> same_identity confirmed (slot_occupant d (add_target slot email org d) email org))
        \<longrightarrow> map_of (accounts d') n = Some raw
          \<and> (\<forall>e. backup_of n e w' = backup_of n e w \<and> config_of n e w' = config_of n e w))"
proof (cases rule: locked_steady [OF assms(2,3), of "add_body slot email org alias confirmed yes"])
  case (1 e w1)
  then have "touches {} w w'" using assms(1) by simp
  then show ?thesis
    using assms(2) touches_same [of "{}" w w' RSeq] backup_of_touches [of "{}" w w'] config_of_touches [of "{}" w w'] by simp
next
  case (2 w1)
  let ?S = "add_slots slot email org d" and ?old = "find_account_slot (Some d) email org"
  have b: "add_body slot email org alias confirmed yes d w1 = (r, w')" using 2 assms(1) by simp
  have s1: "seq_file w1 = SeqRoster d" using touches_same [OF 2(2), of RSeq] assms(2) by simp
  note f = add_body_facts [OF b s1]
  obtain d' where d': "seq_file w' = SeqRoster d'" "\<And>n. n \<notin> ?S \<Longrightarrow> map_of (accounts d') n = map_of (accounts d) n"
    using f(2) unfolding keeps_records_def by blast
  have t: "touches (add_resources slot email org d w) w w'"
    using touches_trans [OF touches_mono [OF 2(2)] f(1)] slot_files_touches [OF 2(2)]
    by (simp add: add_resources_def)
  have kept: "backup_of n e w' = backup_of n e w \<and> config_of n e w' = config_of n e w"
    if "map_of (accounts d) n = Some raw" "n \<notin> ?S" for n raw e
  proof -
    have dg: "is_digits n" using assms(4) that(1) by blast
    have "?old \<noteq> [] \<Longrightarrow> ?old \<in> dom (map_of (accounts d))" by (rule find_account_slot_mem)
    then have "is_digits m" if "m \<in> ?S" for m using assms(4) that by (auto simp: add_slots_def split: if_splits)
    then have "r \<notin> add_resources slot email org d w"
      if "r \<in> {RCredFile (backup_enc_path n e), RKeychain (security_service, backup_username n e), RConfigFile (config_backup_path n e)}" for r
      using that slot_files_apart [OF dg] \<open>n \<notin> ?S\<close> unfolding add_resources_def by blast
    then show ?thesis using backup_of_touches [OF t] config_of_touches [OF t] by blast
  qed
  show ?thesis
  proof (cases "may_displace slot email org confirmed yes d")
    case True
    have "\<not> (slot \<noteq> None \<and> \<not> yes \<and> slot_occupant d (add_target slot email org d) email org \<noteq> None
               \<and> \<not> same_identity confirmed (slot_occupant d (add_target slot email org d) email org))"
      using True by (cases slot) (auto simp: may_displace_def add_target_def Let_def)
    moreover have "n \<notin> ?S" if "n \<notin> {add_target slot email org d, ?old}" for n using that by (simp add: add_slots_def)
    ultimately show ?thesis using d' kept by (intro exI [of _ d']) metis
  next
    case False
    then have "w' = w1" by (rule f(3))
    then show ?thesis using s1 backup_of_touches [OF 2(2)] config_of_touches [OF 2(2)] by simp
  qed
qed

section \<open>A successful add stored the account\<close>

lemma store_backups_ok:
  assumes "store_backups num email org creds config w = (None, w')" "creds \<noteq> []"
  shows "backup_of num email w' = creds" "config_of num email w' = config"
proof -
  obtain w1 w2 where w: "write_account_credentials num email creds w = (None, w1)" "write_account_config num email config w1 = (None, w2)"
    "w' = clear_dead num email org w2"
    using assms(1) by (auto simp: store_backups_def and_then_None split: prod.splits option.splits)
  have t: "touches {RUsage} w2 w'" unfolding w(3) clear_dead_def by (intro frames; simp)
  have "touches {RConfigFile (config_backup_path num email)} w1 w2" by (rule touches_result [OF w(2)]) (intro frames; simp)
  then have "backup_of num email w2 = creds"
    using backup_of_touches write_account_credentials_ok [OF w(1) assms(2)] by fastforce
  then show "backup_of num email w' = creds" using backup_of_touches [OF t] by simp
  show "config_of num email w' = config" using config_of_touches [OF t] write_account_config_ok [OF w(2)] by simp
qed

lemma commit_roster_ok:
  assumes "commit_roster num d w = (Inr n, w')"
  shows "n = num" "seq_file w' = SeqRoster (stamp_roster w d)" "touches {RSeq} w w'"
proof -
  obtain e w1 where e: "write_sequence (stamp_roster w d) w = (e, w1)" by fastforce
  then have r: "e = None" "w1 = w'" "n = num" using assms by (cases e; simp add: commit_roster_def)+
  show "n = num" by (rule r(3))
  show "seq_file w' = SeqRoster (stamp_roster w d)" using e r write_sequence_ok by blast
  show "touches {RSeq} w w'" unfolding r(2) [symmetric] by (rule touches_result [OF e]) (intro frames; simp)
qed

text \<open>Storing the backups and committing a roster, whichever it is.\<close>

lemma stored_ok:
  assumes "(case store_backups num email org creds config w of
              (Some e, w) \<Rightarrow> (Inl e, w) | (None, w) \<Rightarrow> commit_roster num (entry w) w) = (Inr n, w')" "creds \<noteq> []"
  obtains w1 where "n = num" "seq_file w' = SeqRoster (stamp_roster w1 (entry w1))"
    "backup_of num email w' = creds" "config_of num email w' = config"
proof -
  obtain e w1 where e: "store_backups num email org creds config w = (e, w1)" by fastforce
  then have "e = None" using assms(1) by (cases e) auto
  then have c: "commit_roster num (entry w1) w1 = (Inr n, w')" "store_backups num email org creds config w = (None, w1)"
    using assms(1) e by auto
  note k = commit_roster_ok [OF c(1)]
  show ?thesis
    by (rule that [of w1])
      (use k(1,2) store_backups_ok [OF c(2) assms(2)] backup_of_touches [OF k(3)] config_of_touches [OF k(3)] in auto)
qed

lemma install_ok:
  assumes "install occ src num email org creds config entry d w = (Inr n, w')" "creds \<noteq> []"
  obtains d1 w1 where "n = num" "seq_file w' = SeqRoster (stamp_roster w1 (entry d1 w1))"
    "backup_of num email w' = creds" "config_of num email w' = config"
proof -
  obtain q w0 where q: "make_room occ src d w = (q, w0)" by fastforce
  with assms(1) obtain d1 where d1: "q = Inr d1" by (cases q) (auto simp: install_def)
  with assms(1) q have "(case store_backups num email org creds config w0 of
      (Some e, w) \<Rightarrow> (Inl e, w) | (None, w) \<Rightarrow> commit_roster num (entry d1 w) w) = (Inr n, w')" by (simp add: install_def)
  then show ?thesis by (rule stored_ok [OF _ assms(2)]) (rule that)
qed

lemma read_login_ok:
  assumes "read_login w = (Inr (creds, config), w')"
  shows "\<exists>b. fst (read_active w) = Inr (creds, b)" "creds \<noteq> []" "\<not> looks_like_api_key creds" "live_config w = Some config"
proof -
  obtain a w1 where a: "read_active w = (a, w1)" by fastforce
  have t: "touches {} w w1" by (rule touches_result [OF a]) (intro frames; simp)
  show "\<exists>b. fst (read_active w) = Inr (creds, b)" "creds \<noteq> []" "\<not> looks_like_api_key creds" "live_config w = Some config"
    using assms a touches_same [OF t, of RLiveConfig]
    by (auto simp: read_login_def read_active_credential_def reject_live_api_key_capture_def read_live_config_text_def
        split: sum.splits if_splits option.splits prod.splits fault.splits)
qed

lemma rec_at_account: "distinct (gm_keys rec) \<Longrightarrow> accounts x = gm_put num (JObj rec) a \<Longrightarrow> rec_at x num = rec"
  by (simp add: rec_at_def decode_record_def obj_map_id)

lemma rec_entered:
  "distinct (gm_keys rec) \<Longrightarrow> rec_at (stamp_roster w ((enter_slot num rec d)\<lparr>active_num := a\<rparr>)) num = rec"
  "distinct (gm_keys rec) \<Longrightarrow> rec_at (stamp_roster w (enter_slot num rec d)) num = rec"
  by (erule rec_at_account, simp add: stamp_roster_def enter_slot_def put_record_def Let_def)+

lemma live_record_fields:
  "distinct (gm_keys (live_record email config kept w))"
  "str_field (live_record email config kept w) ''email'' = email"
  "str_field (live_record email config kept w) ''organizationUuid'' = fst (snd (parse_oauth_config config))"
  by (auto simp: live_record_def gm_keys_def str_field_def mget_def split: prod.split)

lemma add_body_stores:
  assumes b: "add_body slot email org alias confirmed yes d v = (Inr num, w')"
  shows "\<exists>d' creds config b. seq_file w' = SeqRoster d' \<and> rec_email d' num = email \<and> active_num d' = Some (slot_value num)
     \<and> rec_org d' num = (if slot = None \<and> find_account_slot (Some d) email org \<noteq> [] then org else fst (snd (parse_oauth_config config)))
     \<and> fst (read_active v) = Inr (creds, b) \<and> live_config v = Some config
     \<and> \<not> looks_like_api_key creds \<and> backup_of num email w' = creds \<and> config_of num email w' = config"
proof -
  let ?old = "find_account_slot (Some d) email org"
  show ?thesis
  proof (cases "slot = None \<and> ?old \<noteq> []")
    case True
    then have "add_refresh_in_place ?old email org alias d v = (Inr num, w')" using b by (simp add: add_body_def)
    then obtain l w1 creds config where l: "read_login v = (Inr (creds, config), w1)"
      and s: "(case store_backups ?old email org creds config w1 of
              (Some e, w) \<Rightarrow> (Inl e, w)
            | (None, w) \<Rightarrow> commit_roster ?old ((case alias of None \<Rightarrow> d | Some a \<Rightarrow> put_record ?old (gm_put ''alias'' (JStr a) (rec_at d ?old)) d)
                       \<lparr>active_num := Some (slot_value ?old)\<rparr>) w) = (Inr num, w')"
      by (cases "read_login v"; cases "alias_conflict alias ?old d")
        (auto simp: add_refresh_in_place_def split: sum.splits)
    note r = read_login_ok [OF l]
    obtain w2 where k: "num = ?old" "seq_file w' = SeqRoster (stamp_roster w2 ((case alias of None \<Rightarrow> d | Some a \<Rightarrow> put_record ?old (gm_put ''alias'' (JStr a) (rec_at d ?old)) d)
                       \<lparr>active_num := Some (slot_value ?old)\<rparr>))" "backup_of ?old email w' = creds" "config_of ?old email w' = config"
      by (rule stored_ok [OF s r(2)]) (rule that; assumption)
    define d' where "d' = stamp_roster w2 ((case alias of None \<Rightarrow> d | Some a \<Rightarrow> put_record ?old (gm_put ''alias'' (JStr a) (rec_at d ?old)) d)
                       \<lparr>active_num := Some (slot_value ?old)\<rparr>)"
    have rec: "rec_email d ?old = email \<and> rec_org d ?old = org" using find_account_slot_holds True by blast
    have "distinct (gm_keys (rec_at d ?old))"
      using distinct_decode_record by (cases "map_of (accounts d) ?old") (simp_all add: rec_at_def gm_keys_def)
    then have dist: "distinct (gm_keys (gm_put ''alias'' v (rec_at d ?old)))" for v by (rule distinct_gm_put)
    have "rec_email d' ?old = email \<and> rec_org d' ?old = org"
    proof (cases "alias")
      case None
      then show ?thesis using rec by (simp add: d'_def rec_email_def rec_org_def rec_at_def stamp_roster_def)
    next
      case (Some a)
      then have "rec_at d' ?old = gm_put ''alias'' (JStr a) (rec_at d ?old)"
        by (intro rec_at_account [OF dist]) (simp add: d'_def stamp_roster_def put_record_def)
      then show ?thesis using rec by (simp add: rec_email_def rec_org_def)
    qed
    moreover have "active_num d' = Some (slot_value ?old)" by (simp add: d'_def stamp_roster_def)
    ultimately show ?thesis using k r True unfolding d'_def [symmetric] by metis
  next
    case False
    then have "add_new slot email org alias confirmed yes d v = (Inr num, w')" using b by (auto simp: add_body_def Let_def split: if_splits)
    then obtain n occ src creds config w1 kept where l: "read_login v = (Inr (creds, config), w1)"
      and s: "install occ src n email (fst (snd (parse_oauth_config config))) creds config
           (\<lambda>d w. (enter_slot n (live_record email config kept w) d)\<lparr>active_num := Some (slot_value n)\<rparr>) d w1 = (Inr num, w')"
      by (cases "read_login v")
        (auto simp: add_new_def Let_def split: sum.splits option.splits)
    note r = read_login_ok [OF l]
    obtain d1 w2 where k: "num = n" "seq_file w' = SeqRoster (stamp_roster w2 ((enter_slot n (live_record email config kept w2) d1)\<lparr>active_num := Some (slot_value n)\<rparr>))"
      "backup_of n email w' = creds" "config_of n email w' = config"
      by (rule install_ok [OF s r(2)]) (rule that; assumption)
    define d' where "d' = stamp_roster w2 ((enter_slot n (live_record email config kept w2) d1)\<lparr>active_num := Some (slot_value n)\<rparr>)"
    have "rec_at d' n = live_record email config kept w2" unfolding d'_def by (rule rec_entered(1)) (rule live_record_fields)
    then have "rec_email d' n = email" "rec_org d' n = fst (snd (parse_oauth_config config))"
      using live_record_fields by (simp_all add: rec_email_def rec_org_def)
    moreover have "active_num d' = Some (slot_value n)" by (simp add: d'_def stamp_roster_def)
    ultimately show ?thesis using k r False unfolding d'_def [symmetric] by metis
  qed
qed


text \<open>
  Property C30: an account that was reported as added is stored, and active. The result's slot then holds,
  in the roster on disk, the e-mail address that was logged in when the command started; its backups are
  byte for byte the credential and the configuration that are live at the commit, never an API key; and
  the organization of the record is the one of the start or the one in this configuration. The code does not compare
  the two logins: when another process switches between them, the slot gets the credential of one account
  under the address of the other (as in the example below).
\<close>

theorem adding_stores_login:
  assumes "add_account slot yes alias answer meanwhile w = (Inr (Some num), w')"
  shows "\<exists>email org w1 v d' creds config b. current_account w = Some (email, org) \<and> touches {RSeq} w w1
     \<and> touches {RSeq} (meanwhile w1) v \<and> seq_file w' = SeqRoster d' \<and> rec_email d' num = email
     \<and> active_num d' = Some (slot_value num) \<and> rec_org d' num \<in> {org, fst (snd (parse_oauth_config config))}
     \<and> fst (read_active v) = Inr (creds, b) \<and> live_config (meanwhile w1) = Some config
     \<and> \<not> looks_like_api_key creds \<and> backup_of num email w' = creds \<and> config_of num email w' = config"
proof -
  obtain e w0 where e: "setup_directories w = (e, w0)" by fastforce
  have t0: "touches {} w w0" by (rule touches_result [OF e]) (unfold setup_directories_def, intro frames; simp)
  have ca: "current_account w0 = current_account w"
    using touches_same [OF t0, of RLiveConfig] by (simp add: current_account_def read_lenient_def)
  have "e = None" using assms e by (cases e) (simp_all add: add_account_def)
  then obtain al email org where i: "current_account w = Some (email, org)"
    "(case confirm_displacement slot yes email org answer w0 of
        (Inl e, w) \<Rightarrow> (Inl e, w)
      | (Inr None, w) \<Rightarrow> (Inr None, w)
      | (Inr (Some confirmed), w) \<Rightarrow>
          (case with_roster_locked (add_body slot email org al confirmed yes) (meanwhile w) of
             (Inl e, w) \<Rightarrow> (Inl e, w) | (Inr num, w) \<Rightarrow> (Inr (Some num), w))) = (Inr (Some num), w')"
    using assms e ca by (auto simp: add_account_def split: sum.splits option.splits if_splits)
  obtain q w1 where q: "confirm_displacement slot yes email org answer w0 = (q, w1)" by fastforce
  have "touches {RSeq} w0 w1"
    by (rule touches_result [OF q]) (intro frames; simp)
  then have t1: "touches {RSeq} w w1" using touches_trans touches_mono [OF t0] by blast
  obtain confirmed where "q = Inr (Some confirmed)" using i(2) q by (auto split: sum.splits option.splits)
  with i(2) q have r: "with_roster_locked (add_body slot email org al confirmed yes) (meanwhile w1) = (Inr num, w')"
    by (auto split: prod.splits sum.splits)
  show ?thesis
  proof (cases rule: with_roster_locked_cases [of "add_body slot email org al confirmed yes" "meanwhile w1"])
    case (refused e w2)
    then show ?thesis using r by simp
  next
    case (run d v)
    have b: "add_body slot email org al confirmed yes d v = (Inr num, w')" using run(1) r by simp
    have "live_config v = live_config (meanwhile w1)" using touches_same [OF run(2), of RLiveConfig] by simp
    with add_body_stores [OF b] i(1) t1 run(2) show ?thesis
      by (metis (no_types, lifting) insertI1 insertI2)
  qed
qed

section \<open>Examples\<close>

text \<open>
  The login of slot 1 is added to slot 7, and a write fails after slot 1 was given up: slot 2
  keeps its backup. (The login is then in no slot of the roster.)
\<close>

lemma adding_spares_others_witness:
  "backup_of ''2'' ''a@x'' (snd (with_roster_locked (add_body (Some 7) ''a@x'' [] None None False)
     (sample_login (replicate 7 NoFault @ [OtherFail True])))) = ''CRED-2''"
proof -
  let ?w = "sample_login (replicate 7 NoFault @ [OtherFail True])"
  let ?r = "with_roster_locked (add_body (Some 7) ''a@x'' [] None None False) ?w"
  have s: "seq_file ?w = SeqRoster sample_pair" by (simp add: sample_login_def sample_linux_def)
  have b: "\<not> needs_org_backfill sample_pair" by code_simp
  have t: "add_target (Some 7) ''a@x'' [] sample_pair = ''7''" "find_account_slot (Some sample_pair) ''a@x'' [] = ''1''" by code_simp+
  have "is_digits ''1''" "is_digits ''2''" "is_digits ''7''" by code_simp+
  then have k: "\<forall>k \<in> insert (add_target (Some 7) ''a@x'' [] sample_pair) (dom (map_of (accounts sample_pair))). is_digits k"
    unfolding t by (auto simp: sample_pair_def split: if_splits)
  have m: "map_of (accounts sample_pair) ''2'' = Some (JObj [(''email'', JStr ''a@x''), (''organizationUuid'', JStr ''o2'')])"
    by (simp add: sample_pair_def)
  have "backup_of ''2'' ''a@x'' (snd ?r) = backup_of ''2'' ''a@x'' ?w"
    using adding_spares_others [OF prod.collapse [symmetric, of ?r] s b k] m unfolding t by blast
  also have "\<dots> = ''CRED-2''" by code_simp
  finally show ?thesis .
qed

text \<open>While the command runs, another process logs b@x in: its credential and configuration end in the slot of a@x.\<close>

definition other_login :: jtext where
  "other_login = TJson (JObj [(''oauthAccount'', JObj [(''emailAddress'', JStr ''b@x''), (''organizationUuid'', JStr [])])])"

lemma adding_stores_login_witness:
  "\<exists>d'. seq_file (snd (add_account (Some 7) False None None (\<lambda>w. w\<lparr>live_creds := Some ''LIVE-B'', live_config := Some other_login\<rparr>) (sample_login []))) = SeqRoster d'
     \<and> rec_email d' ''7'' = ''a@x''
     \<and> config_of ''7'' ''a@x'' (snd (add_account (Some 7) False None None (\<lambda>w. w\<lparr>live_creds := Some ''LIVE-B'', live_config := Some other_login\<rparr>) (sample_login []))) = other_login"
proof -
  let ?m = "\<lambda>w. w\<lparr>live_creds := Some ''LIVE-B'', live_config := Some other_login\<rparr>"
  let ?r = "add_account (Some 7) False None None ?m (sample_login [])"
  have "fst ?r = Inr (Some ''7'')" by code_simp
  then have r: "?r = (Inr (Some ''7''), snd ?r)" by (simp add: prod_eq_iff)
  have "current_account (sample_login []) = Some (''a@x'', [])" by code_simp
  with adding_stores_login [OF r] show ?thesis by auto
qed

end
