(* ===== verification/JsonEncode.thy ===== *)
theory JsonEncode
  imports JsonDecode Roster
begin

text \<open>
  The encoder of \<open>encoding/json\<close>, for the texts the program writes and later parses: strings without HTML
  escaping, and whole values on one line, as lifecycle and transfer write credentials. The decoder of
  JsonDecode reads back what is written here.
\<close>

section \<open>Strings\<close>

text \<open>
  A string as \<open>encoding/json\<close> writes it without HTML escaping. The bytes are taken to be valid UTF-8 (the
  encoder replaces invalid ones); U+2028 and U+2029 are escaped.
\<close>

definition hex_digit :: "nat \<Rightarrow> char" where
  "hex_digit n = ''0123456789abcdef'' ! n"

fun json_escaped :: "string \<Rightarrow> string" where
  "json_escaped [] = []"
| "json_escaped (c # s) =
     (let n = of_char c :: nat
      in if c = CHR ''\"'' then CHR 0x5C # CHR ''\"'' # json_escaped s
         else if c = CHR 0x5C then CHR 0x5C # CHR 0x5C # json_escaped s
         else if n = 8 then CHR 0x5C # CHR ''b'' # json_escaped s
         else if n = 9 then CHR 0x5C # CHR ''t'' # json_escaped s
         else if n = 10 then CHR 0x5C # CHR ''n'' # json_escaped s
         else if n = 12 then CHR 0x5C # CHR ''f'' # json_escaped s
         else if n = 13 then CHR 0x5C # CHR ''r'' # json_escaped s
         else if n < 32 then CHR 0x5C # ''u00'' @ [hex_digit (n div 16), hex_digit (n mod 16)] @ json_escaped s
         else if c = CHR 0xE2 \<and> take 2 s = [CHR 0x80, CHR 0xA8] then CHR 0x5C # ''u2028'' @ json_escaped (drop 2 s)
         else if c = CHR 0xE2 \<and> take 2 s = [CHR 0x80, CHR 0xA9] then CHR 0x5C # ''u2029'' @ json_escaped (drop 2 s)
         else c # json_escaped s)"

definition json_string_lit :: "string \<Rightarrow> string" where
  "json_string_lit s = CHR ''\"'' # json_escaped s @ ''\"''"

lemma of_char_eq: "(of_char c :: nat) = n \<Longrightarrow> c = char_of n"
  by (metis char_of_char)

lemma separator_bytes:
  "CHR 0xE2 = char_of (226 :: nat)" "CHR 0x80 = char_of (128 :: nat)" "CHR 0xA8 = char_of (168 :: nat)" "CHR 0xA9 = char_of (169 :: nat)"
  by (rule of_char_eq; simp)+

lemma hex_digit_val: "n < 16 \<Longrightarrow> hex_val (hex_digit n) = Some n"
proof -
  assume "n < 16"
  then have "n \<in> set [0..<16]" by simp
  then show ?thesis by (auto simp: upt_rec hex_digit_def hex_val_def Let_def)
qed

lemma control_char: "(of_char c :: nat) < 32 \<Longrightarrow> hex4 (CHR ''0'') (CHR ''0'') (hex_digit (of_char c div 16)) (hex_digit (of_char c mod 16)) = Some (of_char c)"
  by (simp add: hex4_def hex_digit_val) (simp add: hex_val_def)

lemma str_body_plain:
  "32 \<le> (of_char c :: nat) \<Longrightarrow> c \<noteq> CHR ''\"'' \<Longrightarrow> c \<noteq> CHR 0x5C \<Longrightarrow> str_body None acc (c # s) = str_body None (acc @ [c]) s"
  by (simp add: flush_def)

lemma str_body_u:
  "hex4 p q r t = Some n \<Longrightarrow> n < 55296 \<Longrightarrow>
   str_body None acc (CHR 0x5C # CHR ''u'' # p # q # r # t # s) = str_body None (acc @ utf8 n) s"
  by (simp add: surrogate_def)

lemma str_body_short:
  "escape_char e = Some x \<Longrightarrow> e \<noteq> CHR ''u'' \<Longrightarrow> str_body None acc (CHR 0x5C # e # s) = str_body None (acc @ [x]) s"
  by (simp add: flush_def)

lemma str_body_escaped:
  "str_body None acc (json_escaped s @ CHR ''\"'' # rest) = Some (acc @ s, rest)"
proof (induction s arbitrary: acc rule: measure_induct_rule [of length])
  case (less t)
  show ?case
  proof (cases t)
    case Nil
    then show ?thesis by (simp add: flush_def)
  next
    case (Cons c s)
    let ?n = "of_char c :: nat" and ?tl = "CHR ''\"'' # rest"
    have IH: "str_body None acc (json_escaped u @ ?tl) = Some (acc @ u, rest)" if "length u \<le> length s" for acc u
      using less that Cons by simp
    have short: ?thesis if "json_escaped (c # s) = CHR 0x5C # e # json_escaped s" "escape_char e = Some c" "e \<noteq> CHR ''u''" for e
      using that Cons IH by (simp add: str_body_short del: json_escaped.simps str_body.simps)
    consider (quote) "c = CHR ''\"''" | (bs) "c = CHR 0x5C" | (n) "?n \<in> {8, 9, 10, 12, 13}"
      | (control) "c \<noteq> CHR ''\"''" "c \<noteq> CHR 0x5C" "?n \<notin> {8, 9, 10, 12, 13}" "?n < 32"
      | (plain) "c \<noteq> CHR ''\"''" "c \<noteq> CHR 0x5C" "32 \<le> ?n"
      by fastforce
    then show ?thesis
    proof cases
      case quote
      then show ?thesis by (intro short [of "CHR ''\"''"]) (simp_all add: escape_char_def)
    next
      case bs
      then show ?thesis by (intro short [of "CHR 0x5C"]) (simp_all add: escape_char_def)
    next
      case n
      have c: "c \<noteq> CHR ''\"''" "c \<noteq> CHR 0x5C" using n by auto
      have "?thesis" if "?n = k" "(k, e) \<in> {(8, CHR ''b''), (9, CHR ''t''), (10, CHR ''n''), (12, CHR ''f''), (13, CHR ''r'')}" for k e
      proof (rule short [of e])
        show "json_escaped (c # s) = CHR 0x5C # e # json_escaped s"
          using that(2) unfolding json_escaped.simps(2) Let_def that(1) by (elim insertE) (simp_all add: c)
        have "c = char_of k" by (rule of_char_eq [OF that(1)])
        then show "escape_char e = Some c" using that(2) by (auto simp: escape_char_def)
        show "e \<noteq> CHR ''u''" using that(2) by auto
      qed
      then show ?thesis using n by blast
    next
      case control
      have u: "json_escaped (c # s) = CHR 0x5C # CHR ''u'' # CHR ''0'' # CHR ''0'' # hex_digit (?n div 16) # hex_digit (?n mod 16) # json_escaped s"
        using control by (simp add: Let_def)
      have "utf8 ?n = [c]" using control(4) by (simp add: utf8_def)
      then show ?thesis
        using control IH [of s] unfolding Cons u
        by (simp add: str_body_u [OF control_char] del: json_escaped.simps str_body.simps)
    next
      case plain
      have sep: ?thesis
        if "json_escaped (c # s) = CHR 0x5C # CHR ''u'' # CHR ''2'' # CHR ''0'' # CHR ''2'' # x # json_escaped u"
          "c # s = utf8 (8224 + k) @ u" "hex4 (CHR ''2'') (CHR ''0'') (CHR ''2'') x = Some (8224 + k)" "k < 16" "length u \<le> length s" for x k u
        using that IH [of u] Cons by (simp add: str_body_u del: json_escaped.simps str_body.simps)
      have one: ?thesis if "json_escaped (c # s) = c # json_escaped s"
        using that plain IH [of s] Cons by (simp add: str_body_plain del: json_escaped.simps str_body.simps)
      have at: "s = CHR 0x80 # x # drop 2 s" if "take 2 s = [CHR 0x80, x]" for x
        using append_take_drop_id [of 2 s] that by simp
      show ?thesis
      proof (cases "c = CHR 0xE2 \<and> (take 2 s = [CHR 0x80, CHR 0xA8] \<or> take 2 s = [CHR 0x80, CHR 0xA9])")
        case True
        then show ?thesis
        proof (elim conjE disjE)
          assume c: "c = CHR 0xE2" and x: "take 2 s = [CHR 0x80, CHR 0xA8]"
          show ?thesis
            by (rule sep [of "CHR ''8''" "drop 2 s" 8], simp add: c x, subst at [OF x], simp add: c utf8_def separator_bytes,
                simp_all add: hex4_def hex_val_def)
        next
          assume c: "c = CHR 0xE2" and x: "take 2 s = [CHR 0x80, CHR 0xA9]"
          show ?thesis
            by (rule sep [of "CHR ''9''" "drop 2 s" 9], simp add: c x, subst at [OF x], simp add: c utf8_def separator_bytes,
                simp_all add: hex4_def hex_val_def)
        qed
      next
        case False
        then have "json_escaped (c # s) = c # json_escaped s" using plain by (auto simp: Let_def)
        then show ?thesis by (rule one)
      qed
    qed
  qed
qed

lemma dec_escaped: "dec_string (CHR ''\"'' # json_escaped s @ CHR ''\"'' # rest) = Some (s, rest)"
  using str_body_escaped [of "[]" s rest] by (simp add: dec_string_def del: json_escaped.simps str_body.simps)

section \<open>Values\<close>

text \<open>
  A value on one line: the item and key separators are parameters, and so is the text of a number (the
  program keeps the text it read).
\<close>

fun emit :: "string \<Rightarrow> string \<Rightarrow> (rat \<Rightarrow> string) \<Rightarrow> json \<Rightarrow> string"
and emit_elems :: "string \<Rightarrow> string \<Rightarrow> (rat \<Rightarrow> string) \<Rightarrow> json list \<Rightarrow> string"
and emit_members :: "string \<Rightarrow> string \<Rightarrow> (rat \<Rightarrow> string) \<Rightarrow> (string \<times> json) list \<Rightarrow> string" where
  "emit sep col num JNull = ''null''"
| "emit sep col num (JBool b) = (if b then ''true'' else ''false'')"
| "emit sep col num (JNum r) = num r"
| "emit sep col num (JStr s) = json_string_lit s"
| "emit sep col num (JArr vs) = ''['' @ emit_elems sep col num vs @ '']''"
| "emit sep col num (JObj kvs) = ''{'' @ emit_members sep col num kvs @ ''}''"
| "emit_elems sep col num [] = []"
| "emit_elems sep col num [v] = emit sep col num v"
| "emit_elems sep col num (v # w # vs) = emit sep col num v @ sep @ emit_elems sep col num (w # vs)"
| "emit_members sep col num [] = []"
| "emit_members sep col num [(k, v)] = json_string_lit k @ col @ emit sep col num v"
| "emit_members sep col num ((k, v) # kv # kvs) =
     json_string_lit k @ col @ emit sep col num v @ sep @ emit_members sep col num (kv # kvs)"

text \<open>\<open>marshalSpacedNoHTML\<close> keeps the order of the members; \<open>marshalNoHTML\<close> of a decoded map sorts them.\<close>

definition emit_spaced :: "(rat \<Rightarrow> string) \<Rightarrow> json \<Rightarrow> string" where
  "emit_spaced = emit '', '' '': ''"

fun norm_json :: "json \<Rightarrow> json" and norm_elems :: "json list \<Rightarrow> json list"
and norm_members :: "(string \<times> json) list \<Rightarrow> (string \<times> json) list" where
  "norm_json (JArr vs) = JArr (norm_elems vs)"
| "norm_json (JObj kvs) = encode_record (obj_map (norm_members kvs))"
| "norm_json v = v"
| "norm_elems [] = []"
| "norm_elems (v # vs) = norm_json v # norm_elems vs"
| "norm_members [] = []"
| "norm_members ((k, v) # kvs) = (k, norm_json v) # norm_members kvs"

definition emit_compact :: "(rat \<Rightarrow> string) \<Rightarrow> json \<Rightarrow> string" where
  "emit_compact num v = emit '','' '':'' num (norm_json v)"

text \<open>\<open>json.Unmarshal\<close> into an \<open>any\<close>: one value and nothing but white space after it.\<close>

definition json_document :: "string \<Rightarrow> json option" where
  "json_document s =
     (case dec_value (2 * length s + 2) s of
        None \<Rightarrow> None | Some (v, rest) \<Rightarrow> if skip_ws rest = [] then Some v else None)"

section \<open>What is written is read back\<close>

text \<open>The numbers of a value.\<close>

fun json_nums :: "json \<Rightarrow> rat set" and json_nums_elems :: "json list \<Rightarrow> rat set" and json_nums_members :: "(string \<times> json) list \<Rightarrow> rat set" where
  "json_nums (JNum r) = {r}"
| "json_nums (JArr vs) = json_nums_elems vs"
| "json_nums (JObj kvs) = json_nums_members kvs"
| "json_nums _ = {}"
| "json_nums_elems [] = {}"
| "json_nums_elems (v # vs) = json_nums v \<union> json_nums_elems vs"
| "json_nums_members [] = {}"
| "json_nums_members ((k, v) # kvs) = json_nums v \<union> json_nums_members kvs"

text \<open>A text for a number: it begins like one and is read back as the number before the end of a value.\<close>

definition ends_value :: "string \<Rightarrow> bool" where
  "ends_value s \<longleftrightarrow> s = [] \<or> hd s \<in> {CHR '','', CHR '']'', CHR ''}''}"

definition number_text :: "(rat \<Rightarrow> string) \<Rightarrow> rat \<Rightarrow> bool" where
  "number_text num r \<longleftrightarrow> num r \<noteq> [] \<and> (hd (num r) = CHR ''-'' \<or> is_digit (hd (num r)))
     \<and> (\<forall>rest. ends_value rest \<longrightarrow> dec_number (num r @ rest) = Some (r, rest))"


lemma lit_head: "json_string_lit s = CHR ''\"'' # json_escaped s @ ''\"''"
  by (rule json_string_lit_def)

lemma blank_skip: "list_all json_ws ws \<Longrightarrow> skip_ws (ws @ s) = skip_ws s"
  by (induction ws) (simp_all add: skip_ws_def)

lemma solid_skip: "\<not> json_ws c \<Longrightarrow> skip_ws (c # s) = c # s"
  by (simp add: skip_ws_def)

lemma digit_solid: "is_digit c \<or> c = CHR ''-'' \<Longrightarrow> \<not> json_ws c \<and> c \<notin> set ''{}[]tfn\"''"
  by (auto simp: is_digit_def json_ws_def less_eq_char_def)

lemma emit_head:
  "\<forall>r \<in> json_nums v. number_text num r \<Longrightarrow>
   \<exists>c t. emit sep col num v = c # t \<and> \<not> json_ws c \<and> c \<noteq> CHR '']'' \<and> c \<noteq> CHR ''}''"
proof (cases v)
  case (JNum r)
  assume "\<forall>r \<in> json_nums v. number_text num r"
  then have n: "num r \<noteq> []" "hd (num r) = CHR ''-'' \<or> is_digit (hd (num r))" using JNum by (simp_all add: number_text_def)
  have "emit sep col num v = hd (num r) # tl (num r)" using n(1) JNum by simp
  moreover have "\<not> json_ws (hd (num r)) \<and> hd (num r) \<noteq> CHR '']'' \<and> hd (num r) \<noteq> CHR ''}''" using digit_solid n(2) by auto
  ultimately show ?thesis by blast
qed (simp_all add: json_string_lit_def json_ws_def)

lemma dec_number_value:
  assumes "number_text num r" "ends_value rest"
  shows "dec_value (Suc f) (num r @ rest) = Some (JNum r, rest)"
proof -
  obtain c t where c: "num r = c # t" "c = CHR ''-'' \<or> is_digit c" using assms(1) by (cases "num r") (auto simp: number_text_def)
  have "\<not> json_ws c \<and> c \<notin> set ''{}[]tfn\"''" by (rule digit_solid) (use c(2) in blast)
  moreover have "dec_number (c # t @ rest) = Some (r, rest)" using assms c(1) by (simp add: number_text_def)
  ultimately show ?thesis unfolding c(1) append.simps by (simp add: solid_skip)
qed

lemma dec_literal_value:
  "dec_value (Suc f) (''null'' @ rest) = Some (JNull, rest)"
  "dec_value (Suc f) (''true'' @ rest) = Some (JBool True, rest)"
  "dec_value (Suc f) (''false'' @ rest) = Some (JBool False, rest)"
  by (simp_all add: skip_ws_def json_ws_def literal_def has_prefix_def)

lemma dec_string_value: "dec_value (Suc f) (json_string_lit s @ rest) = Some (JStr s, rest)"
  using dec_escaped [of s rest] by (simp add: json_string_lit_def skip_ws_def json_ws_def del: json_escaped.simps str_body.simps dec_string_def)

lemma dec_key: "dec_string (skip_ws (json_string_lit k @ rest)) = Some (k, rest)"
  using dec_escaped [of k rest] by (simp add: json_string_lit_def skip_ws_def json_ws_def del: json_escaped.simps str_body.simps)

lemma dec_ws: "list_all json_ws ws \<Longrightarrow> dec_value f (ws @ s) = dec_value f s"
  by (cases f) (simp_all add: blank_skip)

lemma dec_members_ws: "list_all json_ws ws \<Longrightarrow> dec_members f (ws @ s) = dec_members f s"
  by (cases f) (simp_all add: blank_skip)

lemma dec_elems_ws: "list_all json_ws ws \<Longrightarrow> dec_elems f (ws @ s) = dec_elems f s"
  by (cases f) (simp_all add: dec_ws)

text \<open>A separator is a comma, and a key separator a colon, with white space after it.\<close>

definition separators :: "string \<Rightarrow> string \<Rightarrow> bool" where
  "separators sep col \<longleftrightarrow> (\<exists>s c. sep = CHR '','' # s \<and> col = CHR '':'' # c \<and> list_all json_ws s \<and> list_all json_ws c)"

lemma skip_solid: "skip_ws (CHR '','' # s) = CHR '','' # s" "skip_ws (CHR '']'' # s) = CHR '']'' # s"
  "skip_ws (CHR ''}'' # s) = CHR ''}'' # s" "skip_ws (CHR '':'' # s) = CHR '':'' # s"
  by (simp_all add: skip_ws_def json_ws_def)

lemma dec_array:
  assumes "dec_elems f (emit_elems sep col num vs @ CHR '']'' # rest) = Some (vs, rest)" "vs \<noteq> []" "\<forall>r \<in> json_nums_elems vs. number_text num r"
  shows "dec_value (Suc f) (emit sep col num (JArr vs) @ rest) = Some (JArr vs, rest)"
proof -
  obtain v us where vs: "vs = v # us" using assms(2) by (cases vs) auto
  then obtain c t where "emit sep col num v = c # t" "\<not> json_ws c" "c \<noteq> CHR '']''"
    using emit_head [of v num sep col] assms(3) by auto
  then have "\<exists>t'. emit_elems sep col num vs @ CHR '']'' # rest = c # t'" using vs by (cases us) auto
  then obtain t' where t': "emit_elems sep col num vs @ CHR '']'' # rest = c # t'" by blast
  then show ?thesis using assms(1) \<open>\<not> json_ws c\<close> \<open>c \<noteq> CHR '']''\<close> by (simp add: solid_skip skip_ws_def json_ws_def)
qed

lemma dec_object_value:
  assumes "dec_members f (emit_members sep col num kvs @ CHR ''}'' # rest) = Some (kvs, rest)" "kvs \<noteq> []"
  shows "dec_value (Suc f) (emit sep col num (JObj kvs) @ rest) = Some (JObj kvs, rest)"
proof -
  obtain k v us where kvs: "kvs = (k, v) # us" using assms(2) by (cases kvs) auto
  then have "\<exists>t'. emit_members sep col num kvs @ CHR ''}'' # rest = CHR ''\"'' # t'" by (cases us) (auto simp: json_string_lit_def)
  then show ?thesis using assms(1) by (auto simp: solid_skip skip_ws_def json_ws_def)
qed

lemma emit_nonempty: "\<forall>r \<in> json_nums v. number_text num r \<Longrightarrow> 0 < length (emit sep col num v)"
  using emit_head [of v num sep col] by auto

lemma emit_read:
  "separators sep col \<Longrightarrow> \<forall>r \<in> json_nums v. number_text num r \<Longrightarrow> ends_value rest \<Longrightarrow> length (emit sep col num v) \<le> f \<Longrightarrow>
     dec_value f (emit sep col num v @ rest) = Some (v, rest)"
  "separators sep col \<Longrightarrow> \<forall>r \<in> json_nums_elems vs. number_text num r \<Longrightarrow> vs \<noteq> [] \<Longrightarrow> length (emit_elems sep col num vs) < f \<Longrightarrow>
     dec_elems f (emit_elems sep col num vs @ CHR '']'' # rest) = Some (vs, rest)"
  "separators sep col \<Longrightarrow> \<forall>r \<in> json_nums_members kvs. number_text num r \<Longrightarrow> kvs \<noteq> [] \<Longrightarrow> length (emit_members sep col num kvs) < f \<Longrightarrow>
     dec_members f (emit_members sep col num kvs @ CHR ''}'' # rest) = Some (kvs, rest)"
proof (induction sep col num v and sep col num vs and sep col num kvs arbitrary: f rest and f rest and f rest
    rule: emit_emit_elems_emit_members.induct)
  case (1 sep col num)
  then show ?case using dec_literal_value(1) by (cases f) auto
next
  case (2 sep col num b)
  then show ?case using dec_literal_value(2,3) by (cases f; cases b) auto
next
  case (3 sep col num r)
  then have "0 < f" by (cases f) (auto simp: number_text_def)
  then show ?case using 3 dec_number_value by (cases f) auto
next
  case (4 sep col num s)
  then show ?case using dec_string_value by (cases f) (auto simp: json_string_lit_def)
next
  case (5 sep col num vs)
  obtain g where f: "f = Suc g" using 5(5) by (cases f) auto
  show ?case
  proof (cases "vs = []")
    case True
    then show ?thesis by (simp add: f skip_ws_def json_ws_def)
  next
    case False
    have "dec_elems g (emit_elems sep col num vs @ CHR '']'' # rest) = Some (vs, rest)"
      using 5 False f by simp
    then show ?thesis unfolding f by (rule dec_array) (use False 5(3) in simp_all)
  qed
next
  case (6 sep col num kvs)
  obtain g where f: "f = Suc g" using 6(5) by (cases f) auto
  show ?case
  proof (cases "kvs = []")
    case True
    then show ?thesis by (simp add: f skip_ws_def json_ws_def)
  next
    case False
    have "dec_members g (emit_members sep col num kvs @ CHR ''}'' # rest) = Some (kvs, rest)"
      using 6 False f by simp
    then show ?thesis unfolding f by (rule dec_object_value) (rule False)
  qed
next
  case (7 sep col num)
  then show ?case by simp
next
  case (8 sep col num v)
  obtain g where f: "f = Suc g" using 8(5) by (cases f) auto
  have "dec_value g (emit sep col num v @ CHR '']'' # rest) = Some (v, CHR '']'' # rest)"
    using 8 f by (intro 8(1)) (simp_all add: ends_value_def)
  then show ?case by (simp add: f skip_solid)
next
  case (9 sep col num v w vs)
  obtain g where f: "f = Suc g" using 9(6) by (cases f) auto
  obtain s where s: "sep = CHR '','' # s" "list_all json_ws s" using 9(3) by (auto simp: separators_def)
  let ?tl = "emit_elems sep col num (w # vs) @ CHR '']'' # rest"
  have "dec_value g (emit sep col num v @ sep @ ?tl) = Some (v, sep @ ?tl)"
    using 9 f s by (intro 9(1)) (simp_all add: ends_value_def)
  moreover have "dec_elems g (s @ ?tl) = Some (w # vs, rest)"
    unfolding dec_elems_ws [OF s(2)] using 9(3-6) f s by (intro 9(2)) simp_all
  ultimately show ?case by (simp add: f s(1) skip_solid)
next
  case (10 sep col num)
  then show ?case by simp
next
  case (11 sep col num k v)
  obtain g where f: "f = Suc g" using 11(5) by (cases f) auto
  obtain c where c: "col = CHR '':'' # c" "list_all json_ws c" using 11(2) by (auto simp: separators_def)
  have "dec_value g (emit sep col num v @ CHR ''}'' # rest) = Some (v, CHR ''}'' # rest)"
    using 11 f by (intro 11(1)) (simp_all add: ends_value_def)
  then show ?case by (simp add: f c dec_key skip_solid dec_ws)
next
  case (12 sep col num k v kv kvs)
  obtain g where f: "f = Suc g" using 12(6) by (cases f) auto
  obtain s c where s: "sep = CHR '','' # s" "list_all json_ws s" "col = CHR '':'' # c" "list_all json_ws c"
    using 12(3) by (auto simp: separators_def)
  let ?tl = "emit_members sep col num (kv # kvs) @ CHR ''}'' # rest"
  have "dec_value g (emit sep col num v @ sep @ ?tl) = Some (v, sep @ ?tl)"
    using 12 f s by (intro 12(1)) (simp_all add: ends_value_def)
  moreover have "dec_members g (s @ ?tl) = Some (kv # kvs, rest)"
    unfolding dec_members_ws [OF s(2)] using 12(3-6) f s by (intro 12(2)) simp_all
  ultimately show ?case by (simp add: f s(1,3) dec_key skip_solid dec_ws [OF s(4)])
qed

lemma emit_document:
  assumes "separators sep col" "\<forall>r \<in> json_nums v. number_text num r"
  shows "decode_first (emit sep col num v) = Some v" "json_document (emit sep col num v) = Some v"
proof -
  have "dec_value (2 * length (emit sep col num v) + 2) (emit sep col num v @ []) = Some (v, [])"
    by (rule emit_read(1) [OF assms]) (simp_all add: ends_value_def)
  then show "decode_first (emit sep col num v) = Some v" "json_document (emit sep col num v) = Some v"
    unfolding decode_first_def json_document_def append_Nil2 by (simp_all add: skip_ws_def del: dec_value.simps)
qed

end
