(* ===== verification/TokenAccount.thy ===== *)
theory TokenAccount
  imports Adding JsonEncode
begin

text \<open>
  internal/lifecycle/addtoken.go: adding an account from a token, an API key or a setup token. The blob a
  setup token is wrapped in is written here byte by byte and read back by the decoder of JsonDecode.
\<close>

section \<open>The command\<close>

definition setup_token_credentials :: "string \<Rightarrow> string" where
  "setup_token_credentials token =
     ''{\"claudeAiOauth\": {\"accessToken\": '' @ json_string_lit token @ '', \"scopes\": [\"user:inference\"]}}''"

definition token_config_blob :: "string \<Rightarrow> jtext" where
  "token_config_blob email =
     TJson (JObj [(''oauthAccount'', JObj [(''emailAddress'', JStr email), (''accountUuid'', JStr []),
       (''organizationUuid'', JNull), (''organizationName'', JNull)])])"

definition token_placeholder_email :: "bool \<Rightarrow> int \<Rightarrow> string" where
  "token_placeholder_email is_api_key slot =
     (if is_api_key then ''api-key'' else ''setup-token'') @ ''-'' @ itoa slot @ ''@token.local''"

definition reject_cross_kind_collision :: "string \<Rightarrow> bool \<Rightarrow> seq_data \<Rightarrow> go_err option" where
  "reject_cross_kind_collision email is_api_key d =
     (let slot = find_account_slot (Some d) email []
      in if slot = [] then None
         else if (account_kind_for (Some d) slot = ''api_key'') = is_api_key then None
         else Some (Err KindValidation (email @ '' already exists as an account of another kind'')))"

definition reject_cross_kind_collision_early :: "string \<Rightarrow> bool \<Rightarrow> world \<Rightarrow> go_err option \<times> world" where
  "reject_cross_kind_collision_early email is_api_key w =
     (case with_roster_locked (\<lambda>d w. (Inr d, w)) w of
        (Inl e, w) \<Rightarrow> (Some e, w) | (Inr d, w) \<Rightarrow> (reject_cross_kind_collision email is_api_key d, w))"

definition add_token_refresh_in_place ::
  "string \<Rightarrow> string \<Rightarrow> string \<Rightarrow> jtext \<Rightarrow> seq_data \<Rightarrow> world \<Rightarrow> (go_err + string) \<times> world" where
  "add_token_refresh_in_place num email creds config d w =
     (if map_of (accounts d) num = None then (Inl (Err KindConfig ''Existing account metadata is inconsistent''), w)
      else (case store_backups num email [] creds config w of
              (Some e, w) \<Rightarrow> (Inl e, w) | (None, w) \<Rightarrow> commit_roster num d w))"

definition token_record :: "string \<Rightarrow> bool \<Rightarrow> world \<Rightarrow> json gomap" where
  "token_record email is_api_key w =
     [(''email'', JStr email), (''uuid'', JStr []), (''organizationUuid'', JStr []), (''organizationName'', JStr []),
      (''added'', JStr (w_stamp w))] @ (if is_api_key then [(''kind'', JStr ''api_key'')] else [])"

definition add_token_body ::
  "string \<Rightarrow> string \<Rightarrow> int option \<Rightarrow> displace_info option \<Rightarrow> bool \<Rightarrow> seq_data \<Rightarrow> world \<Rightarrow> (go_err + string) \<times> world" where
  "add_token_body token email0 slot0 confirmed assume_yes d w =
     (let is_api_key = looks_like_api_key token;
          (slot, email) =
            (if email0 \<noteq> [] then (slot0, email0)
             else (let n = (case slot0 of None \<Rightarrow> next_account_number_from (Some d) | Some n \<Rightarrow> n)
                   in (Some n, token_placeholder_email is_api_key n)))
      in (case reject_cross_kind_collision email is_api_key d of
            Some e \<Rightarrow> (Inl e, w)
          | None \<Rightarrow>
              (let creds = (if is_api_key then token else setup_token_credentials token);
                   config = token_config_blob email;
                   existing = (if slot = None then find_account_slot (Some d) email [] else [])
               in if existing \<noteq> [] then add_token_refresh_in_place existing email creds config d w
                  else (case choose_slot slot email [] confirmed assume_yes d of
                          Inl e \<Rightarrow> (Inl e, w)
                        | Inr (num, occ, from) \<Rightarrow>
                            install occ from num email [] creds config
                              (\<lambda>d w. enter_slot num (token_record email is_api_key w) d) d w))))"

text \<open>\<open>typed\<close> is the line read from the terminal or the standard input, empty when there is none.\<close>

definition add_account_from_token ::
  "string \<Rightarrow> string \<Rightarrow> string option \<Rightarrow> string option \<Rightarrow> bool \<Rightarrow> string option \<Rightarrow> (world \<Rightarrow> world) \<Rightarrow> world
   \<Rightarrow> (go_err + string option) \<times> world" where
  "add_account_from_token token0 typed email slot_arg assume_yes answer meanwhile w =
     (let token = trim_space (if token0 = ''-'' \<or> token0 = [] then typed else token0);
          is_api_key = looks_like_api_key token;
          email_val = (case email of None \<Rightarrow> [] | Some e \<Rightarrow> e)
      in if token = [] then (Inl (Err KindValidation ''Token cannot be empty''), w)
         else if email_val \<noteq> [] \<and> \<not> validate_email email_val then (Inl (Err KindValidation ''Invalid email format''), w)
         else (case setup_directories w of
                 (Some e, w) \<Rightarrow> (Inl e, w)
               | (None, w) \<Rightarrow>
                   (let slot = (case slot_arg of None \<Rightarrow> None | Some a \<Rightarrow> Some (atoi (trim_space a)))
                    in if (case slot of None \<Rightarrow> False | Some None \<Rightarrow> True | Some (Some n) \<Rightarrow> n < 1)
                       then (Inl (Err KindConfig ''Slot number must be >= 1''), w)
                       else (let slot = map_option the slot;
                                 confirm_email = (case slot of
                                   Some n \<Rightarrow> if email_val = [] then token_placeholder_email is_api_key n else email_val
                                 | None \<Rightarrow> email_val);
                                 (early, w) = (if slot \<noteq> None \<and> \<not> assume_yes
                                               then reject_cross_kind_collision_early confirm_email is_api_key w else (None, w))
                             in (case early of
                                   Some e \<Rightarrow> (Inl e, w)
                                 | None \<Rightarrow>
                                     (case confirm_displacement slot assume_yes confirm_email [] answer w of
                                        (Inl e, w) \<Rightarrow> (Inl e, w)
                                      | (Inr None, w) \<Rightarrow> (Inr None, w)
                                      | (Inr (Some confirmed), w) \<Rightarrow>
                                          (case with_roster_locked (add_token_body token email_val slot confirmed assume_yes) (meanwhile w) of
                                             (Inl e, w) \<Rightarrow> (Inl e, w) | (Inr num, w) \<Rightarrow> (Inr (Some num), w))))))))"

section \<open>The token is read back from its blob\<close>

lemma dec_plain: "json_escaped s = s \<Longrightarrow> dec_string (CHR ''\"'' # s @ CHR ''\"'' # rest) = Some (s, rest)"
  using dec_escaped [of s rest] by simp

lemma plain_keys:
  "json_escaped ''claudeAiOauth'' = ''claudeAiOauth''" "json_escaped ''accessToken'' = ''accessToken''"
  "json_escaped ''scopes'' = ''scopes''" "json_escaped ''user:inference'' = ''user:inference''"
  by code_simp+

lemmas dec_keys = plain_keys [THEN dec_plain, simplified append.simps]

text \<open>One step of the decoder on what the command writes.\<close>

lemma dec_quoted: "dec_value (Suc f) (CHR ''\"'' # s) = map_option (\<lambda>(x, r). (JStr x, r)) (dec_string (CHR ''\"'' # s))"
  by (simp add: skip_ws_def json_ws_def)

lemma dec_blank: "dec_value (Suc f) (CHR '' '' # s) = dec_value (Suc f) s"
  by (simp add: skip_ws_def json_ws_def)

lemma dec_object:
  "dec_members f (CHR ''\"'' # s) = Some (kvs, r) \<Longrightarrow> dec_value (Suc f) (CHR ''{'' # CHR ''\"'' # s) = Some (JObj kvs, r)"
  by (simp add: skip_ws_def json_ws_def)

lemma dec_last_member:
  "dec_string (CHR ''\"'' # s) = Some (k, CHR '':'' # t) \<Longrightarrow> dec_value f t = Some (v, CHR ''}'' # r) \<Longrightarrow>
   dec_members (Suc f) (CHR ''\"'' # s) = Some ([(k, v)], r)"
  by (simp add: skip_ws_def json_ws_def)

lemma dec_more_members:
  "dec_string (CHR ''\"'' # s) = Some (k, CHR '':'' # t) \<Longrightarrow> dec_value f t = Some (v, CHR '','' # u) \<Longrightarrow>
   dec_members f u = Some (kvs, r) \<Longrightarrow> dec_members (Suc f) (CHR ''\"'' # s) = Some ((k, v) # kvs, r)"
  by (simp add: skip_ws_def json_ws_def)

lemma dec_blank_members: "dec_members (Suc f) (CHR '' '' # s) = dec_members (Suc f) s"
  by (simp add: skip_ws_def json_ws_def)

lemma dec_one_element:
  "dec_value f (CHR ''\"'' # s) = Some (v, CHR '']'' # r) \<Longrightarrow>
   dec_value (Suc (Suc f)) (CHR ''['' # CHR ''\"'' # s) = Some (JArr [v], r)"
  by (simp add: skip_ws_def json_ws_def)

lemma token_blob:
  "decode_first (setup_token_credentials token) =
     Some (JObj [(''claudeAiOauth'', JObj [(''accessToken'', JStr token), (''scopes'', JArr [JStr ''user:inference''])])])"
proof -
  have "20 \<le> 2 * length (setup_token_credentials token) + 2" by (simp add: setup_token_credentials_def)
  then obtain k where k: "2 * length (setup_token_credentials token) + 2 = k + 20" by (metis le_add_diff_inverse2)
  define f where "f = k + 12"
  have k: "2 * length (setup_token_credentials token) + 2 = Suc (Suc (Suc (Suc (Suc (Suc (Suc (Suc f)))))))"
    using k by (simp add: f_def)
  have 1: "dec_value (Suc (Suc (Suc f))) ('' [\"user:inference\"]}}'') = Some (JArr [JStr ''user:inference''], ''}}'')"
    unfolding dec_blank by (rule dec_one_element) (simp only: dec_quoted dec_keys option.map prod.case)
  have 2: "dec_members (Suc (Suc (Suc (Suc f)))) ('' \"scopes\": [\"user:inference\"]}}'') = Some ([(''scopes'', JArr [JStr ''user:inference''])], ''}'')"
    unfolding dec_blank_members by (rule dec_last_member [OF dec_keys(3) 1])
  have 3: "dec_members (Suc (Suc (Suc (Suc (Suc f))))) (''\"accessToken\": '' @ json_string_lit token @ '', \"scopes\": [\"user:inference\"]}}'')
      = Some ([(''accessToken'', JStr token), (''scopes'', JArr [JStr ''user:inference''])], ''}'')"
    unfolding append.simps json_string_lit_def append_assoc
    by (rule dec_more_members [OF dec_keys(2) _ 2]) (simp only: dec_blank dec_quoted dec_escaped option.map prod.case)
  have 4: "dec_value (Suc (Suc (Suc (Suc (Suc (Suc f)))))) ('' {\"accessToken\": '' @ json_string_lit token @ '', \"scopes\": [\"user:inference\"]}}'')
      = Some (JObj [(''accessToken'', JStr token), (''scopes'', JArr [JStr ''user:inference''])], ''}'')"
    using 3 unfolding append.simps dec_blank by (rule dec_object)
  have 5: "dec_members (Suc (Suc (Suc (Suc (Suc (Suc (Suc f)))))))
       (''\"claudeAiOauth\": {\"accessToken\": '' @ json_string_lit token @ '', \"scopes\": [\"user:inference\"]}}'')
      = Some ([(''claudeAiOauth'', JObj [(''accessToken'', JStr token), (''scopes'', JArr [JStr ''user:inference''])])], [])"
    unfolding append.simps by (rule dec_last_member [OF dec_keys(1) 4 [unfolded append.simps]])
  have "dec_value (Suc (Suc (Suc (Suc (Suc (Suc (Suc (Suc f)))))))) (setup_token_credentials token) =
     Some (JObj [(''claudeAiOauth'', JObj [(''accessToken'', JStr token), (''scopes'', JArr [JStr ''user:inference''])])], [])"
    using 5 unfolding setup_token_credentials_def append.simps by (rule dec_object)
  then show ?thesis unfolding decode_first_def k by simp
qed

lemma token_blob_access: "extract_access_token (setup_token_credentials token) = token"
  by (simp add: extract_access_token_def extract_oauth_data_def token_blob obj_map_def str_field_def mget_def)

lemma trim_space_hd: "\<not> is_space c \<Longrightarrow> \<exists>t. trim_space (c # s) = c # t"
  by (cases "\<forall>x \<in> set s. is_space x") (auto simp: trim_space_def dropWhile_append intro: exI [of _ "rev (dropWhile is_space (rev s))"])

lemma token_blob_no_key: "\<not> looks_like_api_key (setup_token_credentials token)" "setup_token_credentials token \<noteq> []"
proof -
  have b: "\<exists>s. setup_token_credentials token = CHR ''{'' # s" by (simp add: setup_token_credentials_def)
  then show "setup_token_credentials token \<noteq> []" by auto
  have "\<not> is_space (CHR ''{'')" by code_simp
  then obtain t where "trim_space (setup_token_credentials token) = CHR ''{'' # t" using b trim_space_hd by metis
  then show "\<not> looks_like_api_key (setup_token_credentials token)" by (simp add: looks_like_api_key_def has_prefix_def)
qed

section \<open>A token's account and its kind\<close>

lemma token_record_fields:
  "distinct (gm_keys (token_record email key w))" "str_field (token_record email key w) ''email'' = email"
  "str_field (token_record email key w) ''organizationUuid'' = []"
  "str_field (token_record email key w) ''kind'' = (if key then ''api_key'' else [])"
  by (auto simp: token_record_def gm_keys_def str_field_def mget_def)

lemma kind_at: "account_kind_for (Some d) num = (if str_field (rec_at d num) ''kind'' = ''api_key'' then ''api_key'' else ''oauth'')"
  by (cases "map_of (accounts d) num") (simp_all add: account_kind_for_def record_for_def rec_at_def str_field_def mget_def)

text \<open>
  Property C31: a token's account is stored as what it is. After a token was added, the slot named in the
  result carries the account's e-mail address and no organization, and its recorded kind is that of the
  token: an API key is stored verbatim in a slot of the kind api_key, and any other token in a slot that
  is not, in a credential from which the program reads back exactly this token and which is no API key.
  In particular a token never replaces the credential of an account of the other kind.
\<close>

theorem token_kind_kept:
  assumes "with_roster_locked (add_token_body token email0 slot confirmed yes) w = (Inr num, w')"
    "seq_file w = SeqRoster d" "\<not> needs_org_backfill d" "token \<noteq> []"
  shows "\<exists>d' email. seq_file w' = SeqRoster d' \<and> rec_email d' num = email \<and> rec_org d' num = []
     \<and> (email0 \<noteq> [] \<longrightarrow> email = email0)
     \<and> account_kind_for (Some d') num = (if looks_like_api_key token then ''api_key'' else ''oauth'')
     \<and> looks_like_api_key (backup_of num email w') = looks_like_api_key token
     \<and> (if looks_like_api_key token then backup_of num email w' = token
         else extract_access_token (backup_of num email w') = token)"
proof (cases rule: locked_steady [OF assms(2,3), of "add_token_body token email0 slot confirmed yes"])
  case (1 e w1)
  then show ?thesis using assms(1) by simp
next
  case (2 v)
  let ?key = "looks_like_api_key token" and ?creds = "if looks_like_api_key token then token else setup_token_credentials token"
  have creds: "?creds \<noteq> []" "looks_like_api_key ?creds = ?key" "\<not> ?key \<Longrightarrow> extract_access_token ?creds = token"
    using assms(4) token_blob_no_key token_blob_access by simp_all
  define sl where "sl = (if email0 \<noteq> [] then slot else Some (case slot of None \<Rightarrow> next_account_number_from (Some d) | Some n \<Rightarrow> n))"
  define email where "email = (if email0 \<noteq> [] then email0
     else token_placeholder_email ?key (case slot of None \<Rightarrow> next_account_number_from (Some d) | Some n \<Rightarrow> n))"
  let ?old = "if sl = None then find_account_slot (Some d) email [] else []"
  have b: "(case reject_cross_kind_collision email ?key d of
            Some e \<Rightarrow> (Inl e, v)
          | None \<Rightarrow>
               if ?old \<noteq> [] then add_token_refresh_in_place ?old email ?creds (token_config_blob email) d v
                  else (case choose_slot sl email [] confirmed yes d of
                          Inl e \<Rightarrow> (Inl e, v)
                        | Inr (num, occ, from) \<Rightarrow>
                            install occ from num email [] ?creds (token_config_blob email)
                              (\<lambda>d w. enter_slot num (token_record email ?key w) d) d v)) = (Inr num, w')"
    using 2(1) assms(1) unfolding add_token_body_def Let_def sl_def email_def by (simp cong: if_cong split: if_splits)
  then have nc: "reject_cross_kind_collision email ?key d = None" by (cases "reject_cross_kind_collision email ?key d") simp_all
  show ?thesis
  proof (cases "?old = []")
    case False
    then have old: "sl = None" "?old = find_account_slot (Some d) email []" "find_account_slot (Some d) email [] \<noteq> []" by (auto split: if_splits)
    obtain w2 where k: "num = ?old" "seq_file w' = SeqRoster (stamp_roster w2 d)" "backup_of ?old email w' = ?creds"
    proof -
      have "(case store_backups ?old email [] ?creds (token_config_blob email) v of
              (Some e, w) \<Rightarrow> (Inl e, w) | (None, w) \<Rightarrow> commit_roster ?old d w) = (Inr num, w')"
        using b nc False by (auto simp: add_token_refresh_in_place_def split: if_splits)
      then show ?thesis by (rule stored_ok [OF _ creds(1), where entry = "\<lambda>_. d"]) (rule that; assumption)
    qed
    have rec: "rec_at (stamp_roster w2 d) n = rec_at d n" for n by (simp add: rec_at_def stamp_roster_def)
    have "account_kind_for (Some d) ?old = (if ?key then ''api_key'' else ''oauth'')"
      using nc old by (auto simp: reject_cross_kind_collision_def Let_def account_kind_for_def split: if_splits option.splits)
    then have "account_kind_for (Some (stamp_roster w2 d)) ?old = (if ?key then ''api_key'' else ''oauth'')"
      unfolding kind_at rec .
    moreover have "rec_email (stamp_roster w2 d) ?old = email" "rec_org (stamp_roster w2 d) ?old = []"
      using find_account_slot_holds [OF old(3)] old(2) by (simp_all add: rec_email_def rec_org_def rec)
    moreover have "email0 \<noteq> [] \<Longrightarrow> email = email0" by (simp add: email_def)
    ultimately show ?thesis using k creds(2,3) by (intro exI [of _ "stamp_roster w2 d"] exI [of _ email]) simp
  next
    case True
    then obtain n occ src where s: "install occ src n email [] ?creds (token_config_blob email)
         (\<lambda>d w. enter_slot n (token_record email ?key w) d) d v = (Inr num, w')"
      using b nc by (auto split: sum.splits)
    obtain d1 w2 where k: "num = n" "seq_file w' = SeqRoster (stamp_roster w2 (enter_slot n (token_record email ?key w2) d1))"
      "backup_of n email w' = ?creds"
      by (rule install_ok [OF s creds(1)]) (rule that; assumption)
    let ?d' = "stamp_roster w2 (enter_slot n (token_record email ?key w2) d1)"
    have "rec_at ?d' n = token_record email ?key w2" by (rule rec_entered(2)) (rule token_record_fields)
    then have "rec_email ?d' n = email" "rec_org ?d' n = []" "account_kind_for (Some ?d') n = (if ?key then ''api_key'' else ''oauth'')"
      using token_record_fields by (simp_all add: rec_email_def rec_org_def kind_at)
    moreover have "email0 \<noteq> [] \<Longrightarrow> email = email0" by (simp add: email_def)
    ultimately show ?thesis using k creds(2,3) by (intro exI [of _ ?d'] exI [of _ email]) simp
  qed
qed

lemma token_kind_kept_witness:
  "backup_of ''3'' ''api-key-3@token.local'' (snd (with_roster_locked (add_token_body ''sk-ant-api03-k'' [] None None False) sample_idle))
     = ''sk-ant-api03-k''"
proof -
  let ?r = "with_roster_locked (add_token_body ''sk-ant-api03-k'' [] None None False) sample_idle"
  have "fst ?r = Inr ''3''" by code_simp
  then have r: "?r = (Inr ''3'', snd ?r)" by (simp add: prod_eq_iff)
  have s: "seq_file sample_idle = SeqRoster sample_pair" by (simp add: sample_linux_def)
  have b: "\<not> needs_org_backfill sample_pair" by code_simp
  have k: "looks_like_api_key ''sk-ant-api03-k''" by code_simp
  have e: "(case seq_file (snd ?r) of SeqRoster d \<Rightarrow> rec_email d ''3'' | _ \<Rightarrow> []) = ''api-key-3@token.local''" by code_simp
  from token_kind_kept [OF r s b] k e show ?thesis by auto
qed

end
