(* ===== verification/Portable.thy ===== *)
theory Portable
  imports Adding JsonEncode
begin

text \<open>
  internal/transfer: the portable .cswap document, exporting the accounts of this machine to it and importing
  them from one. Documents are decoded JSON values; the text of a stored credential is kept, with the
  text of a number as a parameter (\<open>lit\<close>): the code copies it from the document. Reading the source and
  writing the destination are verdicts, messages are left out. Of several slots with one identity, which the
  code visits in the order of a Go map, the first is taken.
\<close>

section \<open>Fields of a document\<close>

definition transfer_error :: "string \<Rightarrow> go_err" where
  "transfer_error msg = Err KindTransfer msg"

text \<open>\<open>validateEmail\<close> of this package accepts one newline at the end.\<close>

definition valid_import_email :: "string \<Rightarrow> bool" where
  "valid_import_email s \<longleftrightarrow> validate_email (if s \<noteq> [] \<and> last s = CHR 0x0A then butlast s else s)"

text \<open>\<open>intValue\<close>; numbers are rationals here, so one written with a fraction of zero counts as an integer.\<close>

definition int_value :: "json \<Rightarrow> int option" where
  "int_value v =
     (case as_num v of
        None \<Rightarrow> None
      | Some r \<Rightarrow> if rat_of_int \<lfloor>r\<rfloor> = r \<and> - (2 ^ 63) \<le> \<lfloor>r\<rfloor> \<and> \<lfloor>r\<rfloor> < 2 ^ 63 then Some \<lfloor>r\<rfloor> else None)"

definition string_or_null :: "json gomap \<Rightarrow> string \<Rightarrow> bool" where
  "string_or_null m field \<longleftrightarrow> mget m field = JNull \<or> as_str (mget m field) \<noteq> None"

text \<open>One account's fields, checked before a file name is made of them: the address and the slot number.\<close>

definition validate_imported_account :: "json \<Rightarrow> go_err + string \<times> string" where
  "validate_imported_account raw =
     (case as_map raw of
        None \<Rightarrow> Inl (transfer_error ''account entry must be a JSON object'')
      | Some m \<Rightarrow>
          (case as_str (mget m ''email'') of
             None \<Rightarrow> Inl (transfer_error ''invalid or missing email in imported account'')
           | Some email \<Rightarrow>
               if \<not> valid_import_email email then Inl (transfer_error ''invalid or missing email in imported account'')
               else (case int_value (mget m ''number'') of
                       None \<Rightarrow> Inl (transfer_error ''invalid slot number in imported account'')
                     | Some n \<Rightarrow>
                         if n < 1 then Inl (transfer_error ''invalid slot number in imported account'')
                         else if \<not> list_all (string_or_null m) [''organizationUuid'', ''organizationName'', ''uuid'', ''added'', ''alias'']
                         then Inl (transfer_error ''a field must be a string'')
                         else (case as_str (mget m ''alias'') of
                                 None \<Rightarrow> Inr (email, itoa n)
                               | Some a \<Rightarrow> (case normalize_alias a of
                                              Inl _ \<Rightarrow> Inl (transfer_error ''invalid alias'') | Inr _ \<Rightarrow> Inr (email, itoa n))))))"

text \<open>
  \<open>rawCredentialsBytes\<close>: the credentials of every account in source order. It decodes the whole text, into
  structs, whose fields match a key in any letter case, the last one winning.
\<close>

definition last_folded :: "string \<Rightarrow> (string \<times> json) list \<Rightarrow> json option" where
  "last_folded key kvs = (case filter (\<lambda>(k, _). go_lower k = key) (rev kvs) of [] \<Rightarrow> None | (_, v) # _ \<Rightarrow> Some v)"

fun raw_credential :: "json \<Rightarrow> json option" where
  "raw_credential (JObj kvs) = last_folded ''credentials'' kvs"
| "raw_credential _ = None"

definition raw_credentials :: "string \<Rightarrow> json option list" where
  "raw_credentials text =
     (case json_document text of
        Some (JObj kvs) \<Rightarrow>
          (case last_folded ''accounts'' kvs of
             Some (JArr vs) \<Rightarrow> if list_all (\<lambda>v. case v of JObj _ \<Rightarrow> True | JNull \<Rightarrow> True | _ \<Rightarrow> False) vs
                               then map raw_credential vs else []
           | _ \<Rightarrow> [])
      | _ \<Rightarrow> [])"

section \<open>Validation\<close>

record import_entry =
  ie_email :: string
  ie_num :: string
  ie_org :: string
  ie_org_name :: string
  ie_uuid :: string
  ie_added :: string
  ie_api_key :: bool
  ie_alias :: string
  ie_creds :: string
  ie_config :: jtext

definition local_alias_owners :: "seq_data \<Rightarrow> (string \<times> string) gomap" where
  "local_alias_owners d =
     foldl (\<lambda>m num. if rec_alias d num = [] then m else gm_put (go_lower (rec_alias d num)) (rec_email d num, rec_org d num) m)
       [] (sorted_slot_keys d)"

text \<open>The credential to store: the raw API key, or the credential object on one line.\<close>

definition import_creds :: "(rat \<Rightarrow> string) \<Rightarrow> json option \<Rightarrow> json gomap \<Rightarrow> go_err + bool \<times> string" where
  "import_creds lit raw m =
     (let v = mget m ''credentials''; is_api_key = (mget m ''kind'' = JStr ''api_key'' \<or> as_str v \<noteq> None)
      in if is_api_key
         then (case as_str v of
                 None \<Rightarrow> Inl (transfer_error ''API-key credentials must be a raw string'')
               | Some s \<Rightarrow> if looks_like_api_key s then Inr (True, trim_space s)
                           else Inl (transfer_error ''API-key credentials must be a raw string''))
         else (case as_map v of
                 None \<Rightarrow> Inl (transfer_error ''credentials must be a JSON object'')
               | Some obj \<Rightarrow> Inr (False, case raw of Some r \<Rightarrow> emit_spaced lit r | None \<Rightarrow> emit_compact lit v)))"

text \<open>The alias an account brings: refused when the document has it twice, dropped when another account here has it.\<close>

definition import_alias ::
  "(string \<times> string) gomap \<Rightarrow> string list \<Rightarrow> string \<times> string \<Rightarrow> json gomap \<Rightarrow> go_err + string \<times> string list" where
  "import_alias owners seen key m =
     (if str_field m ''alias'' = [] then Inr ([], seen)
      else (case normalize_alias (str_field m ''alias'') of
              Inl _ \<Rightarrow> Inl (transfer_error ''invalid alias'')
            | Inr a \<Rightarrow>
                if a \<in> set seen then Inl (transfer_error ''duplicate alias in export'')
                else Inr (if (case map_of owners a of None \<Rightarrow> False | Some owner \<Rightarrow> owner \<noteq> key) then [] else a, a # seen)))"

definition normalize_entry ::
  "(rat \<Rightarrow> string) \<Rightarrow> string \<Rightarrow> (string \<times> string) gomap \<Rightarrow> json option \<Rightarrow> json \<Rightarrow> (string \<times> string) list \<Rightarrow> string list
   \<Rightarrow> go_err + import_entry \<times> string list" where
  "normalize_entry lit stamp owners raw_cred raw keys aliases =
     (case validate_imported_account raw of
        Inl e \<Rightarrow> Inl e
      | Inr (email, num) \<Rightarrow>
          (let m = the (as_map raw); org = str_field m ''organizationUuid''
           in (case as_map (mget m ''config'') of
                 None \<Rightarrow> Inl (transfer_error ''config must be a JSON object'')
               | Some _ \<Rightarrow>
                   (case import_creds lit raw_cred m of
                      Inl e \<Rightarrow> Inl e
                    | Inr (api, creds) \<Rightarrow>
                        if (email, org) \<in> set keys then Inl (transfer_error ''duplicate account in export'')
                        else (case import_alias owners aliases (email, org) m of
                                Inl e \<Rightarrow> Inl e
                              | Inr (a, aliases) \<Rightarrow>
                                  Inr (\<lparr>ie_email = email, ie_num = num, ie_org = org, ie_org_name = str_field m ''organizationName'',
                                        ie_uuid = str_field m ''uuid'',
                                        ie_added = (if str_field m ''added'' = [] then stamp else str_field m ''added''),
                                        ie_api_key = api, ie_alias = a, ie_creds = creds,
                                        ie_config = TJson (norm_json (mget m ''config''))\<rparr>, aliases))))))"

fun normalize_all ::
  "(rat \<Rightarrow> string) \<Rightarrow> string \<Rightarrow> (string \<times> string) gomap \<Rightarrow> json option list \<Rightarrow> json list \<Rightarrow> (string \<times> string) list \<Rightarrow> string list
   \<Rightarrow> go_err + import_entry list" where
  "normalize_all lit stamp owners raws [] keys aliases = Inr []"
| "normalize_all lit stamp owners raws (v # vs) keys aliases =
     (case normalize_entry lit stamp owners (case raws of [] \<Rightarrow> None | r # _ \<Rightarrow> r) v keys aliases of
        Inl e \<Rightarrow> Inl e
      | Inr (e, aliases) \<Rightarrow>
          (case normalize_all lit stamp owners (tl raws) vs ((ie_email e, ie_org e) # keys) aliases of
             Inl er \<Rightarrow> Inl er | Inr es \<Rightarrow> Inr (e # es)))"

section \<open>The write pass\<close>

definition next_import_number :: "seq_data \<Rightarrow> int" where
  "next_import_number d =
     wrap64 (foldl (\<lambda>m num. case atoi num of None \<Rightarrow> m | Some n \<Rightarrow> if n > m then n else m) 0 (gm_keys (accounts d)) + 1)"

definition build_record :: "import_entry \<Rightarrow> json gomap" where
  "build_record e =
     [(''email'', JStr (ie_email e)), (''uuid'', JStr (ie_uuid e)), (''organizationUuid'', JStr (ie_org e)),
      (''organizationName'', JStr (ie_org_name e)), (''added'', JStr (ie_added e))]
     @ (if ie_api_key e then [(''kind'', JStr ''api_key'')] else []) @ (if ie_alias e = [] then [] else [(''alias'', JStr (ie_alias e))])"

definition init_sequence_file :: "world \<Rightarrow> go_err option \<times> world" where
  "init_sequence_file w = (if seq_file w = SeqMissing then write_sequence (empty_sequence (w_stamp w)) w else (None, w))"

definition import_slot :: "import_entry \<Rightarrow> seq_data \<Rightarrow> string" where
  "import_slot e d =
     (let existing = find_account_slot (Some d) (ie_email e) (ie_org e)
      in if existing \<noteq> [] then existing
         else if map_of (accounts d) (ie_num e) = None then ie_num e else itoa (next_import_number d))"

definition enter_import :: "import_entry \<Rightarrow> string \<Rightarrow> seq_data \<Rightarrow> seq_data" where
  "enter_import e num d =
     (put_record num (build_record e) d)
       \<lparr>seq_nums := (case atoi num of
                       None \<Rightarrow> seq_nums d | Some n \<Rightarrow> if n \<in> set (seq_nums d) then seq_nums d else sort (seq_nums d @ [n]))\<rparr>"

definition write_import :: "import_entry \<Rightarrow> string \<Rightarrow> seq_data \<Rightarrow> world \<Rightarrow> (go_err + seq_data) \<times> world" where
  "write_import e num d w =
     (case and_then (write_account_credentials num (ie_email e) (ie_creds e))
            (and_then (write_account_config num (ie_email e) (ie_config e))
              (clear_dead_token [num] (\<lambda>_. (ie_email e, ie_org e)))) w of
        (Some er, w) \<Rightarrow> (Inl er, w)
      | (None, w) \<Rightarrow>
          (let d = stamp_roster w (enter_import e num d)
           in (case write_sequence d w of (Some er, w) \<Rightarrow> (Inl er, w) | (None, w) \<Rightarrow> (Inr d, w))))"

datatype import_outcome = Skipped string | Overwrote string | Imported string

fun outcome_slot :: "import_outcome \<Rightarrow> string" where
  "outcome_slot (Skipped n) = n" | "outcome_slot (Overwrote n) = n" | "outcome_slot (Imported n) = n"

definition import_one ::
  "bool \<Rightarrow> import_entry \<Rightarrow> seq_data \<Rightarrow> world \<Rightarrow> (go_err + seq_data \<times> import_outcome) \<times> world" where
  "import_one force e d w =
     (let existing = find_account_slot (Some d) (ie_email e) (ie_org e); num = import_slot e d
      in if existing \<noteq> [] \<and> \<not> force then (Inr (d, Skipped existing), w)
         else (case write_import e num d w of
                 (Inl er, w) \<Rightarrow> (Inl er, w)
               | (Inr d, w) \<Rightarrow> (Inr (d, if existing \<noteq> [] then Overwrote num else Imported num), w)))"

text \<open>\<open>active\<close>: the number the document calls active; the slot it became is returned.\<close>

fun import_entries ::
  "bool \<Rightarrow> string \<Rightarrow> import_entry list \<Rightarrow> seq_data \<Rightarrow> string \<Rightarrow> world
   \<Rightarrow> (go_err + seq_data \<times> string \<times> import_outcome list) \<times> world" where
  "import_entries force active [] d resolved w = (Inr (d, resolved, []), w)"
| "import_entries force active (e # es) d resolved w =
     (case import_one force e d w of
        (Inl er, w) \<Rightarrow> (Inl er, w)
      | (Inr (d, out), w) \<Rightarrow>
          (case import_entries force active es d
                  (if active \<noteq> [] \<and> ie_num e = active then outcome_slot out else resolved) w of
             (Inl er, w) \<Rightarrow> (Inl er, w)
           | (Inr (d, resolved, outs), w) \<Rightarrow> (Inr (d, resolved, out # outs), w)))"

definition seed_active :: "seq_data \<Rightarrow> string \<Rightarrow> world \<Rightarrow> go_err option \<times> world" where
  "seed_active d resolved w =
     (if (active_num d = None \<or> active_num d = Some 0) \<and> resolved \<noteq> []
      then write_sequence (stamp_roster w (d\<lparr>active_num := Some (atoi_value resolved)\<rparr>)) w else (None, w))"

definition import_body ::
  "(rat \<Rightarrow> string) \<Rightarrow> bool \<Rightarrow> json option list \<Rightarrow> string \<Rightarrow> json list \<Rightarrow> seq_data \<Rightarrow> world
   \<Rightarrow> (go_err + import_outcome list) \<times> world" where
  "import_body lit force raws active vs d w =
     (case normalize_all lit (w_stamp w) (local_alias_owners d) raws vs [] [] of
        Inl e \<Rightarrow> (Inl e, w)
      | Inr es \<Rightarrow>
          (case and_then setup_directories init_sequence_file w of
             (Some e, w) \<Rightarrow> (Inl e, w)
           | (None, w) \<Rightarrow>
               (case import_entries force active es d [] w of
                  (Inl e, w) \<Rightarrow> (Inl e, w)
                | (Inr (d, resolved, outs), w) \<Rightarrow>
                    (case seed_active d resolved w of (Some e, w) \<Rightarrow> (Inl e, w) | (None, w) \<Rightarrow> (Inr outs, w)))))"

text \<open>The document: version, not encrypted, at least one account.\<close>

definition read_envelope :: "string \<Rightarrow> go_err + string \<times> json list" where
  "read_envelope text =
     (case decode_first text of
        None \<Rightarrow> Inl (transfer_error ''export file is not valid JSON'')
      | Some doc \<Rightarrow>
          (case as_map doc of
             None \<Rightarrow> Inl (transfer_error ''export file must be a JSON object'')
           | Some m \<Rightarrow>
               if int_value (mget m ''version'') \<noteq> Some 1 then Inl (transfer_error ''unsupported export version'')
               else if mget m ''encrypted'' = JBool True then Inl (transfer_error ''encrypted exports are not supported'')
               else (case as_arr (mget m ''accounts'') of
                       Some (v # vs) \<Rightarrow>
                         Inr (case int_value (mget m ''activeAccountNumber'') of None \<Rightarrow> [] | Some n \<Rightarrow> itoa n, v # vs)
                     | _ \<Rightarrow> Inl (transfer_error ''export file has no accounts to import''))))"

definition import_accounts ::
  "(rat \<Rightarrow> string) \<Rightarrow> go_err + string \<Rightarrow> bool \<Rightarrow> world \<Rightarrow> (go_err + import_outcome list) \<times> world" where
  "import_accounts lit source force w =
     (case source of
        Inl e \<Rightarrow> (Inl e, w)
      | Inr text \<Rightarrow>
          (case read_envelope text of
             Inl e \<Rightarrow> (Inl e, w)
           | Inr (active, vs) \<Rightarrow> with_roster_locked (import_body lit force (raw_credentials text) active vs) w))"

section \<open>Exporting\<close>

definition config_payload :: "jtext \<Rightarrow> go_err + json gomap" where
  "config_payload t =
     (case t of TJson v \<Rightarrow> (case as_map v of None \<Rightarrow> Inl (transfer_error ''config must be a JSON object'') | Some m \<Rightarrow> Inr m)
      | TRaw _ \<Rightarrow> Inl (transfer_error ''config is not valid JSON''))"

definition creds_payload :: "string \<Rightarrow> go_err + json" where
  "creds_payload s =
     (case json_document s of
        None \<Rightarrow> Inl (transfer_error ''credentials are not valid JSON'')
      | Some v \<Rightarrow> (case as_map v of None \<Rightarrow> Inl (transfer_error ''credentials must be a JSON object'') | Some _ \<Rightarrow> Inr (norm_json v)))"

definition slim_config :: "json gomap \<Rightarrow> go_err + json" where
  "slim_config m =
     (case as_map (mget m ''oauthAccount'') of
        None \<Rightarrow> Inl (transfer_error ''config is missing oauthAccount'')
      | Some _ \<Rightarrow> Inr (JObj [(''oauthAccount'', norm_json (mget m ''oauthAccount''))]))"

text \<open>The texts of an account: those of the live login when it is this account; \<open>None\<close> skips the slot.\<close>

definition export_texts ::
  "bool \<Rightarrow> bool \<Rightarrow> string \<Rightarrow> string \<Rightarrow> world \<Rightarrow> (go_err + (string \<times> jtext) option) \<times> world" where
  "export_texts explicit live num email w =
     (if live
      then (case read_active w of
              (Inl _, w) \<Rightarrow> (Inl (Err KindCredentialRead ''failed to read live credentials''), w)
            | (Inr (creds, _), w) \<Rightarrow>
                if creds = [] then (Inl (Err KindCredentialRead ''failed to read live credentials''), w)
                else (case read_config_text w of
                        (Inl e, w) \<Rightarrow> (Inl e, w)
                      | (Inr None, w) \<Rightarrow> (Inl config_missing, w)
                      | (Inr (Some t), w) \<Rightarrow> (Inr (Some (creds, t)), w)))
      else (let (creds, w) = read_account_credentials num email w
            in (case read_account_config num email w of
                  (Inl e, w) \<Rightarrow> (Inl e, w)
                | (Inr t, w) \<Rightarrow>
                    if creds \<noteq> [] \<and> t \<noteq> empty_text then (Inr (Some (creds, t)), w)
                    else if \<not> explicit then (Inr None, w)
                    else if creds = [] then (Inl (Err KindCredentialRead ''no backup credentials found''), w)
                    else (Inl (Err KindConfig ''no backup config found''), w))))"

definition export_entry :: "bool \<Rightarrow> string \<Rightarrow> json gomap \<Rightarrow> string \<Rightarrow> jtext \<Rightarrow> go_err + json" where
  "export_entry full num rec creds t =
     (case config_payload t of
        Inl e \<Rightarrow> Inl e
      | Inr m \<Rightarrow>
          (case (if full then Inr (norm_json (JObj m)) else slim_config m) of
             Inl e \<Rightarrow> Inl e
           | Inr config \<Rightarrow>
               (case (if looks_like_api_key creds then Inr (JStr (trim_space creds)) else creds_payload creds) of
                  Inl e \<Rightarrow> Inl e
                | Inr cr \<Rightarrow>
                    Inr (JObj ([(''number'', JNum (rat_of_int (atoi_value num))), (''email'', JStr (str_field rec ''email'')),
                       (''uuid'', JStr (str_field rec ''uuid'')), (''organizationUuid'', JStr (str_field rec ''organizationUuid'')),
                       (''organizationName'', JStr (str_field rec ''organizationName'')), (''added'', JStr (str_field rec ''added'')),
                       (''credentials'', cr), (''config'', config)]
                      @ (if looks_like_api_key creds then [(''kind'', JStr ''api_key'')] else [])
                      @ (if str_field rec ''alias'' = [] then [] else [(''alias'', JStr (str_field rec ''alias''))]))))))"

fun export_slots ::
  "bool \<Rightarrow> bool \<Rightarrow> (string \<times> string) option \<Rightarrow> seq_data \<Rightarrow> string list \<Rightarrow> world \<Rightarrow> (go_err + (string \<times> json) list) \<times> world" where
  "export_slots explicit full current d [] w = (Inr [], w)"
| "export_slots explicit full current d (num # nums) w =
     (let rec = rec_at d num; email = str_field rec ''email''
      in (case export_texts explicit (current = Some (email, str_field rec ''organizationUuid'')) num email w of
            (Inl e, w) \<Rightarrow> (Inl e, w)
          | (Inr None, w) \<Rightarrow> export_slots explicit full current d nums w
          | (Inr (Some (creds, t)), w) \<Rightarrow>
              (case export_entry full num rec creds t of
                 Inl e \<Rightarrow> (Inl e, w)
               | Inr v \<Rightarrow>
                   (case export_slots explicit full current d nums w of
                      (Inl e, w) \<Rightarrow> (Inl e, w) | (Inr vs, w) \<Rightarrow> (Inr ((num, v) # vs), w)))))"

definition export_targets :: "seq_data \<Rightarrow> string \<Rightarrow> world \<Rightarrow> (go_err + string list) \<times> world" where
  "export_targets d account w =
     (if account = [] then (Inr (sorted_slot_keys d), w)
      else (case resolve_account account w of
              (Inl (Err KindAccountNotFound m), w) \<Rightarrow> (Inl (transfer_error (''account not found: '' @ account)), w)
            | (Inl e, w) \<Rightarrow> (Inl e, w)
            | (Inr (num, _, _), w) \<Rightarrow>
                if map_of (accounts d) num = None then (Inl (transfer_error (''account not found: '' @ account)), w)
                else (Inr [num], w)))"

definition envelope :: "string \<Rightarrow> string \<Rightarrow> string \<Rightarrow> int option \<Rightarrow> json list \<Rightarrow> json" where
  "envelope stamp platform version active vs =
     JObj [(''version'', JNum 1), (''exportedAt'', JStr stamp), (''exportedFrom'', JStr platform), (''swapVersion'', JStr version),
       (''encrypted'', JBool False), (''activeAccountNumber'', case active of None \<Rightarrow> JNull | Some n \<Rightarrow> JNum (rat_of_int n)),
       (''accounts'', JArr vs)]"

definition export_accounts ::
  "string \<Rightarrow> string \<Rightarrow> string \<Rightarrow> bool \<Rightarrow> world \<Rightarrow> (go_err + json) \<times> world" where
  "export_accounts platform version account full w =
     (case sequence_migrated w of
        (Inl e, w) \<Rightarrow> (Inl e, w)
      | (Inr None, w) \<Rightarrow> (Inl (transfer_error ''no accounts to export''), w)
      | (Inr (Some d), w) \<Rightarrow>
          if accounts d = [] then (Inl (transfer_error ''no accounts to export''), w)
          else (case export_targets d account w of
                  (Inl e, w) \<Rightarrow> (Inl e, w)
                | (Inr nums, w) \<Rightarrow>
                    (case export_slots (account \<noteq> []) full (current_account w) d nums w of
                       (Inl e, w) \<Rightarrow> (Inl e, w)
                     | (Inr [], w) \<Rightarrow> (Inl (transfer_error ''no exportable accounts''), w)
                     | (Inr vs, w) \<Rightarrow>
                         (let active = (case active_num d of
                                          None \<Rightarrow> None
                                        | Some a \<Rightarrow> if a \<in> set (map (\<lambda>(n, _). atoi_value n) vs) then Some a else None);
                              doc = envelope (w_stamp w) platform version active (map snd vs)
                          in (case os_call (\<lambda>w. w) w of (Some e, w) \<Rightarrow> (Inl e, w) | (None, w) \<Rightarrow> (Inr doc, w))))))"

end
