(* ===== verification/Ported.thy ===== *)
theory Ported
  imports Portable
begin

text \<open>
  What holds of the import and the export of accounts. Slot numbers are taken to stay below the largest
  64-bit integer.
\<close>

section \<open>Where an account goes\<close>

definition slots_below :: "int \<Rightarrow> seq_data \<Rightarrow> bool" where
  "slots_below b d \<longleftrightarrow> 0 \<le> b \<and> (\<forall>k \<in> dom (map_of (accounts d)). is_digits k \<and> dec_val k \<le> b)"

lemma slots_belowD: "slots_below b d \<Longrightarrow> k \<in> dom (map_of (accounts d)) \<Longrightarrow> is_digits k \<and> dec_val k \<le> b"
  unfolding slots_below_def by blast

lemma slots_below_mono: "slots_below b d \<Longrightarrow> slots_below (b + 1) d"
  unfolding slots_below_def by force

lemma slots_below_put:
  "slots_below b d \<Longrightarrow> accounts d' = gm_put t v (accounts d) \<Longrightarrow> is_digits t \<Longrightarrow> dec_val t \<le> b \<Longrightarrow> slots_below b d'"
  unfolding slots_below_def by (cases "t \<in> dom (map_of (accounts d))") (simp; blast)+

lemma next_import_number_fresh:
  assumes "slots_below b d" "b < 2 ^ 63 - 1"
  shows "0 \<le> next_import_number d" "next_import_number d \<le> b + 1" "itoa (next_import_number d) \<notin> dom (map_of (accounts d))"
    "next_import_number d < 2 ^ 63"
proof -
  let ?ks = "gm_keys (accounts d)"
  have k: "atoi k = Some (dec_val k) \<and> parse_slot k = Some (dec_val k)" if "k \<in> set ?ks" for k
  proof -
    have "is_digits k" "dec_val k \<le> b" using that assms(1) by (auto simp: slots_below_def set_gm_keys)
    moreover have "0 \<le> dec_val k" using \<open>is_digits k\<close> by (simp add: is_digits_def dec_val_nonneg)
    ultimately show ?thesis using assms(2) by (simp add: atoi_digits parse_slot_wrap wrap64_id)
  qed
  have "foldl (\<lambda>m num. case atoi num of None \<Rightarrow> m | Some n \<Rightarrow> if n > m then n else m) a ks
      = foldl (\<lambda>m num. case parse_slot num of None \<Rightarrow> m | Some n \<Rightarrow> if n > m then n else m) a ks"
    if "set ks \<subseteq> set ?ks" for a ks
    using that k by (induction ks arbitrary: a) auto
  then have n: "next_import_number d = wrap64 (max_slot ?ks + 1)" by (simp add: next_import_number_def max_slot_def)
  have m0: "0 \<le> max_slot ?ks" by (rule max_slot_nonneg)
  have m: "max_slot ?ks \<le> b"
  proof (cases "max_slot ?ks = 0")
    case True
    then show ?thesis using assms(1) by (simp add: slots_below_def)
  next
    case False
    then obtain x where x: "x \<in> set ?ks" "parse_slot x = Some (max_slot ?ks)" using max_slot_mem by blast
    then have "dec_val x = max_slot ?ks" using k by simp
    then show ?thesis using slots_belowD [OF assms(1), of x] x(1) by (simp add: set_gm_keys)
  qed
  then have "next_import_number d = max_slot ?ks + 1" using n m m0 assms(2) by (simp add: wrap64_id)
  moreover have "itoa (max_slot ?ks + 1) \<notin> set ?ks" using m assms(2) by (intro fresh_from_max) simp
  ultimately show "0 \<le> next_import_number d" "next_import_number d \<le> b + 1" "itoa (next_import_number d) \<notin> dom (map_of (accounts d))"
    "next_import_number d < 2 ^ 63"
    using m m0 assms(2) by (simp_all add: set_gm_keys)
qed

definition entry_below :: "int \<Rightarrow> import_entry \<Rightarrow> bool" where
  "entry_below b e \<longleftrightarrow> is_digits (ie_num e) \<and> dec_val (ie_num e) \<le> b"

lemma import_slot_facts:
  assumes "slots_below b d" "entry_below b e" "b < 2 ^ 63 - 1"
  shows "is_digits (import_slot e d)" "dec_val (import_slot e d) \<le> b + 1"
    "find_account_slot (Some d) (ie_email e) (ie_org e) \<noteq> [] \<Longrightarrow>
       import_slot e d = find_account_slot (Some d) (ie_email e) (ie_org e)"
    "find_account_slot (Some d) (ie_email e) (ie_org e) = [] \<Longrightarrow> import_slot e d \<notin> dom (map_of (accounts d))"
proof -
  note n = next_import_number_fresh [OF assms(1,3)]
  have f: "is_digits k \<and> dec_val k \<le> b" if "k \<in> dom (map_of (accounts d))" for k
    using that assms(1) by (simp add: slots_below_def)
  have "is_digits (itoa (next_import_number d)) \<and> dec_val (itoa (next_import_number d)) \<le> b + 1"
    using n by (simp add: is_digits_itoa dec_val_itoa)
  then show "is_digits (import_slot e d)" "dec_val (import_slot e d) \<le> b + 1"
    using f [OF find_account_slot_mem, of "ie_email e" "ie_org e"] assms(2) by (auto simp: import_slot_def Let_def entry_below_def)
  show "find_account_slot (Some d) (ie_email e) (ie_org e) \<noteq> [] \<Longrightarrow>
       import_slot e d = find_account_slot (Some d) (ie_email e) (ie_org e)" by (simp add: import_slot_def)
  show "find_account_slot (Some d) (ie_email e) (ie_org e) = [] \<Longrightarrow> import_slot e d \<notin> dom (map_of (accounts d))"
    using n(3) by (auto simp: import_slot_def)
qed

section \<open>One account\<close>

lemma touches_write_import [frames]:
  "touches R w w1 \<Longrightarrow> slot_files num w \<subseteq> R \<Longrightarrow> {RSeq, RUsage} \<subseteq> R \<Longrightarrow> touches R w (snd (write_import e num d w1))"
  unfolding write_import_def Let_def using slot_files_mem [of num "ie_email e" w]
  by (intro frames; auto simp: slot_resources_def)

lemma enter_import_accounts: "accounts (stamp_roster w (enter_import e num d)) = gm_put num (JObj (build_record e)) (accounts d)"
  by (simp add: stamp_roster_def enter_import_def put_record_def)

lemma build_record_fields:
  "distinct (gm_keys (build_record e))" "str_field (build_record e) ''email'' = ie_email e"
  "str_field (build_record e) ''organizationUuid'' = ie_org e"
  by (auto simp: build_record_def gm_keys_def str_field_def mget_def)

lemma write_import_facts:
  assumes "write_import e num d w = (r, w')" "keeps_records S d w" "num \<in> S"
  shows "keeps_records S d w'" "r = Inr d' \<Longrightarrow> accounts d' = gm_put num (JObj (build_record e)) (accounts d) \<and> seq_file w' = SeqRoster d'"
    "r = Inr d' \<Longrightarrow> ie_creds e \<noteq> [] \<Longrightarrow> backup_of num (ie_email e) w' = ie_creds e \<and> config_of num (ie_email e) w' = ie_config e"
proof -
  obtain q w1 where q: "and_then (write_account_credentials num (ie_email e) (ie_creds e))
            (and_then (write_account_config num (ie_email e) (ie_config e))
              (clear_dead_token [num] (\<lambda>_. (ie_email e, ie_org e)))) w = (q, w1)" by fastforce
  have t1: "touches (slot_files num w \<union> {RUsage}) w w1"
    by (rule touches_result [OF q]) (use slot_files_mem [of num "ie_email e" w] in \<open>(intro frames; auto simp: slot_resources_def)\<close>)
  have k1: "keeps_records S d w1"
    by (rule keeps_records_same [OF assms(2) t1])
      (auto simp: slot_files_def slot_resources_def backup_resources_def profile_resources_def)
  let ?d = "stamp_roster w1 (enter_import e num d)"
  have "keeps_records S d w' \<and> (r = Inr d' \<longrightarrow> accounts d' = gm_put num (JObj (build_record e)) (accounts d) \<and> seq_file w' = SeqRoster d'
     \<and> (ie_creds e \<noteq> [] \<longrightarrow> backup_of num (ie_email e) w' = ie_creds e \<and> config_of num (ie_email e) w' = ie_config e))"
  proof (cases q)
    case (Some er)
    then show ?thesis using assms(1) q k1 by (auto simp: write_import_def)
  next
    case None
    obtain x w2 where x: "write_sequence ?d w1 = (x, w2)" by fastforce
    then have r: "w' = w2" "r = (case x of None \<Rightarrow> Inr ?d | Some er \<Rightarrow> Inl er)"
      using assms(1) q None by (cases x; simp add: write_import_def Let_def)+
    have "keeps_records S d w2"
      by (rule write_keeps [OF x k1]) (use assms(3) in \<open>auto simp: enter_import_accounts\<close>)
    moreover have "accounts d' = gm_put num (JObj (build_record e)) (accounts d) \<and> seq_file w' = SeqRoster d'
     \<and> (ie_creds e \<noteq> [] \<longrightarrow> backup_of num (ie_email e) w' = ie_creds e \<and> config_of num (ie_email e) w' = ie_config e)" if "r = Inr d'"
    proof -
      have ok: "x = None" "d' = ?d" using r(2) that by (cases x; simp)+
      obtain w3 w4 where s: "write_account_credentials num (ie_email e) (ie_creds e) w = (None, w3)"
        "write_account_config num (ie_email e) (ie_config e) w3 = (None, w4)"
        "clear_dead_token [num] (\<lambda>_. (ie_email e, ie_org e)) w4 = (None, w1)"
        using q None by (auto simp: and_then_None)
      have t4: "touches {RUsage} w4 w1" by (rule touches_result [OF s(3)]) (intro frames; simp)
      have t5: "touches {RSeq} w1 w2" by (rule touches_result [OF x]) (intro frames; simp)
      have t3: "touches {RConfigFile (config_backup_path num (ie_email e))} w3 w4" by (rule touches_result [OF s(2)]) (intro frames; simp)
      have "config_of num (ie_email e) w2 = ie_config e"
        using write_account_config_ok [OF s(2)] config_of_touches [OF t4] config_of_touches [OF t5] by simp
      moreover have "backup_of num (ie_email e) w2 = ie_creds e" if "ie_creds e \<noteq> []"
        using write_account_credentials_ok [OF s(1) that] backup_of_touches [OF t3] backup_of_touches [OF t4] backup_of_touches [OF t5] by simp
      ultimately show ?thesis using write_sequence_ok x ok r(1) by (auto simp: enter_import_accounts)
    qed
    ultimately show ?thesis using r(1) by blast
  qed
  then show "keeps_records S d w'" "r = Inr d' \<Longrightarrow> accounts d' = gm_put num (JObj (build_record e)) (accounts d) \<and> seq_file w' = SeqRoster d'"
    "r = Inr d' \<Longrightarrow> ie_creds e \<noteq> [] \<Longrightarrow> backup_of num (ie_email e) w' = ie_creds e \<and> config_of num (ie_email e) w' = ie_config e"
    by auto
qed

section \<open>All accounts\<close>

text \<open>Slot \<open>n\<close>, with the record \<open>raw\<close>, in the roster in the file.\<close>

definition filed :: "string \<Rightarrow> json \<Rightarrow> world \<Rightarrow> bool" where
  "filed n raw w \<longleftrightarrow> (\<exists>d'. seq_file w = SeqRoster d' \<and> map_of (accounts d') n = Some raw)"

lemma filed_keeps: "map_of (accounts d) n = Some raw \<Longrightarrow> filed n raw w \<longleftrightarrow> keeps_records (- {n}) d w"
  by (auto simp: filed_def keeps_records_def)

text \<open>An entry that leaves slot \<open>n\<close> alone: it may not overwrite, or \<open>n\<close> holds another identity.\<close>

definition spares :: "bool \<Rightarrow> json \<Rightarrow> import_entry \<Rightarrow> bool" where
  "spares force raw e \<longleftrightarrow>
     \<not> force \<or> (str_field (decode_record raw) ''email'', str_field (decode_record raw) ''organizationUuid'') \<noteq> (ie_email e, ie_org e)"

lemma write_import_accounts:
  "write_import e num d w = (Inr d', w') \<Longrightarrow> accounts d' = gm_put num (JObj (build_record e)) (accounts d)"
  by (auto simp: write_import_def Let_def enter_import_accounts split: prod.splits option.splits)

lemma import_one_cases:
  assumes "import_one force e d w = (r, w')"
  obtains (skipped) "find_account_slot (Some d) (ie_email e) (ie_org e) \<noteq> []" "\<not> force"
      "r = Inr (d, Skipped (find_account_slot (Some d) (ie_email e) (ie_org e)))" "w' = w"
  | (failed) er where "write_import e (import_slot e d) d w = (Inl er, w')" "r = Inl er"
      "find_account_slot (Some d) (ie_email e) (ie_org e) \<noteq> [] \<longrightarrow> force"
  | (written) d' out where "write_import e (import_slot e d) d w = (Inr d', w')" "r = Inr (d', out)" "outcome_slot out = import_slot e d"
      "find_account_slot (Some d) (ie_email e) (ie_org e) \<noteq> [] \<longrightarrow> force"
proof (cases "find_account_slot (Some d) (ie_email e) (ie_org e) \<noteq> [] \<and> \<not> force")
  case True
  then show ?thesis using assms skipped by (simp add: import_one_def)
next
  case False
  obtain q w1 where q: "write_import e (import_slot e d) d w = (q, w1)" by fastforce
  show ?thesis
  proof (cases q)
    case (Inl er)
    then have "r = Inl er" "w' = w1" using assms False q by (auto simp: import_one_def Let_def)
    then show ?thesis by (intro failed [of er]) (use q Inl False in auto)
  next
    case (Inr d')
    then have "r = Inr (d', if find_account_slot (Some d) (ie_email e) (ie_org e) \<noteq> [] then Overwrote (import_slot e d) else Imported (import_slot e d))"
      "w' = w1" using assms False q by (auto simp: import_one_def Let_def)
    then show ?thesis by (intro written [of d']) (use q Inr False in auto)
  qed
qed

lemma touched_apart:
  assumes "touches (slot_files t w \<union> {RSeq, RUsage}) w w'" "is_digits n" "is_digits t" "n \<noteq> t"
  shows "backup_of n em w' = backup_of n em w \<and> config_of n em w' = config_of n em w"
  using backup_of_touches [OF assms(1)] config_of_touches [OF assms(1)] slot_files_apart [OF assms(2-4)] by auto

lemma import_one_spares:
  assumes "import_one force e d w = (r, w')" "slots_below b d" "entry_below b e" "b < 2 ^ 63 - 1"
    "map_of (accounts d) n = Some raw" "filed n raw w" "spares force raw e"
  shows "filed n raw w' \<and> (\<forall>em. backup_of n em w' = backup_of n em w \<and> config_of n em w' = config_of n em w)
       \<and> (\<forall>d' out. r = Inr (d', out) \<longrightarrow> map_of (accounts d') n = Some raw)"
  using assms(1)
proof (cases rule: import_one_cases)
  case skipped
  then show ?thesis using assms(5,6) by simp
next
  note t = import_slot_facts [OF assms(2-4)]
  have n: "is_digits n" using assms(2,5) by (auto simp: slots_below_def)
  have apart: "n \<noteq> import_slot e d" if "find_account_slot (Some d) (ie_email e) (ie_org e) \<noteq> [] \<longrightarrow> force"
  proof
    assume eq: "n = import_slot e d"
    show False
    proof (cases "find_account_slot (Some d) (ie_email e) (ie_org e) = []")
      case True
      then show False using t(4) eq assms(5) by auto
    next
      case False
      then have "rec_email d n = ie_email e \<and> rec_org d n = ie_org e" using find_account_slot_holds t(3) eq by simp
      then show False using that False assms(5,7) by (auto simp: spares_def rec_email_def rec_org_def rec_at_def)
    qed
  qed
  have tt: "touches (slot_files (import_slot e d) w \<union> {RSeq, RUsage}) w w'"
    if "write_import e (import_slot e d) d w = (q, w')" for q
    by (rule touches_result [OF that]) (intro frames; auto)
  have k: "keeps_records (- {n}) d w" using assms(5,6) filed_keeps by simp
  {
    case (failed er)
    then show ?thesis
      using write_import_facts(1) [OF failed(1) k] apart touched_apart [OF tt n t(1)] filed_keeps [OF assms(5)] by auto
  next
    case (written d' out)
    then show ?thesis
      using write_import_facts(1) [OF written(1) k] write_import_facts(2) [OF written(1) k _ refl] apart touched_apart [OF tt n t(1)]
        filed_keeps [OF assms(5)] assms(5) by auto
  }
qed

lemma import_one_done:
  assumes "import_one force e d w = (Inr (d', out), w')" "slots_below b d" "entry_below b e" "b < 2 ^ 63 - 1" "seq_file w = SeqRoster d"
  shows "slots_below (b + 1) d'" "seq_file w' = SeqRoster d'"
    "rec_email d' (outcome_slot out) = ie_email e" "rec_org d' (outcome_slot out) = ie_org e" "outcome_slot out \<in> dom (map_of (accounts d'))"
    "\<forall>s. out \<noteq> Skipped s \<Longrightarrow> ie_creds e \<noteq> [] \<Longrightarrow>
       backup_of (outcome_slot out) (ie_email e) w' = ie_creds e \<and> config_of (outcome_slot out) (ie_email e) w' = ie_config e"
proof -
  note t = import_slot_facts [OF assms(2-4)]
  have "slots_below (b + 1) d' \<and> seq_file w' = SeqRoster d' \<and> rec_email d' (outcome_slot out) = ie_email e
      \<and> rec_org d' (outcome_slot out) = ie_org e \<and> outcome_slot out \<in> dom (map_of (accounts d'))
      \<and> ((\<forall>s. out \<noteq> Skipped s) \<longrightarrow> ie_creds e \<noteq> [] \<longrightarrow>
       backup_of (outcome_slot out) (ie_email e) w' = ie_creds e \<and> config_of (outcome_slot out) (ie_email e) w' = ie_config e)"
    using assms(1)
  proof (cases rule: import_one_cases)
    case skipped
    then show ?thesis
      using slots_below_mono [OF assms(2)] assms(5) find_account_slot_holds find_account_slot_mem by auto
  next
    case (failed er)
    then show ?thesis by simp
  next
    case (written d1 out1)
    have k: "keeps_records UNIV d w" using assms(5) by (auto simp: keeps_records_def)
    have a: "accounts d' = gm_put (import_slot e d) (JObj (build_record e)) (accounts d)" "seq_file w' = SeqRoster d'"
      using write_import_facts(2) [OF written(1) k _ refl] written(2) by auto
    have "rec_at d' (import_slot e d) = build_record e" by (rule rec_at_account [OF build_record_fields(1) a(1)])
    moreover have "slots_below (b + 1) d'" by (rule slots_below_put [OF slots_below_mono [OF assms(2)] a(1) t(1,2)])
    ultimately show ?thesis
      using a write_import_facts(3) [OF written(1) k _ refl] written(2,3) build_record_fields
      by (auto simp: rec_email_def rec_org_def)
  qed
  then show "slots_below (b + 1) d'" "seq_file w' = SeqRoster d'"
    "rec_email d' (outcome_slot out) = ie_email e" "rec_org d' (outcome_slot out) = ie_org e" "outcome_slot out \<in> dom (map_of (accounts d'))"
    "\<forall>s. out \<noteq> Skipped s \<Longrightarrow> ie_creds e \<noteq> [] \<Longrightarrow>
       backup_of (outcome_slot out) (ie_email e) w' = ie_creds e \<and> config_of (outcome_slot out) (ie_email e) w' = ie_config e"
    by auto
qed

lemma entry_below_mono: "entry_below b e \<Longrightarrow> entry_below (b + 1) e"
  by (simp add: entry_below_def)

lemma import_entries_spares:
  "import_entries force act es d res w = (r, w') \<Longrightarrow> slots_below b d \<Longrightarrow> \<forall>e \<in> set es. entry_below b e \<Longrightarrow> b + int (length es) < 2 ^ 63 - 1 \<Longrightarrow>
   map_of (accounts d) n = Some raw \<Longrightarrow> filed n raw w \<Longrightarrow> \<forall>e \<in> set es. spares force raw e \<Longrightarrow>
   filed n raw w' \<and> (\<forall>em. backup_of n em w' = backup_of n em w \<and> config_of n em w' = config_of n em w)
     \<and> (\<forall>d' res' outs. r = Inr (d', res', outs) \<longrightarrow> map_of (accounts d') n = Some raw)"
proof (induction es arbitrary: d res w r w' b)
  case (Cons e es)
  obtain q w1 where q: "import_one force e d w = (q, w1)" by fastforce
  have e: "entry_below b e" "b < 2 ^ 63 - 1" "spares force raw e" using Cons.prems(3,4,7) by auto
  note one = import_one_spares [OF q Cons.prems(2) e(1,2) Cons.prems(5,6) e(3)]
  show ?case
  proof (cases q)
    case (Inl er)
    then show ?thesis using Cons.prems(1) q one by auto
  next
    case (Inr x)
    obtain d1 out where x: "x = (d1, out)" by (cases x)
    have sb: "slots_below (b + 1) d1"
      using q unfolding Inr x
    proof (cases rule: import_one_cases)
      case skipped
      then show ?thesis using slots_below_mono Cons.prems(2) by simp
    next
      case (failed er)
      then show ?thesis by simp
    next
      case (written d' out')
      note t = import_slot_facts [OF Cons.prems(2) e(1,2)]
      have "accounts d1 = gm_put (import_slot e d) (JObj (build_record e)) (accounts d)"
        using write_import_accounts [OF written(1)] written(2) by simp
      then show ?thesis by (rule slots_below_put [OF slots_below_mono [OF Cons.prems(2)] _ t(1,2)])
    qed
    let ?res = "if act \<noteq> [] \<and> ie_num e = act then outcome_slot out else res"
    obtain q2 w2 where q2: "import_entries force act es d1 ?res w1 = (q2, w2)" by fastforce
    have "filed n raw w2 \<and> (\<forall>em. backup_of n em w2 = backup_of n em w1 \<and> config_of n em w2 = config_of n em w1)
       \<and> (\<forall>d' res' outs. q2 = Inr (d', res', outs) \<longrightarrow> map_of (accounts d') n = Some raw)"
    proof (rule Cons.IH [OF q2 sb])
      show "\<forall>e \<in> set es. entry_below (b + 1) e" using Cons.prems(3) entry_below_mono by simp
      show "b + 1 + int (length es) < 2 ^ 63 - 1" using Cons.prems(4) by simp
      show "map_of (accounts d1) n = Some raw" "filed n raw w1" using one Inr x by auto
      show "\<forall>e \<in> set es. spares force raw e" using Cons.prems(7) by simp
    qed
    moreover have "w' = w2" "\<And>d' res' outs. r = Inr (d', res', outs) \<Longrightarrow> \<exists>outs'. q2 = Inr (d', res', outs')"
      using Cons.prems(1) q Inr x q2 by (cases q2; auto)+
    ultimately show ?thesis using one by metis
  qed
qed auto

section \<open>The document\<close>

text \<open>The identity an account of the document has, and its fields.\<close>

definition doc_field :: "json \<Rightarrow> string \<Rightarrow> json" where
  "doc_field v k = (case as_map v of None \<Rightarrow> JNull | Some m \<Rightarrow> mget m k)"

definition doc_identity :: "json \<Rightarrow> string \<times> string" where
  "doc_identity v = (or_empty (as_str (doc_field v ''email'')), or_empty (as_str (doc_field v ''organizationUuid'')))"

definition entry_of :: "(rat \<Rightarrow> string) \<Rightarrow> json \<Rightarrow> import_entry \<Rightarrow> bool" where
  "entry_of lit v e \<longleftrightarrow>
     doc_identity v = (ie_email e, ie_org e) \<and> (\<exists>e. validate_imported_account v = Inr e)
     \<and> (\<exists>n. int_value (doc_field v ''number'') = Some n \<and> 1 \<le> n \<and> ie_num e = itoa n)
     \<and> (\<exists>raw m. as_map v = Some m \<and> import_creds lit raw m = Inr (ie_api_key e, ie_creds e))
     \<and> ie_config e = TJson (norm_json (doc_field v ''config''))"

lemma normalize_entry_facts:
  assumes "normalize_entry lit stamp owners raw v keys aliases = Inr (e, aliases')"
  shows "entry_of lit v e" "(ie_email e, ie_org e) \<notin> set keys"
proof -
  obtain email num where v: "validate_imported_account v = Inr (email, num)"
    using assms by (cases "validate_imported_account v") (auto simp: normalize_entry_def)
  then obtain m n where m: "as_map v = Some m" "as_str (mget m ''email'') = Some email" "int_value (mget m ''number'') = Some n"
    "1 \<le> n" "num = itoa n"
    by (auto simp: validate_imported_account_def split: option.splits if_splits sum.splits)
  have "ie_email e = email" "ie_num e = num" "ie_org e = str_field m ''organizationUuid''"
    "import_creds lit raw m = Inr (ie_api_key e, ie_creds e)" "ie_config e = TJson (norm_json (mget m ''config''))"
    "(ie_email e, ie_org e) \<notin> set keys"
    using assms v m(1) by (auto simp: normalize_entry_def Let_def split: option.splits sum.splits if_splits)
  then show "entry_of lit v e" "(ie_email e, ie_org e) \<notin> set keys"
    using v m by (auto simp: entry_of_def doc_field_def doc_identity_def str_field_def or_empty_def split: option.splits)
qed

lemma normalize_all_facts:
  "normalize_all lit stamp owners raws vs keys aliases = Inr es \<Longrightarrow>
   list_all2 (entry_of lit) vs es \<and> distinct (map (\<lambda>e. (ie_email e, ie_org e)) es)
   \<and> set keys \<inter> (\<lambda>e. (ie_email e, ie_org e)) ` set es = {}"
proof (induction vs arbitrary: raws keys aliases es)
  case (Cons v vs)
  let ?raw = "case raws of [] \<Rightarrow> None | r # _ \<Rightarrow> r"
  obtain e al where e: "normalize_entry lit stamp owners ?raw v keys aliases = Inr (e, al)"
    using Cons.prems by (cases "normalize_entry lit stamp owners ?raw v keys aliases") auto
  then obtain es' where es: "normalize_all lit stamp owners (tl raws) vs ((ie_email e, ie_org e) # keys) al = Inr es'" "es = e # es'"
    using Cons.prems by (auto split: sum.splits)
  from Cons.IH [OF es(1)] normalize_entry_facts [OF e] es(2) show ?case by auto
qed simp

text \<open>The checks on one account.\<close>

definition account_ok :: "(rat \<Rightarrow> string) \<Rightarrow> json \<Rightarrow> bool" where
  "account_ok lit v \<longleftrightarrow>
     (case validate_imported_account v of
        Inl _ \<Rightarrow> False
      | Inr _ \<Rightarrow> as_map (doc_field v ''config'') \<noteq> None
               \<and> (case import_creds lit None (the (as_map v)) of Inl _ \<Rightarrow> False | Inr _ \<Rightarrow> True))"

lemma normalize_entry_ok:
  assumes "normalize_entry lit stamp owners raw v keys aliases = Inr x"
  shows "account_ok lit v"
proof -
  obtain y where y: "validate_imported_account v = Inr y"
    using assms by (cases "validate_imported_account v") (auto simp: normalize_entry_def)
  then obtain m where m: "as_map v = Some m" by (auto simp: validate_imported_account_def split: option.splits)
  have "\<exists>z. import_creds lit raw m = Inr z" "as_map (mget m ''config'') \<noteq> None"
    using assms y m by (auto simp: normalize_entry_def Let_def split: prod.splits option.splits sum.splits)
  moreover from this(1) have "\<exists>z. import_creds lit None m = Inr z"
    by (auto simp: import_creds_def Let_def split: option.splits if_splits)
  ultimately show ?thesis using y m by (auto simp: account_ok_def doc_field_def)
qed

lemma normalize_all_ok: "normalize_all lit stamp owners raws vs keys aliases = Inr es \<Longrightarrow> list_all (account_ok lit) vs"
  by (induction vs arbitrary: raws keys aliases es) (auto intro: normalize_entry_ok split: sum.splits)

text \<open>The credential of the i-th account in source order, where the document has it.\<close>

definition raw_at :: "json option list \<Rightarrow> nat \<Rightarrow> json option" where
  "raw_at raws i = (if i < length raws then raws ! i else None)"

lemma normalize_all_creds:
  "normalize_all lit stamp owners raws vs keys aliases = Inr es \<Longrightarrow> i < length vs \<Longrightarrow>
   \<exists>m. as_map (vs ! i) = Some m \<and> import_creds lit (raw_at raws i) m = Inr (ie_api_key (es ! i), ie_creds (es ! i))"
proof (induction vs arbitrary: raws keys aliases es i)
  case (Cons v vs)
  let ?raw = "case raws of [] \<Rightarrow> None | r # _ \<Rightarrow> r"
  obtain e al where e: "normalize_entry lit stamp owners ?raw v keys aliases = Inr (e, al)"
    using Cons.prems by (cases "normalize_entry lit stamp owners ?raw v keys aliases") auto
  then obtain es' where es: "normalize_all lit stamp owners (tl raws) vs ((ie_email e, ie_org e) # keys) al = Inr es'" "es = e # es'"
    using Cons.prems by (auto split: sum.splits)
  show ?case
  proof (cases i)
    case 0
    have "raw_at raws 0 = ?raw" by (cases raws) (simp_all add: raw_at_def)
    moreover obtain x where "validate_imported_account v = Inr x"
      using e by (cases "validate_imported_account v") (auto simp: normalize_entry_def)
    ultimately show ?thesis
      using e es(2) 0
      by (auto simp: normalize_entry_def Let_def validate_imported_account_def split: prod.splits option.splits sum.splits if_splits)
  next
    case (Suc j)
    have "raw_at (tl raws) j = raw_at raws (Suc j)" by (cases raws) (simp_all add: raw_at_def)
    then show ?thesis using Cons.IH [OF es(1), of j] Cons.prems(2) Suc es(2) by simp
  qed
qed simp

lemma import_creds_nonempty:
  assumes "import_creds lit raw m = Inr (api, c)" "\<forall>r. lit r \<noteq> []"
  shows "c \<noteq> []"
proof -
  have e: "emit sep col lit v \<noteq> []" for sep col v
    using assms(2) by (cases v) (simp_all add: json_string_lit_def)
  show ?thesis
    using assms(1) api_key_nonempty e
    by (auto simp: import_creds_def Let_def emit_spaced_def emit_compact_def split: option.splits if_splits)
qed

lemma list_all2_ex: "list_all2 P vs es \<Longrightarrow> e \<in> set es \<Longrightarrow> \<exists>v \<in> set vs. P v e"
  by (induction rule: list_all2_induct) auto

text \<open>The locked part of an import, on a settled roster.\<close>

lemma import_steady:
  assumes "import_accounts lit (Inr text) force w = (r, w')" "read_envelope text = Inr (act, vs)"
    "seq_file w = SeqRoster d" "\<not> needs_org_backfill d"
  obtains (refused) e where "r = Inl e" "touches {} w w'"
  | (invalid) e where "r = Inl e" "touches {} w w'"
      "normalize_all lit (w_stamp w) (local_alias_owners d) (raw_credentials text) vs [] [] = Inl e"
  | (run) es w1 q w2 where "normalize_all lit (w_stamp w) (local_alias_owners d) (raw_credentials text) vs [] [] = Inr es"
      "touches {} w w1" "import_entries force act es d [] w1 = (q, w2)"
      "case q of Inl e \<Rightarrow> r = Inl e \<and> w' = w2
       | Inr (d', res, outs) \<Rightarrow> (\<exists>x. seed_active d' res w2 = (x, w') \<and> r = (case x of None \<Rightarrow> Inr outs | Some e \<Rightarrow> Inl e))"
proof -
  have l: "with_roster_locked (import_body lit force (raw_credentials text) act vs) w = (r, w')"
    using assms(1,2) by (simp add: import_accounts_def)
  show ?thesis
  proof (cases rule: locked_steady [OF assms(3,4), of "import_body lit force (raw_credentials text) act vs"])
    case (1 e w1)
    then show ?thesis using l refused by simp
  next
    case (2 w0)
    have b: "import_body lit force (raw_credentials text) act vs d w0 = (r, w')" using 2(1) l by simp
    have st: "w_stamp w0 = w_stamp w" by (rule touches_facts(3) [OF 2(2)])
    show ?thesis
    proof (cases "normalize_all lit (w_stamp w) (local_alias_owners d) (raw_credentials text) vs [] []")
      case (Inl e)
      then show ?thesis using b st 2(2) by (intro invalid [of e]) (auto simp: import_body_def)
    next
      case (Inr es)
      obtain x w1 where x: "and_then setup_directories init_sequence_file w0 = (x, w1)" by fastforce
      have s0: "seq_file w0 = SeqRoster d" using touches_same [OF 2(2), of RSeq] assms(3) by simp
      have t: "touches {} w w1"
      proof -
        obtain y w9 where y: "setup_directories w0 = (y, w9)" by fastforce
        have t9: "touches {} w w9" by (rule touches_result [OF y], unfold setup_directories_def, intro frames 2(2))
        then have "seq_file w9 = SeqRoster d" using touches_same [OF t9, of RSeq] assms(3) by simp
        then have "w1 = w9" using x y by (cases y) (auto simp: and_then_def init_sequence_file_def)
        with t9 show ?thesis by simp
      qed
      show ?thesis
      proof (cases x)
        case (Some e)
        then show ?thesis using b st Inr x t by (intro refused [of e]) (auto simp: import_body_def)
      next
        case None
        obtain q w2 where q: "import_entries force act es d [] w1 = (q, w2)" by fastforce
        show ?thesis
        proof (rule run [OF Inr t q])
          show "case q of Inl e \<Rightarrow> r = Inl e \<and> w' = w2
            | Inr (d', res, outs) \<Rightarrow> (\<exists>x. seed_active d' res w2 = (x, w') \<and> r = (case x of None \<Rightarrow> Inr outs | Some e \<Rightarrow> Inl e))"
            using b st Inr x None q by (auto simp: import_body_def split: sum.splits prod.splits option.splits)
        qed
      qed
    qed
  qed
qed

text \<open>
  Property C35: a document with one bad account changes nothing. When any account of the document has an
  invalid address, slot number or field, or its credential or configuration has the wrong shape, or it
  occurs twice, the import is refused before any file, backup or login has been touched, wherever in the
  document the account stands.
\<close>

theorem import_all_or_nothing:
  assumes "import_accounts lit (Inr text) force w = (r, w')" "read_envelope text = Inr (act, vs)"
    "seq_file w = SeqRoster d" "\<not> needs_org_backfill d"
    "\<not> (list_all (account_ok lit) vs \<and> distinct (map doc_identity vs))"
  shows "(\<exists>e. r = Inl e) \<and> touches {} w w'"
  using assms(1-4)
proof (cases rule: import_steady)
  case (run es w1 q w2)
  note f = normalize_all_facts [OF run(1)]
  have "map doc_identity vs = map (\<lambda>e. (ie_email e, ie_org e)) es"
    using f by (auto simp: entry_of_def list_all2_conv_all_nth intro!: nth_equalityI)
  then have "distinct (map doc_identity vs)" using f by simp
  then show ?thesis using normalize_all_ok [OF run(1)] assms(5) by blast
qed auto

section \<open>Accounts that are here already\<close>

lemma seed_facts:
  assumes "seed_active d res w = (x, w')"
  shows "filed n raw w \<Longrightarrow> map_of (accounts d) n = Some raw \<Longrightarrow> filed n raw w'" "touches {RSeq} w w'"
    "x = None \<Longrightarrow> seq_file w = SeqRoster d \<Longrightarrow> \<exists>d'. seq_file w' = SeqRoster d' \<and> accounts d' = accounts d"
proof -
  show t: "touches {RSeq} w w'" by (rule touches_result [OF assms], unfold seed_active_def, intro frames; simp)
  show "filed n raw w'" if "filed n raw w" "map_of (accounts d) n = Some raw"
  proof (cases "(active_num d = None \<or> active_num d = Some 0) \<and> res \<noteq> []")
    case True
    then have "write_sequence (stamp_roster w (d\<lparr>active_num := Some (atoi_value res)\<rparr>)) w = (x, w')"
      using assms by (simp add: seed_active_def)
    then have "keeps_records (- {n}) d w'"
      by (rule write_keeps) (use that filed_keeps in \<open>simp_all add: stamp_roster_def\<close>)
    then show ?thesis using filed_keeps that(2) by simp
  next
    case False
    then show ?thesis using assms that(1) by (auto simp: seed_active_def)
  qed
  show "\<exists>d'. seq_file w' = SeqRoster d' \<and> accounts d' = accounts d" if "x = None" "seq_file w = SeqRoster d"
    using assms that write_sequence_ok by (force simp: seed_active_def stamp_roster_def split: if_splits)
qed

text \<open>The numbers of a document, below the bound under which numbering cannot wrap.\<close>

definition small_numbers :: "json list \<Rightarrow> bool" where
  "small_numbers vs \<longleftrightarrow> int (length vs) < 2 ^ 62
     \<and> list_all (\<lambda>v. case int_value (doc_field v ''number'') of None \<Rightarrow> True | Some n \<Rightarrow> n < 2 ^ 62) vs"

lemma entries_below:
  assumes "list_all2 (entry_of lit) vs es" "small_numbers vs"
  shows "\<forall>e \<in> set es. entry_below (2 ^ 62 - 1) e" "2 ^ 62 - 1 + int (length es) < 2 ^ 63 - 1"
proof -
  show "\<forall>e \<in> set es. entry_below (2 ^ 62 - 1) e"
  proof
    fix e assume "e \<in> set es"
    then obtain i where i: "i < length es" "e = es ! i" by (auto simp: in_set_conv_nth)
    then have v: "entry_of lit (vs ! i) e" "vs ! i \<in> set vs" using assms(1) by (auto simp: list_all2_conv_all_nth)
    then obtain n where "int_value (doc_field (vs ! i) ''number'') = Some n" "1 \<le> n" "ie_num e = itoa n" by (auto simp: entry_of_def)
    moreover from this have "n < 2 ^ 62" using assms(2) v(2) by (auto simp: small_numbers_def list_all_iff)
    ultimately show "entry_below (2 ^ 62 - 1) e" by (simp add: entry_below_def is_digits_itoa dec_val_itoa)
  qed
  show "2 ^ 62 - 1 + int (length es) < 2 ^ 63 - 1"
    using assms by (simp add: small_numbers_def list_all2_lengthD)
qed

text \<open>
  Property C34: an import does not touch the accounts that are here. Whatever calls fail and however far
  the import came, a slot whose identity is not in the document, and without --force every slot, keeps its
  record, its credential and its configuration.
\<close>

theorem import_spares_local:
  assumes "import_accounts lit (Inr text) force w = (r, w')" "read_envelope text = Inr (act, vs)"
    "seq_file w = SeqRoster d" "\<not> needs_org_backfill d" "slots_below (2 ^ 62 - 1) d" "small_numbers vs"
    "map_of (accounts d) n = Some raw" "\<not> force \<or> (rec_email d n, rec_org d n) \<notin> set (map doc_identity vs)"
  shows "\<exists>d'. seq_file w' = SeqRoster d' \<and> map_of (accounts d') n = Some raw
     \<and> (\<forall>em. backup_of n em w' = backup_of n em w \<and> config_of n em w' = config_of n em w)"
proof -
  have f0: "filed n raw w" using assms(3,7) by (simp add: filed_def)
  have "filed n raw w' \<and> (\<forall>em. backup_of n em w' = backup_of n em w \<and> config_of n em w' = config_of n em w)"
    using assms(1-4)
  proof (cases rule: import_steady)
    case (run es w1 q w2)
    note nf = normalize_all_facts [OF run(1)]
    have ids: "map doc_identity vs = map (\<lambda>e. (ie_email e, ie_org e)) es"
      using nf by (auto simp: entry_of_def list_all2_conv_all_nth intro!: nth_equalityI)
    have sp: "\<forall>e \<in> set es. spares force raw e"
    proof
      fix e assume "e \<in> set es"
      then have "(ie_email e, ie_org e) \<in> set (map doc_identity vs)" unfolding ids by auto
      then show "spares force raw e" using assms(7,8) by (auto simp: spares_def rec_email_def rec_org_def rec_at_def)
    qed
    have "filed n raw w1" using f0 touches_same [OF run(2), of RSeq] by (simp add: filed_def)
    then have s: "filed n raw w2 \<and> (\<forall>em. backup_of n em w2 = backup_of n em w1 \<and> config_of n em w2 = config_of n em w1)
        \<and> (\<forall>d' res' outs. q = Inr (d', res', outs) \<longrightarrow> map_of (accounts d') n = Some raw)"
      using import_entries_spares [OF run(3) assms(5) entries_below [OF conjunct1 [OF nf] assms(6)] assms(7)] sp by blast
    have "filed n raw w' \<and> touches {RSeq} w2 w'"
    proof (cases q)
      case (Inl e)
      then show ?thesis using run(4) s by simp
    next
      case (Inr y)
      obtain d' res outs where y: "y = (d', res, outs)" by (cases y)
      then obtain x where x: "seed_active d' res w2 = (x, w')" using run(4) Inr by auto
      have "map_of (accounts d') n = Some raw" "filed n raw w2" using s Inr y by simp_all
      then show ?thesis using seed_facts(1) [OF x] seed_facts(2) [OF x] by simp
    qed
    then show ?thesis
      using s backup_of_touches [of "{RSeq}" w2 w'] config_of_touches [of "{RSeq}" w2 w'] backup_of_touches [OF run(2)]
        config_of_touches [OF run(2)] by simp
  next
    case (refused e)
    then show ?thesis using f0 touches_same [of "{}" w w' RSeq] backup_of_touches [of "{}" w w'] config_of_touches [of "{}" w w']
      by (simp add: filed_def)
  next
    case (invalid e)
    then show ?thesis using f0 touches_same [of "{}" w w' RSeq] backup_of_touches [of "{}" w w'] config_of_touches [of "{}" w w']
      by (simp add: filed_def)
  qed
  then show ?thesis by (auto simp: filed_def)
qed

section \<open>Accounts that were imported\<close>

text \<open>What an outcome says of the entry: its slot holds the identity, and its backups unless it was skipped.\<close>

definition arrived :: "seq_data \<Rightarrow> world \<Rightarrow> import_entry \<Rightarrow> import_outcome \<Rightarrow> bool" where
  "arrived d w e out \<longleftrightarrow>
     rec_email d (outcome_slot out) = ie_email e \<and> rec_org d (outcome_slot out) = ie_org e
     \<and> ((\<forall>s. out \<noteq> Skipped s) \<longrightarrow>
          backup_of (outcome_slot out) (ie_email e) w = ie_creds e \<and> config_of (outcome_slot out) (ie_email e) w = ie_config e)"

lemma import_entries_arrive:
  "import_entries force act es d res w = (Inr (d', res', outs), w') \<Longrightarrow> slots_below b d \<Longrightarrow> \<forall>e \<in> set es. entry_below b e \<Longrightarrow>
   b + int (length es) < 2 ^ 63 - 1 \<Longrightarrow> seq_file w = SeqRoster d \<Longrightarrow> distinct (map (\<lambda>e. (ie_email e, ie_org e)) es) \<Longrightarrow>
   \<forall>e \<in> set es. ie_creds e \<noteq> [] \<Longrightarrow> seq_file w' = SeqRoster d' \<and> list_all2 (arrived d' w') es outs"
proof (induction es arbitrary: d res w b outs)
  case (Cons e es)
  obtain d1 out w1 where q: "import_one force e d w = (Inr (d1, out), w1)"
    using Cons.prems(1) by (cases "import_one force e d w") (auto split: sum.splits)
  obtain outs1 where q2: "import_entries force act es d1 (if act \<noteq> [] \<and> ie_num e = act then outcome_slot out else res) w1 = (Inr (d', res', outs1), w')"
    "outs = out # outs1"
    using Cons.prems(1) q by (auto split: prod.splits sum.splits)
  have e: "entry_below b e" "b < 2 ^ 63 - 1" using Cons.prems(3,4) by auto
  note one = import_one_done [OF q Cons.prems(2) e Cons.prems(5)]
  have b: "\<forall>e \<in> set es. entry_below (b + 1) e" "b + 1 + int (length es) < 2 ^ 63 - 1"
    using Cons.prems(3,4) entry_below_mono by simp_all
  have rest: "seq_file w' = SeqRoster d' \<and> list_all2 (arrived d' w') es outs1"
    by (rule Cons.IH [OF q2(1) one(1) b one(2)]) (use Cons.prems(6,7) in auto)
  obtain raw where raw: "map_of (accounts d1) (outcome_slot out) = Some raw" using one(5) by auto
  have id: "str_field (decode_record raw) ''email'' = ie_email e" "str_field (decode_record raw) ''organizationUuid'' = ie_org e"
    using one(3,4) raw by (simp_all add: rec_email_def rec_org_def rec_at_def)
  have sp: "\<forall>e' \<in> set es. spares force raw e'" using Cons.prems(6) id by (auto simp: spares_def)
  have fl: "filed (outcome_slot out) raw w1" using one(2) raw by (simp add: filed_def)
  from import_entries_spares [OF q2(1) one(1) b raw fl sp]
  have k: "map_of (accounts d') (outcome_slot out) = Some raw"
    "backup_of (outcome_slot out) (ie_email e) w' = backup_of (outcome_slot out) (ie_email e) w1"
    "config_of (outcome_slot out) (ie_email e) w' = config_of (outcome_slot out) (ie_email e) w1" by auto
  have "arrived d' w' e out"
    using one(6) k id Cons.prems(7) by (auto simp: arrived_def rec_email_def rec_org_def rec_at_def)
  then show ?case using rest q2(2) by simp
qed simp

text \<open>
  What an import reports has arrived: when it succeeded, every account of the document has, in order, the
  slot that its outcome names, with its identity in the roster, and unless the account was skipped with the
  document's configuration and the text made of the document's credential.
\<close>

lemma import_arrival:
  assumes "import_accounts lit (Inr text) force w = (Inr outs, w')" "read_envelope text = Inr (act, vs)"
    "seq_file w = SeqRoster d" "\<not> needs_org_backfill d" "slots_below (2 ^ 62 - 1) d" "small_numbers vs" "\<forall>r. lit r \<noteq> []"
  shows "\<exists>d'. seq_file w' = SeqRoster d' \<and> length outs = length vs \<and> (\<forall>i < length vs.
       (let s = outcome_slot (outs ! i); (email, org) = doc_identity (vs ! i)
        in rec_email d' s = email \<and> rec_org d' s = org
         \<and> ((\<forall>n. outs ! i \<noteq> Skipped n) \<longrightarrow> config_of s email w' = TJson (norm_json (doc_field (vs ! i) ''config''))
              \<and> (\<exists>api. import_creds lit (raw_at (raw_credentials text) i) (the (as_map (vs ! i))) = Inr (api, backup_of s email w')))))"
  using assms(1-4)
proof (cases rule: import_steady)
  case (run es w1 q w2)
  note nf = normalize_all_facts [OF run(1)]
  obtain d1 res where q: "q = Inr (d1, res, outs)" "seed_active d1 res w2 = (None, w')"
    using run(4) by (cases q) (auto split: option.splits)
  have s1: "seq_file w1 = SeqRoster d" using touches_same [OF run(2), of RSeq] assms(3) by simp
  have "\<forall>e \<in> set es. ie_creds e \<noteq> []"
  proof
    fix e assume "e \<in> set es"
    then obtain v where "entry_of lit v e" using list_all2_ex [OF conjunct1 [OF nf]] by blast
    then show "ie_creds e \<noteq> []" using import_creds_nonempty [OF _ assms(7)] by (auto simp: entry_of_def)
  qed
  then have a: "seq_file w2 = SeqRoster d1" "list_all2 (arrived d1 w2) es outs"
    using import_entries_arrive [OF run(3) [unfolded q(1)] assms(5) entries_below [OF conjunct1 [OF nf] assms(6)] s1] nf by auto
  obtain d' where d': "seq_file w' = SeqRoster d'" "accounts d' = accounts d1" using seed_facts(3) [OF q(2) refl a(1)] by blast
  have t: "touches {RSeq} w2 w'" by (rule seed_facts(2) [OF q(2)])
  have ln: "length es = length vs" "length outs = length es"
    using list_all2_lengthD [OF conjunct1 [OF nf]] list_all2_lengthD [OF a(2)] by simp_all
  have "let s = outcome_slot (outs ! i); (email, org) = doc_identity (vs ! i)
        in rec_email d' s = email \<and> rec_org d' s = org
         \<and> ((\<forall>n. outs ! i \<noteq> Skipped n) \<longrightarrow> config_of s email w' = TJson (norm_json (doc_field (vs ! i) ''config''))
              \<and> (\<exists>api. import_creds lit (raw_at (raw_credentials text) i) (the (as_map (vs ! i))) = Inr (api, backup_of s email w')))"
    if i: "i < length vs" for i
  proof -
    have e: "entry_of lit (vs ! i) (es ! i)" using nf i by (simp add: list_all2_conv_all_nth)
    have o1: "arrived d1 w2 (es ! i) (outs ! i)" using a(2) i ln by (simp add: list_all2_conv_all_nth)
    have id: "doc_identity (vs ! i) = (ie_email (es ! i), ie_org (es ! i))" using e by (simp add: entry_of_def)
    have "rec_at d' k = rec_at d1 k" for k by (simp add: rec_at_def d'(2))
    then have r: "rec_email d' k = rec_email d1 k" "rec_org d' k = rec_org d1 k" for k by (simp_all add: rec_email_def rec_org_def)
    have w: "backup_of k em w' = backup_of k em w2" "config_of k em w' = config_of k em w2" for k em
      using backup_of_touches [OF t] config_of_touches [OF t] by simp_all
    obtain m where "as_map (vs ! i) = Some m"
      "import_creds lit (raw_at (raw_credentials text) i) m = Inr (ie_api_key (es ! i), ie_creds (es ! i))"
      using normalize_all_creds [OF run(1) i] by blast
    then show ?thesis using e o1 unfolding id r w arrived_def entry_of_def by (auto simp: Let_def)
  qed
  with d'(1) ln show ?thesis by auto
qed simp_all

section \<open>Examples\<close>

lemma document_first: "json_document s = Some v \<Longrightarrow> decode_first s = Some v"
  by (auto simp: json_document_def decode_first_def split: option.splits prod.splits if_splits)

definition digit_text :: "rat \<Rightarrow> string" where
  "digit_text r = itoa \<lfloor>r\<rfloor>"

lemma digit_text_nonempty: "digit_text r \<noteq> []"
  using is_digits_itoa [of "\<lfloor>r\<rfloor>"] by (cases "0 \<le> \<lfloor>r\<rfloor>") (auto simp: digit_text_def is_digits_def itoa_def)

lemma digit_text_one: "number_text digit_text 1"
proof -
  have t: "digit_text 1 = ''1''" by code_simp
  have "dec_number (''1'' @ rest) = Some (1, rest)" if "ends_value rest" for rest
    using that
    by (cases rest) (auto simp: ends_value_def dec_number_def int_part_def digits_of_def is_digit_def frac_part_def exp_part_def
        dec_val_def digit_val_def less_eq_char_def Let_def)
  then show ?thesis by (simp add: number_text_def t is_digit_def less_eq_char_def)
qed

text \<open>A document with one account, and a machine with a given roster.\<close>

definition sample_dest :: "seq_data \<Rightarrow> fault list \<Rightarrow> world" where
  "sample_dest d fs = (sample_linux fs Map.empty)\<lparr>seq_file := SeqRoster d\<rparr>"

definition sample_account :: json where
  "sample_account =
     JObj [(''number'', JNum 1), (''email'', JStr ''a@x.org''), (''uuid'', JStr []), (''organizationUuid'', JStr []),
       (''organizationName'', JStr []), (''added'', JStr []),
       (''credentials'', JObj [(''claudeAiOauth'', JObj [(''accessToken'', JStr ''T''), (''refreshToken'', JStr ''R'')])]),
       (''config'', JObj [(''oauthAccount'', JObj [(''emailAddress'', JStr ''a@x.org''), (''organizationUuid'', JStr [])])])]"

definition sample_doc :: json where
  "sample_doc = envelope ''t1'' ''linux'' ''1.0'' (Some 1) [sample_account]"

definition sample_text :: string where
  "sample_text = emit '','' '':'' digit_text sample_doc"

lemma sample_text_doc: "json_document sample_text = Some sample_doc"
proof -
  have "separators '','' '':''" by (simp add: separators_def)
  moreover have "json_nums sample_doc = {1}" by code_simp
  ultimately show ?thesis unfolding sample_text_def using digit_text_one by (intro emit_document) simp_all
qed

text \<open>A document with one account twice; the first could be imported.\<close>

definition twice_text :: string where
  "twice_text = emit '','' '':'' digit_text (envelope ''t1'' ''linux'' ''1.0'' None [sample_account, sample_account])"

lemma import_all_or_nothing_witness:
  "touches {} (sample_dest (empty_sequence []) [])
     (snd (import_accounts digit_text (Inr twice_text) True (sample_dest (empty_sequence []) [])))"
proof -
  let ?doc = "envelope ''t1'' ''linux'' ''1.0'' None [sample_account, sample_account]"
  let ?u = "sample_dest (empty_sequence []) []" and ?vs = "[sample_account, sample_account]"
  let ?r = "import_accounts digit_text (Inr twice_text) True ?u"
  have "separators '','' '':''" by (simp add: separators_def)
  moreover have "json_nums ?doc = {1}" by code_simp
  ultimately have d: "json_document twice_text = Some ?doc"
    unfolding twice_text_def using digit_text_one by (intro emit_document) simp_all
  have env: "read_envelope twice_text = Inr ([], ?vs)"
    unfolding read_envelope_def document_first [OF d] by code_simp
  have s: "seq_file ?u = SeqRoster (empty_sequence [])" by (simp add: sample_dest_def)
  have b: "\<not> needs_org_backfill (empty_sequence [])" by code_simp
  have "\<not> (list_all (account_ok digit_text) ?vs \<and> distinct (map doc_identity ?vs))" by simp
  from import_all_or_nothing [OF prod.collapse [symmetric, of ?r] env s b this] show ?thesis by blast
qed

text \<open>An import with --force of which a write fails: the accounts of the machine are as before.\<close>

lemma import_spares_local_witness:
  "backup_of ''2'' ''a@x'' (snd (import_accounts digit_text (Inr sample_text) True
     (sample_dest sample_pair [NoFault, NoFault, NoFault, OtherFail True]))) = ''CRED-2''"
proof -
  let ?u = "sample_dest sample_pair [NoFault, NoFault, NoFault, OtherFail True]"
  let ?r = "import_accounts digit_text (Inr sample_text) True ?u"
  have env: "read_envelope sample_text = Inr (''1'', [sample_account])"
    unfolding read_envelope_def document_first [OF sample_text_doc] by code_simp
  have s: "seq_file ?u = SeqRoster sample_pair" by (simp add: sample_dest_def)
  have b: "\<not> needs_org_backfill sample_pair" by code_simp
  have "is_digits ''1''" "is_digits ''2''" "dec_val ''1'' = 1" "dec_val ''2'' = 2" by code_simp+
  then have sb: "slots_below (2 ^ 62 - 1) sample_pair" by (simp add: slots_below_def sample_pair_def)
  have sm: "small_numbers [sample_account]" by code_simp
  have m: "map_of (accounts sample_pair) ''2'' = Some (JObj [(''email'', JStr ''a@x''), (''organizationUuid'', JStr ''o2'')])"
    by (simp add: sample_pair_def)
  have i: "\<not> True \<or> (rec_email sample_pair ''2'', rec_org sample_pair ''2'') \<notin> set (map doc_identity [sample_account])" by code_simp
  have "backup_of ''2'' ''a@x'' (snd ?r) = backup_of ''2'' ''a@x'' ?u"
    using import_spares_local [OF prod.collapse [symmetric, of ?r] env s b sb sm m i] by blast
  also have "\<dots> = ''CRED-2''" by code_simp
  finally show ?thesis .
qed

end
