(* ===== verification/PortedBack.thy ===== *)
theory PortedBack
  imports Ported
begin

text \<open>
  What the export of accounts promises, and that the tokens of an account survive the way through the
  document into another machine's store.
\<close>

section \<open>Normalized values\<close>

lemma obj_map_norm: "obj_map (norm_members kvs) = map (\<lambda>(k, v). (k, norm_json v)) (obj_map kvs)"
proof -
  have put: "gm_put k (norm_json v) (map (\<lambda>(k, v). (k, norm_json v)) m) = map (\<lambda>(k, v). (k, norm_json v)) (gm_put k v m)" for k v m
    by (induction m) auto
  have "foldl (\<lambda>m (k, v). gm_put k v m) (map (\<lambda>(k, v). (k, norm_json v)) m) (norm_members kvs)
      = map (\<lambda>(k, v). (k, norm_json v)) (foldl (\<lambda>m (k, v). gm_put k v m) m kvs)" for m
    by (induction kvs arbitrary: m) (auto simp: put)
  from this [of "[]"] show ?thesis by (simp add: obj_map_def)
qed

lemma mget_map_norm: "mget (map (\<lambda>(k, v). (k, norm_json v)) m) key = norm_json (mget m key)"
  by (induction m) (auto simp: mget_def split: option.splits)

lemma as_map_norm:
  assumes "as_map v = Some m"
  obtains m' where "as_map (norm_json v) = Some m'" "\<And>k. mget m' k = norm_json (mget m k)"
proof -
  obtain kvs where v: "v = JObj kvs" "m = obj_map kvs" using assms by (cases v) auto
  have d: "distinct (gm_keys (obj_map (norm_members kvs)))" by (rule distinct_obj_map)
  have "as_map (norm_json v) = Some (decode_record (norm_json v))"
    by (simp add: v decode_record_def encode_record_def)
  moreover have "mget (decode_record (norm_json v)) k = norm_json (mget m k)" for k
    using mget_decode_encode [OF d] by (simp add: v obj_map_norm mget_map_norm)
  ultimately show ?thesis by (rule that)
qed

lemma as_str_norm: "as_str (norm_json v) = as_str v"
  by (cases v) (simp_all add: encode_record_def)

lemma as_map_norm_None: "as_map v = None \<Longrightarrow> as_map (norm_json v) = None"
  by (cases v) simp_all

text \<open>The OAuth section of a credential and of its normalized value carry the same strings.\<close>

lemma oauth_norm:
  assumes "decode_first c = Some v" "decode_first c' = Some (norm_json v)" "as_map v = Some m"
  shows "map_option (\<lambda>oa. str_field oa k) (extract_oauth_data c') = map_option (\<lambda>oa. str_field oa k) (extract_oauth_data c)"
proof -
  obtain m' where m': "as_map (norm_json v) = Some m'" "\<And>k. mget m' k = norm_json (mget m k)" using as_map_norm [OF assms(3)] by metis
  show ?thesis
  proof (cases "as_map (mget m ''claudeAiOauth'')")
    case None
    then show ?thesis using assms m' by (simp add: extract_oauth_data_def as_map_norm_None)
  next
    case (Some o')
    obtain n where "as_map (norm_json (mget m ''claudeAiOauth'')) = Some n" "\<And>k. mget n k = norm_json (mget o' k)"
      using as_map_norm [OF Some] by metis
    then show ?thesis using assms m' Some by (simp add: extract_oauth_data_def str_field_def as_str_norm)
  qed
qed

section \<open>One account there and back\<close>

lemma trim_space_idem: "trim_space (trim_space s) = trim_space s"
proof -
  have d: "dropWhile is_space (rev (dropWhile is_space (rev x))) = rev (dropWhile is_space (rev x))"
    if "dropWhile is_space x = x" for x
  proof (cases x)
    case (Cons c t)
    then have "\<not> is_space c" using that by (auto split: if_splits dest: dropWhile_eq_Cons_conv [THEN iffD1])
    then show ?thesis using Cons by (auto simp: dropWhile_append)
  qed simp
  have "dropWhile is_space (trim_space s) = trim_space s"
    unfolding trim_space_def by (rule d) (rule dropWhile_idem)
  then show ?thesis unfolding trim_space_def [of "trim_space s"] by (simp add: trim_space_def)
qed

lemma api_key_trim: "looks_like_api_key s \<Longrightarrow> looks_like_api_key (trim_space s)"
  by (auto simp: looks_like_api_key_def Let_def trim_space_idem has_prefix_def split: if_splits)

definition carried :: "string \<Rightarrow> string \<Rightarrow> bool" where
  "carried c c' \<longleftrightarrow>
     (if looks_like_api_key c then c' = trim_space c
      else extract_access_token c' = extract_access_token c
        \<and> map_option (\<lambda>oa. str_field oa ''refreshToken'') (extract_oauth_data c')
          = map_option (\<lambda>oa. str_field oa ''refreshToken'') (extract_oauth_data c))"

lemma export_entry_fields:
  assumes "export_entry full num rec creds t = Inr v"
  obtains cr where "(if looks_like_api_key creds then cr = JStr (trim_space creds) else creds_payload creds = Inr cr)"
    "raw_credential v = Some cr" "doc_field v ''credentials'' = cr"
    "doc_field v ''kind'' = (if looks_like_api_key creds then JStr ''api_key'' else JNull)"
    "doc_identity v = (str_field rec ''email'', str_field rec ''organizationUuid'')" "\<exists>m. as_map v = Some m"
    "\<not> full \<Longrightarrow> \<exists>o'. doc_field v ''config'' = JObj [(''oauthAccount'', o')]"
proof -
  obtain m config cr where c: "config_payload t = Inr m"
    "(if full then Inr (norm_json (JObj m)) else slim_config m) = Inr config"
    "(if looks_like_api_key creds then Inr (JStr (trim_space creds)) else creds_payload creds) = Inr cr"
    using assms by (auto simp: export_entry_def split: sum.splits)
  have l: "go_lower ''number'' = ''number''" "go_lower ''email'' = ''email''" "go_lower ''uuid'' = ''uuid''"
    "go_lower ''organizationUuid'' = ''organizationuuid''" "go_lower ''organizationName'' = ''organizationname''"
    "go_lower ''added'' = ''added''" "go_lower ''credentials'' = ''credentials''" "go_lower ''config'' = ''config''"
    "go_lower ''kind'' = ''kind''" "go_lower ''alias'' = ''alias''" by code_simp+
  have v: "v = JObj ([(''number'', JNum (rat_of_int (atoi_value num))), (''email'', JStr (str_field rec ''email'')),
                       (''uuid'', JStr (str_field rec ''uuid'')), (''organizationUuid'', JStr (str_field rec ''organizationUuid'')),
                       (''organizationName'', JStr (str_field rec ''organizationName'')), (''added'', JStr (str_field rec ''added'')),
                       (''credentials'', cr), (''config'', config)]
                      @ (if looks_like_api_key creds then [(''kind'', JStr ''api_key'')] else [])
                      @ (if str_field rec ''alias'' = [] then [] else [(''alias'', JStr (str_field rec ''alias''))]))"
    using assms c by (simp add: export_entry_def)
  have d: "as_map v = (case v of JObj kvs \<Rightarrow> Some kvs | _ \<Rightarrow> None)"
    unfolding v by (auto simp: gm_keys_def intro!: obj_map_id)
  show ?thesis
  proof (rule that [of cr])
    show "if looks_like_api_key creds then cr = JStr (trim_space creds) else creds_payload creds = Inr cr" using c(3) by (auto split: if_splits)
    show "raw_credential v = Some cr" unfolding v by (simp add: last_folded_def l)
    show "doc_field v ''credentials'' = cr" "doc_field v ''kind'' = (if looks_like_api_key creds then JStr ''api_key'' else JNull)"
      "doc_identity v = (str_field rec ''email'', str_field rec ''organizationUuid'')" "\<exists>m. as_map v = Some m"
      using d unfolding v by (auto simp: doc_field_def doc_identity_def mget_def or_empty_def)
    show "\<exists>o'. doc_field v ''config'' = JObj [(''oauthAccount'', o')]" if "\<not> full"
      using d c(2) that unfolding v by (auto simp: doc_field_def mget_def slim_config_def split: option.splits)
  qed
qed

lemma entry_carries:
  assumes "export_entry full num rec creds t = Inr v" "\<forall>r \<in> json_nums (doc_field v ''credentials''). number_text lit r"
  shows "\<exists>c'. import_creds lit (raw_credential v) (the (as_map v)) = Inr (looks_like_api_key creds, c') \<and> carried creds c'"
proof -
  obtain cr where cr: "(if looks_like_api_key creds then cr = JStr (trim_space creds) else creds_payload creds = Inr cr)"
    "raw_credential v = Some cr" "doc_field v ''credentials'' = cr"
    "doc_field v ''kind'' = (if looks_like_api_key creds then JStr ''api_key'' else JNull)" "\<exists>m. as_map v = Some m"
    by (rule export_entry_fields [OF assms(1)]) (rule that; assumption)
  obtain m where m: "as_map v = Some m" using cr(5) by blast
  have f: "mget m ''credentials'' = cr" "mget m ''kind'' = (if looks_like_api_key creds then JStr ''api_key'' else JNull)"
    using cr(3,4) m by (simp_all add: doc_field_def)
  show ?thesis
  proof (cases "looks_like_api_key creds")
    case True
    then have "cr = JStr (trim_space creds)" using cr(1) by simp
    moreover have "looks_like_api_key (trim_space creds)" using True api_key_trim by simp
    ultimately show ?thesis
      using f True m trim_space_idem by (auto simp: import_creds_def carried_def Let_def)
  next
    case False
    then obtain j jm where j: "json_document creds = Some j" "as_map j = Some jm" "cr = norm_json j"
      using cr(1) by (auto simp: creds_payload_def split: option.splits)
    obtain km where km: "as_map cr = Some km" unfolding j(3) using as_map_norm [OF j(2)] by metis
    then have "as_str cr = None" by (cases cr) auto
    then have i: "import_creds lit (raw_credential v) (the (as_map v)) = Inr (False, emit_spaced lit cr)"
      using f False m cr(2) km by (simp add: import_creds_def Let_def)
    have "separators '', '' '': ''" by (simp add: separators_def json_ws_def)
    then have "decode_first (emit_spaced lit cr) = Some (norm_json j)"
      using emit_document(1) [of "'', ''" "'': ''" cr lit] assms(2) cr(3) j(3) by (simp add: emit_spaced_def)
    note n = oauth_norm [OF document_first [OF j(1)] this j(2)]
    have "extract_access_token (emit_spaced lit cr) = extract_access_token creds"
      using n [of "''accessToken''"]
      by (cases "extract_oauth_data creds"; cases "extract_oauth_data (emit_spaced lit cr)") (simp_all add: extract_access_token_def)
    then have "carried creds (emit_spaced lit cr)" using False n by (simp add: carried_def)
    then show ?thesis using i False by simp
  qed
qed

section \<open>The whole export\<close>

text \<open>The accounts of a document.\<close>

definition doc_accounts :: "json \<Rightarrow> json list" where
  "doc_accounts doc = (case as_arr (doc_field doc ''accounts'') of None \<Rightarrow> [] | Some vs \<Rightarrow> vs)"

text \<open>
  The credentials of one account of this machine, by its address and organization: the live login when it
  is this account, and otherwise the backups of the slots the roster lists under this identity.
\<close>

definition live_copies :: "world \<Rightarrow> string set" where
  "live_copies w =
     {or_empty (live_creds w), or_empty (keychain w (claude_code_service, w_user w)), or_empty (keychain w (managed_service, w_user w)),
      case read_lenient w of None \<Rightarrow> [] | Some m \<Rightarrow> str_field m ''primaryApiKey''}"

definition credential_of :: "world \<Rightarrow> seq_data \<Rightarrow> string \<times> string \<Rightarrow> string \<Rightarrow> bool" where
  "credential_of w d idn c \<longleftrightarrow>
     c \<noteq> [] \<and>
     (if current_account w = Some idn then c \<in> live_copies w
      else \<exists>num \<in> set (sorted_slot_keys d). (rec_email d num, rec_org d num) = idn \<and> c \<in> slot_copies num (fst idn) w)"

lemma live_touches:
  assumes "touches R w w'" "R \<inter> live_resources w = {}"
  shows "live_copies w' = live_copies w" "current_account w' = current_account w" "read_lenient w' = read_lenient w"
proof -
  have n: "RLiveCreds \<notin> R" "RLiveConfig \<notin> R" "RKeychain (claude_code_service, w_user w) \<notin> R" "RKeychain (managed_service, w_user w) \<notin> R"
    using assms(2) by (auto simp: live_resources_def)
  note t = touches_facts(2) [OF assms(1)] n [THEN touches_same [OF assms(1)]]
  show "live_copies w' = live_copies w" "current_account w' = current_account w" "read_lenient w' = read_lenient w"
    using t by (simp_all add: live_copies_def current_account_def read_lenient_def)
qed

lemma kc_get_sound: "kc_get svc acct w = (Inr v, w') \<Longrightarrow> v = keychain w (svc, acct)"
  by (auto simp: kc_get_def Let_def split: prod.splits option.splits)

lemma read_managed_sound:
  assumes "touches {} w w1" "read_managed_key w1 = (c, w2)"
  shows "c = [] \<or> c \<in> live_copies w"
proof -
  obtain use w3 where u: "use_keychain w1 = (use, w3)" by fastforce
  have t1: "touches {} w w3" by (rule touches_result [OF u]) (intro frames assms(1))
  obtain v w4 where k: "(if use then (case kc_get managed_service (w_user w3) w3 of (Inl _, w) \<Rightarrow> ([], w) | (Inr v, w) \<Rightarrow> (or_empty v, w))
      else ([], w3)) = (v, w4)" by fastforce
  have t2: "touches {} w w4" by (rule touches_result [OF k]) (intro frames t1; simp)
  have v: "v = [] \<or> v \<in> live_copies w"
  proof (cases "use \<and> v \<noteq> []")
    case True
    then obtain x where "kc_get managed_service (w_user w3) w3 = (Inr x, w4)" "v = or_empty x"
      using k by (auto split: prod.splits sum.splits)
    then show ?thesis using kc_get_sound live_touches(1) [OF t1] by (force simp: live_copies_def)
  next
    case False
    then show ?thesis using k by auto
  qed
  have m: "str_field m ''primaryApiKey'' \<in> live_copies w" if "fst (read_global_config w4) = Some m" for m
  proof -
    obtain x w5 where o: "os_call (\<lambda>w. w) w4 = (x, w5)" by fastforce
    have "touches {} w w5" by (rule touches_result [OF o]) (intro frames t2; simp)
    with that o have "read_lenient w = Some m"
      using live_touches(3) [of "{}" w w5] by (auto simp: read_global_config_def split: option.splits)
    then show ?thesis by (simp add: live_copies_def)
  qed
  have r: "read_managed_key w1 = (if v \<noteq> [] then (v, w4) else (let (cfg, w) = read_global_config w4
      in (case cfg of None \<Rightarrow> ([], w) | Some m \<Rightarrow> (str_field m ''primaryApiKey'', w))))"
    unfolding read_managed_key_def u Let_def prod.case k ..
  show ?thesis
    using assms(2) v m unfolding r by (auto simp: Let_def split: prod.splits option.splits if_splits)
qed

lemma touches_read_keychain: "touches R w w1 \<Longrightarrow> touches R w (snd (read_active_oauth_keychain w1))"
  unfolding read_active_oauth_keychain_def sleep_retry_def by (intro frames; simp)

lemma read_keychain_sound:
  assumes "touches {} w w1" "read_active_oauth_keychain w1 = ((c, b), w2)"
  shows "c = [] \<or> c \<in> live_copies w"
proof -
  have v: "or_empty x \<in> live_copies w" if "touches {} w v" "kc_get claude_code_service (w_user v) v = (Inr x, v')" for v x v'
    using live_touches(1) [OF that(1)] kc_get_sound [OF that(2)] by (auto simp: live_copies_def)
  have p: "touches {} w (sleep_retry v)" if "kc_get claude_code_service (w_user w1) w1 = (x, v)" for x v
  proof -
    have "touches {} w v" by (rule touches_result [OF that]) (intro frames assms(1))
    then show ?thesis unfolding sleep_retry_def by (intro frames; simp)
  qed
  show ?thesis
    using assms(2) v [OF assms(1)] v [OF p]
    by (auto simp: read_active_oauth_keychain_def Let_def split: prod.splits sum.splits)
qed

lemma read_active_sound:
  assumes "read_active w = (Inr (c, b), w')"
  shows "c = [] \<or> c \<in> live_copies w"
proof -
  obtain use w1 where u: "use_keychain w = (use, w1)" by fastforce
  have t1: "touches {} w w1" by (rule touches_result [OF u]) (intro frames; simp)
  obtain v f w2 where k: "(if use then read_active_oauth_keychain w1 else (([], macos w1), w1)) = ((v, f), w2)" by (metis prod.collapse)
  have t2: "touches {} w w2"
    using k t1 touches_read_keychain [OF t1] by (cases use) auto
  have v: "v = [] \<or> v \<in> live_copies w" using k read_keychain_sound [OF t1] by (cases use) auto
  have raw: "live_creds w2 = Some raw \<Longrightarrow> raw \<in> live_copies w" for raw
    using live_touches(1) [OF t2] by (force simp: live_copies_def or_empty_def)
  have m: "read_managed_key w2 = (x, w4) \<Longrightarrow> x = [] \<or> x \<in> live_copies w" for x w4 by (rule read_managed_sound [OF t2])
  have m': "read_managed_key w3 = (x, w4) \<Longrightarrow> x = [] \<or> x \<in> live_copies w" if "os_call (\<lambda>w. w) w2 = (None, w3)" for w3 x w4
  proof -
    have "touches {} w w3" by (rule touches_result [OF that]) (intro frames t2; simp)
    then show "read_managed_key w3 = (x, w4) \<Longrightarrow> x = [] \<or> x \<in> live_copies w" by (rule read_managed_sound)
  qed
  show ?thesis
    using assms u k v raw m m'
    by (auto simp: read_active_def Let_def or_empty_def split: prod.splits option.splits if_splits)
qed

lemma touches_export_texts [frames]: "touches R w w1 \<Longrightarrow> touches R w (snd (export_texts explicit live num email w1))"
  unfolding export_texts_def Let_def read_config_text_def read_account_credentials_def by (intro frames touches_split; simp)

lemma touches_export_slots [frames]: "touches R w w1 \<Longrightarrow> touches R w (snd (export_slots explicit full current d ks w1))"
proof (induction ks arbitrary: w1)
  case (Cons k ks)
  then show ?case unfolding export_slots.simps Let_def by (intro frames touches_split; simp)
qed simp

lemma export_texts_read:
  assumes "export_texts explicit (current_account w = Some (email, org)) num email v = (Inr (Some (creds, t)), v')"
    "touches {RSeq} w v" "num \<in> set (sorted_slot_keys d)" "(rec_email d num, rec_org d num) = (email, org)"
  shows "credential_of w d (email, org) creds"
proof (cases "current_account w = Some (email, org)")
  case True
  then obtain b v1 where "read_active v = (Inr (creds, b), v1)" "creds \<noteq> []"
    using assms(1) by (auto simp: export_texts_def split: prod.splits sum.splits if_splits option.splits)
  then have "creds \<in> live_copies v" "creds \<noteq> []" using read_active_sound by blast+
  then show ?thesis using True live_touches(1) [OF assms(2)] by (simp add: credential_of_def live_resources_def)
next
  case False
  obtain c v1 where c: "read_account_credentials num email v = (c, v1)" by fastforce
  then have "creds = c" "creds \<noteq> []"
    using assms(1) False by (auto simp: export_texts_def Let_def split: prod.splits sum.splits if_splits)
  then have "creds \<in> slot_copies num email v" using read_account_result(1) [OF c] by simp
  then have "creds \<in> slot_copies num email w" using slot_copies_touches [OF assms(2)] by simp
  then show ?thesis using False \<open>creds \<noteq> []\<close> assms(3,4) by (auto simp: credential_of_def)
qed

text \<open>The entry \<open>v\<close> was made of a record of the roster and a credential of that account.\<close>

definition exported_from :: "bool \<Rightarrow> world \<Rightarrow> seq_data \<Rightarrow> json \<Rightarrow> bool" where
  "exported_from full w d v \<longleftrightarrow>
     (\<exists>num creds t. export_entry full num (rec_at d num) creds t = Inr v \<and> credential_of w d (rec_email d num, rec_org d num) creds)"

lemma export_slots_entries:
  "export_slots explicit full (current_account w) d ks v = (Inr vs, v') \<Longrightarrow> touches {RSeq} w v \<Longrightarrow>
   set ks \<subseteq> set (sorted_slot_keys d) \<Longrightarrow> x \<in> set vs \<Longrightarrow> exported_from full w d (snd x)"
proof (induction ks arbitrary: v v' vs)
  case (Cons k ks)
  let ?rec = "rec_at d k" and ?live = "current_account w = Some (rec_email d k, rec_org d k)"
  note r = rec_email_def [of d k, symmetric] rec_org_def [of d k, symmetric]
  obtain q v1 where q: "export_texts explicit ?live k (rec_email d k) v = (q, v1)" by fastforce
  have t1: "touches {RSeq} w v1" by (rule touches_result [OF q]) (intro frames Cons.prems(2))
  obtain y where y: "q = Inr y" using Cons.prems(1) q by (cases q) (auto simp: Let_def r)
  show ?case
  proof (cases y)
    case None
    then have "export_slots explicit full (current_account w) d ks v1 = (Inr vs, v')"
      using Cons.prems(1) q y by (simp add: Let_def r)
    then show ?thesis using Cons.IH t1 Cons.prems(3,4) by simp
  next
    case (Some ct)
    obtain creds t where ct: "ct = (creds, t)" by (cases ct)
    obtain e where e: "export_entry full k ?rec creds t = Inr e"
      using Cons.prems(1) q y Some ct by (cases "export_entry full k ?rec creds t") (auto simp: Let_def r)
    obtain q2 v2 where q2: "export_slots explicit full (current_account w) d ks v1 = (q2, v2)" by fastforce
    obtain vs' where vs: "q2 = Inr vs'" "vs = (k, e) # vs'"
      using Cons.prems(1) q y Some ct e q2 by (cases q2) (auto simp: Let_def r)
    have "k \<in> set (sorted_slot_keys d)" using Cons.prems(3) by simp
    then have "credential_of w d (rec_email d k, rec_org d k) creds"
      using export_texts_read [OF q [unfolded y Some ct] Cons.prems(2)] by blast
    then have "exported_from full w d e" using e by (auto simp: exported_from_def)
    moreover have "x = (k, e) \<or> x \<in> set vs'" using Cons.prems(4) vs(2) by simp
    ultimately show ?thesis using Cons.IH [OF q2 [unfolded vs(1)] t1] Cons.prems(3) by auto
  qed
qed auto

lemma export_accounts_facts:
  assumes "export_accounts platform version account full w = (Inr doc, w')"
  shows "touches {RSeq} w w'"
    "\<exists>d. fst (sequence_migrated w) = Inr (Some d) \<and> (\<forall>v \<in> set (doc_accounts doc). exported_from full w d v)"
    "\<exists>active. doc = envelope (w_stamp w) platform version active (doc_accounts doc)" "doc_accounts doc \<noteq> []"
proof -
  obtain q w1 where q: "sequence_migrated w = (q, w1)" by fastforce
  have t1: "touches {RSeq} w w1" by (rule touches_result [OF q]) (intro frames; simp)
  obtain d where d: "q = Inr (Some d)" "accounts d \<noteq> []"
    using assms q by (auto simp: export_accounts_def split: sum.splits option.splits if_splits)
  obtain g w2 where g: "export_targets d account w1 = (g, w2)" by fastforce
  have t2: "touches {RSeq} w w2"
  proof -
    have "touches {RSeq} w1 (snd (export_targets d account w1))"
    proof (cases "account = []")
      case False
      obtain a b where a: "resolve_account account w1 = (a, b)" by fastforce
      have "touches {RSeq} w1 b" by (rule touches_result [OF a]) (intro frames; simp)
      moreover have "snd (export_targets d account w1) = b"
        using False a by (auto simp: export_targets_def split: sum.splits go_err.splits kind.splits)
      ultimately show ?thesis by simp
    qed (simp add: export_targets_def)
    then show ?thesis using g touches_trans [OF t1] by simp
  qed
  obtain ks where ks: "g = Inr ks" using assms q d g by (cases g) (auto simp: export_accounts_def)
  have keys: "set ks \<subseteq> set (sorted_slot_keys d)"
    using g unfolding ks export_targets_def
    by (auto split: if_splits prod.splits sum.splits go_err.splits kind.splits)
  obtain x w3 where "export_slots (account \<noteq> []) full (current_account w2) d ks w2 = (x, w3)" by fastforce
  then have x: "export_slots (account \<noteq> []) full (current_account w) d ks w2 = (x, w3)" "current_account w2 = current_account w"
    using live_touches(2) [OF t2] by (simp_all add: live_resources_def)
  have t3: "touches {RSeq} w w3" by (rule touches_result [OF x(1)]) (intro frames t2)
  obtain vs where vs: "x = Inr vs" "vs \<noteq> []"
    using assms q d g ks x by (auto simp: export_accounts_def split: sum.splits list.splits)
  obtain active o1 w4 where o1: "os_call (\<lambda>w. w) w3 = (o1, w4)" "o1 = None" "w' = w4"
    "doc = envelope (w_stamp w3) platform version active (map snd vs)"
    using assms q d g ks x vs by (cases vs) (auto simp: export_accounts_def Let_def split: prod.splits option.splits)
  show "touches {RSeq} w w'" unfolding o1(3) by (rule touches_result [OF o1(1)]) (intro frames t3)
  have dist: "doc_accounts doc = map snd vs"
    unfolding o1(4) by (simp add: doc_accounts_def doc_field_def envelope_def obj_map_def mget_def)
  have "exported_from full w d v" if v: "v \<in> set (doc_accounts doc)" for v
  proof -
    obtain p where "p \<in> set vs" "v = snd p" using v dist by auto
    then show ?thesis using export_slots_entries [OF x(1) [unfolded vs(1)] t2 keys] by blast
  qed
  moreover have "fst (sequence_migrated w) = Inr (Some d)" using q d(1) by simp
  ultimately show "\<exists>d. fst (sequence_migrated w) = Inr (Some d) \<and> (\<forall>v \<in> set (doc_accounts doc). exported_from full w d v)" by blast
  have "w_stamp w3 = w_stamp w" by (rule touches_facts(3) [OF t3])
  then show "\<exists>active. doc = envelope (w_stamp w) platform version active (doc_accounts doc)" using o1(4) dist by auto
  show "doc_accounts doc \<noteq> []" using dist vs(2) by simp
qed

text \<open>
  Property C36: an export without --full carries nothing but the login. Whatever calls fail, an export
  that succeeded changed nothing on this machine (up to a pending organization backfill of the roster),
  and the configuration of every account in the document has the single member oauthAccount: no user id,
  project, path or other setting of this machine leaves it.
\<close>

theorem slim_export_private:
  assumes "export_accounts platform version account False w = (Inr doc, w')"
  shows "touches {RSeq} w w' \<and> doc_accounts doc \<noteq> []
     \<and> (\<forall>v \<in> set (doc_accounts doc). \<exists>oauth. doc_field v ''config'' = JObj [(''oauthAccount'', oauth)])"
proof -
  note f = export_accounts_facts [OF assms]
  have "\<exists>oauth. doc_field v ''config'' = JObj [(''oauthAccount'', oauth)]" if v: "v \<in> set (doc_accounts doc)" for v
  proof -
    obtain d num creds t where "export_entry False num (rec_at d num) creds t = Inr v"
      using f(2) v by (auto simp: exported_from_def)
    then show ?thesis by (rule export_entry_fields) simp
  qed
  then show ?thesis using f(1,4) by blast
qed

lemma envelope_read:
  assumes "json_document text = Some (envelope stamp platform version active vs)" "vs \<noteq> []" "\<forall>v \<in> set vs. \<exists>m. as_map v = Some m"
  shows "\<exists>act. read_envelope text = Inr (act, vs)" "i < length vs \<Longrightarrow> raw_at (raw_credentials text) i = raw_credential (vs ! i)"
proof -
  obtain v us where vs: "vs = v # us" using assms(2) by (cases vs) auto
  have "int_value (JNum 1) = Some 1" by (simp add: int_value_def)
  then show "\<exists>act. read_envelope text = Inr (act, vs)"
    using document_first [OF assms(1)] by (simp add: read_envelope_def envelope_def obj_map_def mget_def vs)
  have l: "go_lower ''version'' = ''version''" "go_lower ''exportedAt'' = ''exportedat''" "go_lower ''exportedFrom'' = ''exportedfrom''"
    "go_lower ''swapVersion'' = ''swapversion''" "go_lower ''encrypted'' = ''encrypted''"
    "go_lower ''activeAccountNumber'' = ''activeaccountnumber''" "go_lower ''accounts'' = ''accounts''" by code_simp+
  have "list_all (\<lambda>v. case v of JObj _ \<Rightarrow> True | JNull \<Rightarrow> True | _ \<Rightarrow> False) vs"
    unfolding list_all_iff
  proof
    fix x assume "x \<in> set vs"
    then obtain m where "as_map x = Some m" using assms(3) by blast
    then show "case x of JObj _ \<Rightarrow> True | JNull \<Rightarrow> True | _ \<Rightarrow> False" by (cases x) simp_all
  qed
  then have "raw_credentials text = map raw_credential vs"
    using assms(1) by (simp add: raw_credentials_def envelope_def last_folded_def l)
  then show "i < length vs \<Longrightarrow> raw_at (raw_credentials text) i = raw_credential (vs ! i)" by (simp add: raw_at_def)
qed

text \<open>
  Property C33: an account moves to another machine with its own tokens. If a text that parses to an exported
  document is imported on another machine, and both commands succeed under whatever faults, then every account
  of the document has a slot there under its address and organization, and unless an account that was there
  already was left alone, the credential in that slot's backup carries (the same API key, or the same access
  token and the same refresh token) a credential the first machine held for that very address and organization:
  the live login if it was the current account, and else the backup of a slot the roster lists under that
  identity. (The credential's number texts are assumed to read back as the numbers, the importing machine's
  roster to be settled, and slot numbers to be below \<open>2 ^ 62\<close>.)
\<close>

theorem transfer_keeps_tokens:
  assumes "export_accounts platform version account full w = (Inr doc, w')" "json_document text = Some doc"
    "import_accounts lit (Inr text) force u = (Inr outs, u')"
    "seq_file u = SeqRoster d" "\<not> needs_org_backfill d" "slots_below (2 ^ 62 - 1) d" "small_numbers (doc_accounts doc)"
    "\<forall>r. lit r \<noteq> []" "\<forall>v \<in> set (doc_accounts doc). \<forall>r \<in> json_nums (doc_field v ''credentials''). number_text lit r"
  shows "\<exists>d0 d'. fst (sequence_migrated w) = Inr (Some d0) \<and> seq_file u' = SeqRoster d'
     \<and> length outs = length (doc_accounts doc) \<and> (\<forall>i < length outs.
       (let s = outcome_slot (outs ! i); (email, org) = doc_identity (doc_accounts doc ! i)
        in rec_email d' s = email \<and> rec_org d' s = org
         \<and> ((\<forall>n. outs ! i \<noteq> Skipped n) \<longrightarrow> (\<exists>c. credential_of w d0 (email, org) c \<and> carried c (backup_of s email u')))))"
proof -
  let ?vs = "doc_accounts doc"
  note f = export_accounts_facts [OF assms(1)]
  obtain d0 where d0: "fst (sequence_migrated w) = Inr (Some d0)" "\<And>v. v \<in> set ?vs \<Longrightarrow> exported_from full w d0 v"
    using f(2) by blast
  have objs: "\<forall>v \<in> set ?vs. \<exists>m. as_map v = Some m"
  proof
    fix v assume "v \<in> set ?vs"
    then obtain d num creds t where "export_entry full num (rec_at d num) creds t = Inr v"
      using f(2) by (auto simp: exported_from_def)
    then show "\<exists>m. as_map v = Some m" by (rule export_entry_fields) simp
  qed
  obtain active where "json_document text = Some (envelope (w_stamp w) platform version active ?vs)" using f(3) assms(2) by auto
  note e = envelope_read [OF this f(4) objs]
  obtain act where act: "read_envelope text = Inr (act, ?vs)" using e(1) by blast
  obtain d' where d': "seq_file u' = SeqRoster d'" "length outs = length ?vs" "\<forall>i < length ?vs.
       (let s = outcome_slot (outs ! i); (email, org) = doc_identity (?vs ! i)
        in rec_email d' s = email \<and> rec_org d' s = org
         \<and> ((\<forall>n. outs ! i \<noteq> Skipped n) \<longrightarrow> config_of s email u' = TJson (norm_json (doc_field (?vs ! i) ''config''))
              \<and> (\<exists>api. import_creds lit (raw_at (raw_credentials text) i) (the (as_map (?vs ! i))) = Inr (api, backup_of s email u'))))"
    using import_arrival [OF assms(3) act assms(4-6,7,8)] by blast
  have "let s = outcome_slot (outs ! i); (email, org) = doc_identity (?vs ! i)
        in rec_email d' s = email \<and> rec_org d' s = org
         \<and> ((\<forall>n. outs ! i \<noteq> Skipped n) \<longrightarrow> (\<exists>c. credential_of w d0 (email, org) c \<and> carried c (backup_of s email u')))" if i: "i < length outs" for i
  proof -
    have iv: "i < length ?vs" "?vs ! i \<in> set ?vs" using i d'(2) by simp_all
    obtain num creds t where x: "export_entry full num (rec_at d0 num) creds t = Inr (?vs ! i)"
      "credential_of w d0 (rec_email d0 num, rec_org d0 num) creds"
      using d0(2) [OF iv(2)] by (auto simp: exported_from_def)
    have "doc_identity (?vs ! i) = (rec_email d0 num, rec_org d0 num)"
      by (rule export_entry_fields [OF x(1)]) (simp add: rec_email_def rec_org_def)
    with x(2) have own: "credential_of w d0 (doc_identity (?vs ! i)) creds" by simp
    have "\<forall>r \<in> json_nums (doc_field (?vs ! i) ''credentials''). number_text lit r" using assms(9) iv(2) by blast
    from entry_carries [OF x(1) this] obtain c' where
      "import_creds lit (raw_credential (?vs ! i)) (the (as_map (?vs ! i))) = Inr (looks_like_api_key creds, c')" "carried creds c'" by blast
    moreover obtain em og where id: "doc_identity (?vs ! i) = (em, og)" by fastforce
    moreover have "rec_email d' (outcome_slot (outs ! i)) = em \<and> rec_org d' (outcome_slot (outs ! i)) = og
        \<and> ((\<forall>n. outs ! i \<noteq> Skipped n) \<longrightarrow> (\<exists>api. import_creds lit (raw_credential (?vs ! i)) (the (as_map (?vs ! i)))
             = Inr (api, backup_of (outcome_slot (outs ! i)) em u')))"
      using d'(3) [rule_format, OF iv(1)] id e(2) [OF iv(1)] by (simp add: Let_def)
    ultimately show ?thesis using own by (auto simp: Let_def)
  qed
  then show ?thesis using d0(1) d'(1,2) by blast
qed

section \<open>Examples\<close>

text \<open>An account with an access and a refresh token, on the machine that exports it.\<close>

definition sample_token :: string where
  "sample_token = ''{\"claudeAiOauth\":{\"accessToken\":\"T\",\"refreshToken\":\"R\"}}''"

definition sample_one :: seq_data where
  "sample_one = \<lparr>active_num = Some 1, last_updated = [], seq_nums = [1],
     accounts = [(''1'', JObj [(''email'', JStr ''a@x.org''), (''organizationUuid'', JStr [])])]\<rparr>"

definition sample_source :: world where
  "sample_source = (sample_linux [] Map.empty)\<lparr>seq_file := SeqRoster sample_one, live_creds := Some sample_token,
     live_config := Some (TJson (JObj [(''userID'', JStr ''u''),
       (''oauthAccount'', JObj [(''emailAddress'', JStr ''a@x.org''), (''organizationUuid'', JStr [])])]))\<rparr>"

lemma exported: "fst (export_accounts ''linux'' ''1.0'' [] False sample_source) = Inr sample_doc"
  by code_simp

lemma sample_import:
  "import_accounts digit_text (Inr sample_text) force w =
   with_roster_locked (import_body digit_text force [raw_credential sample_account] ''1'' [sample_account]) w"
proof -
  have "read_envelope sample_text = Inr (''1'', [sample_account])"
    unfolding read_envelope_def document_first [OF sample_text_doc] by code_simp
  moreover have "raw_credentials sample_text = [raw_credential sample_account]"
    unfolding raw_credentials_def sample_text_doc by code_simp
  ultimately show ?thesis by (simp add: import_accounts_def)
qed

lemma transfer_keeps_tokens_witness:
  "\<exists>c. credential_of sample_source sample_one (''a@x.org'', []) c \<and> carried c (backup_of ''1'' ''a@x.org'' (snd (import_accounts digit_text (Inr sample_text) False
     (sample_dest (empty_sequence []) []))))"
proof -
  let ?u = "sample_dest (empty_sequence []) []"
  let ?r = "import_accounts digit_text (Inr sample_text) False ?u"
  let ?e = "export_accounts ''linux'' ''1.0'' [] False sample_source"
  have e: "?e = (Inr sample_doc, snd ?e)" using exported by (simp add: prod_eq_iff)
  have "fst ?r = Inr [Imported ''1'']" unfolding sample_import by code_simp
  then have r: "?r = (Inr [Imported ''1''], snd ?r)" by (simp add: prod_eq_iff)
  have s: "seq_file ?u = SeqRoster (empty_sequence [])" by (simp add: sample_dest_def)
  have b: "\<not> needs_org_backfill (empty_sequence [])" by code_simp
  have sb: "slots_below (2 ^ 62 - 1) (empty_sequence [])" by (simp add: slots_below_def empty_sequence_def)
  have ac: "doc_accounts sample_doc = [sample_account]" by code_simp
  have sm: "small_numbers (doc_accounts sample_doc)" by code_simp
  have nt: "\<forall>v \<in> set (doc_accounts sample_doc). \<forall>r \<in> json_nums (doc_field v ''credentials''). number_text digit_text r"
  proof -
    have "json_nums (doc_field sample_account ''credentials'') = {}" by code_simp
    then show ?thesis unfolding ac by simp
  qed
  have id: "doc_identity sample_account = (''a@x.org'', [])" by code_simp
  from transfer_keeps_tokens [OF e sample_text_doc r s b sb sm _ nt] digit_text_nonempty
  have "\<exists>d0. fst (sequence_migrated sample_source) = Inr (Some d0)
      \<and> (\<exists>c. credential_of sample_source d0 (''a@x.org'', []) c \<and> carried c (backup_of ''1'' ''a@x.org'' (snd ?r)))"
    by (fastforce simp: ac id Let_def)
  moreover have "fst (sequence_migrated sample_source) = Inr (Some sample_one)" by code_simp
  ultimately show ?thesis by auto
qed

lemma slim_export_private_witness:
  "touches {RSeq} sample_source (snd (export_accounts ''linux'' ''1.0'' [] False sample_source))
   \<and> (\<exists>oauth. doc_field sample_account ''config'' = JObj [(''oauthAccount'', oauth)])"
proof -
  let ?e = "export_accounts ''linux'' ''1.0'' [] False sample_source"
  have e: "?e = (Inr sample_doc, snd ?e)" using exported by (simp add: prod_eq_iff)
  have "sample_account \<in> set (doc_accounts sample_doc)" by code_simp
  with slim_export_private [OF e] show ?thesis by blast
qed

end
