(* ===== verification/Spec2Isabelle.thy ===== *)
theory Spec2Isabelle
  imports SwitchChoice AutoState Locks Collected TokenAccount PortedBack
begin

text \<open>
  cswap keeps several Claude Code accounts in numbered slots and switches the live login between them. Its
  state is a roster (sequence.json), one credential backup and one configuration backup per slot, the
  live login (Claude Code's credential file or Keychain entry and ~/.claude.json), session profiles,
  directory mappings, and a table of usage measurements shared by all cswap processes. This development
  models the operations on that state and proves what a user relies on: credentials are not lost or
  crossed between accounts, a command that fails leaves things as they were, lookups find the right slot,
  and the polling of usage stays within its bounds. Sources are under src/internal.

  Foundations.
    Prelude: Go's 64-bit int, the strings and strconv functions used, Go maps, stable sorting as a locale
      over a comparator.
    Json, JsonDecode: decoded JSON values, the decoder (fuel is the length of the text, which each recursive
      call shortens), credential texts and fingerprints (oauth/credentials.go, fingerprint.go).
    GoTime: the RFC 3339 subset that the reset times use.
    Cerr: the typed errors of cerr.
    World: the state above as one record, and fallible calls. Each call takes one verdict from a list:
      success, an unusable Keychain, another failure, the last two with or without their effect. A theorem
      about an operation quantifies over all such lists. \<open>touches\<close> bounds what an operation may change; its
      rules are collected in \<open>frames\<close>.
    Interfaces: the contract of a slot's backup as the locale \<open>slot_backup\<close>, interpreted for credentials
      (CredStore, SlotStore) and for configurations (SlotStore).

  Components.
    SlotKey (slotkey): the order of slots; an instance of the sorting locale.
    Roster (store/sequence.go, identity.go): classified reads, numbering, lookups, identifier resolution and
      the backfill of organization fields.
    Windows, PollPolicy (oauth/windows.go, nums.go, usage/pollpolicy.go): the windows a decision counts,
      headroom, renewal, and the polling plan.
    CredStore (credstore, ccfile): backups with their previous generation, Keychain and file backends with the
      usability cache, the live credential, the stash.
    SessProfile (sessprofile, store/guards.go): profile directories, stale marks, the live-session guard.
    SlotStore (store/credproxy.go, rosterlock.go, guards.go): slot backups, the locked roster, rotation.
    Locks (cclock, filelock): the acquisition loops over what each round of polling sees, and the protocol of
      the directory lock as a transition system of any number of processes. Elsewhere a lock is a verdict.
    Switching (switching/perform.go and its helpers): provenance and ownership of the live credential, the
      switch with its rollback, direct activation, re-planning.
    SwitchChoice (switching/strategies.go, switch.go, switchto.go): which account to switch to.
    Settings (settings): settings.json as a refinement of a partial map from keys to values.
    AutoSwitch, AutoTick, AutoState (autoswitch): the engine that switches by itself. AutoSwitch has the
      definitions and the tick composed of them; AutoTick the lemmas of the tick and the runs of any number
      of engines as an inductive relation, AutoState the lemmas of the state file.
    UsageStore (usage): the usage table, claims, backoff, quarantine of dead tokens, the read model.
    OAuthFetch, Collect, Collected (oauth/fetch.go, classify.go, normalize.go; reporting/collect.go, fetch.go,
      info.go, pollinputs.go): one usage fetch, the collection over all accounts with the keeping of rotated
      credentials, and its lemmas.
    MoveSwap, Lifecycle (lifecycle): moving, swapping and removing slots, aliases, holding out of rotation.
    Adding, TokenAccount (lifecycle/add.go, addtoken.go): adding the live login, a token or an API key.
    Mappings (mappings): directory mappings and their resolution.
    JsonEncode: the encoder of encoding/json, proved the inverse of the decoder up to the order of members.
    Portable, Ported, PortedBack (transfer): the portable document. Portable has export and import, Ported
      what holds of the import, PortedBack the export and the way there and back.

  How they interact. Every command is a function on the World: the switch (Switching) takes the locks, reads
  the roster through SlotStore, backs the live login up through CredStore and writes the target's login; the
  choice (SwitchChoice) and the engine (AutoSwitch) call it, and the engine's tick takes its measurements from
  a collection that Collect provides (a tick with that collection is a run of the engine). Adding, moving,
  removing and importing (Adding, MoveSwap, Lifecycle, Portable) change the roster and the backups under the
  same locked roster operations.

  What the lemmas show. Each store operation has a frame lemma (what it touches under any faults) and a
  success lemma (what holds after it returned without an error). The properties combine them: a credential
  that could be read is not lost (Switching, MoveSwap, Collected), accounts that a command does not name
  keep their records and backups (Adding, Ported), success means the effect took place (Switching, CredStore,
  MoveSwap, Lifecycle, Adding), tokens stay with their account on the way to another machine (PortedBack),
  failure is harmless (Switching on its normal path, MoveSwap up to the emptied target, Ported), lookups are
  exact (Roster, Mappings), the shared table excludes and quarantines (UsageStore), an automatic switch has a reason and
  keeps its distance from the last one (AutoTick), numbers stay in range (PollPolicy, UsageStore), waiting
  ends (Locks). Some properties state where the code falls short: backups that cannot be read are taken for
  missing (MoveSwap), a login without a readable configuration is displaced without a copy (Switching), a
  failed read of the engine's state file erases the quarantine and the cooldown (AutoState). Library lemmas
  show others: a refused swap still exchanges the profiles (MoveSwap.refused_swap_exchanges_profiles), a write
  failing after its effect mixes two accounts (Switching.late_failure_mixes_accounts), two waiters that find
  the same stale lock can both hold it (Locks.takeover_race), of two rotations in one fetch the second is
  dropped (Collected.second_rotation_dropped), and a login replaced while the command adding it asks a
  question is stored under the identity of the former login (Adding).

  Bounds and fuel. The decoder's fuel is the length of the text, which each recursive call shortens. The
  loops of Locks are \<open>partial_function\<close>s; that they return is proved from the deadline and the sleeps
  they ask for, which the clock is taken to cover; rounds that go on without a sleep are counted. Facts about an import take the slot numbers to be below 2 ^ 62, so that the next free
  number does not wrap around; slot numbers are 64-bit integers throughout.

  Parameters. The OAuth client (usage requests, token refreshes, profile requests) is a parameter, and a
  request may change the world, since other processes run meanwhile; properties state which places it may
  change. So are the display form of reset times, the path normalization of Mappings, the answer to a question and what
  happens while it is asked (Adding), and the text of a number in a credential that is exported (Portable).

  Reading the model. File names are joined with a slash, without the cleaning of filepath.Join, which matters
  only for addresses with dots between slashes. \<open>Roster.decode_record\<close> also stands for decodeRecord of
  lifecycle, which differs only on records that are no objects. Numbers turned into int are floored without
  a bound (\<open>UsageStore.int_of_json\<close>), and texts are taken to be valid UTF-8. Messages are cut at their first interpolated argument or shortened; logging and
  console output are left out, and warnings are collected as short texts. Numbers of JSON documents and
  times are exact rationals, so floating-point rounding, infinities and NaN are not covered (a Retry-After
  that is infinite or NaN counts as absent). Letter case and white space are ASCII. Between two calls of one
  operation no other process acts on the files its lock protects. The clock never goes back, and \<open>touches\<close>
  includes that. Usage fetches run one after the other; in the program they overlap. Of several slots with
  one identity a lookup takes the first. Reads of ~/.claude.json outside the switch itself and tests for
  existence do not fail. A recovered panic and the channels that wake or stop the engine are not modelled.

  Not modelled. The terminal user interface, the command line, the machine-readable output and the rendering
  of reports decide nothing about the state above. HTTP exchanges, sub-processes, the Keychain program and
  the file system enter as parameters or as verdicts. Sessions (a profile directory and a process started in
  it), migrations of old installations, the purge of everything and the check for releases are not modelled:
  they work on file-system layouts and platform services that the World does not have.
\<close>

end
